(* ===== verification/Prelude.thy ===== *)
theory Prelude
  imports Main "HOL-Library.Word"
begin

unbundle bit_operations_syntax

text \<open>
  Shared vocabulary of the development: the machine integer types, the result type in which
  every Rust panic is a value, integer arithmetic as the two build profiles compile it, the
  4 KiB alignment helpers that both crates define, little-endian bytes, and the interface
  of the third-party bounded vector.

  The parameter \<open>dbg\<close> that many definitions take is \<open>cfg!(debug_assertions)\<close>: in the
  \<^verbatim>\<open>dev\<close> profile an overflowing \<open>+\<close>, \<open>-\<close> or \<open>*\<close> panics, in the \<^verbatim>\<open>release\<close>
  profile it wraps around.
\<close>

section \<open>Types\<close>

type_synonym u8 = "8 word"
type_synonym u16 = "16 word"
type_synonym u32 = "32 word"
type_synonym u64 = "64 word"

text \<open>
  Why an operation did not return: arithmetic overflow, an index or slice out of range,
  an \<open>unwrap\<close>/\<open>expect\<close> on nothing, an explicit panic or fatal stop of the source, an
  access outside the buffer a raw pointer belongs to, and a release-profile loop whose
  word counter wrapped around and never leaves its range.
\<close>

datatype panic =
    Overflow
  | OutOfRange
  | UnwrapNone
  | Fatal
  | OutOfBuffer
  | CounterWrapped

datatype 'a res = Ok 'a | Panic panic

primrec rbind :: "'a res \<Rightarrow> ('a \<Rightarrow> 'b res) \<Rightarrow> 'b res" where
  "rbind (Ok x) f = f x"
| "rbind (Panic p) f = Panic p"

definition expect :: "'a option \<Rightarrow> 'a res" where
  "expect x = (case x of Some v \<Rightarrow> Ok v | None \<Rightarrow> Panic UnwrapNone)"

section \<open>Integer arithmetic of the two build profiles\<close>

definition u_add :: "bool \<Rightarrow> 'l::len word \<Rightarrow> 'l word \<Rightarrow> 'l word res" where
  "u_add dbg a b =
     (if dbg \<and> 2 ^ LENGTH('l) \<le> unat a + unat b then Panic Overflow else Ok (a + b))"

definition u_sub :: "bool \<Rightarrow> 'l::len word \<Rightarrow> 'l word \<Rightarrow> 'l word res" where
  "u_sub dbg a b = (if dbg \<and> a < b then Panic Overflow else Ok (a - b))"

definition u_mul :: "bool \<Rightarrow> 'l::len word \<Rightarrow> 'l word \<Rightarrow> 'l word res" where
  "u_mul dbg a b =
     (if dbg \<and> 2 ^ LENGTH('l) \<le> unat a * unat b then Panic Overflow else Ok (a * b))"

definition saturating_add :: "'l::len word \<Rightarrow> 'l word \<Rightarrow> 'l word" where
  "saturating_add a b = (if 2 ^ LENGTH('l) \<le> unat a + unat b then - 1 else a + b)"

definition saturating_sub :: "'l::len word \<Rightarrow> 'l word \<Rightarrow> 'l word" where
  "saturating_sub a b = (if a < b then 0 else a - b)"

definition checked_add :: "'l::len word \<Rightarrow> 'l word \<Rightarrow> 'l word option" where
  "checked_add a b = (if 2 ^ LENGTH('l) \<le> unat a + unat b then None else Some (a + b))"

definition checked_mul :: "'l::len word \<Rightarrow> 'l word \<Rightarrow> 'l word option" where
  "checked_mul a b = (if 2 ^ LENGTH('l) \<le> unat a * unat b then None else Some (a * b))"

section \<open>Alignment\<close>

definition align_down :: "u64 \<Rightarrow> u64 \<Rightarrow> u64" where
  "align_down x a = x AND NOT (a - 1)"

definition align_up :: "bool \<Rightarrow> u64 \<Rightarrow> u64 \<Rightarrow> u64 res" where
  "align_up dbg x a = rbind (u_add dbg x (a - 1)) (\<lambda>y. Ok (y AND NOT (a - 1)))"

abbreviation page_size :: nat where
  "page_size \<equiv> 4096"

abbreviation page_aligned :: "u64 \<Rightarrow> bool" where
  "page_aligned x \<equiv> page_size dvd unat x"

section \<open>Lists addressed by index, as Rust slices and vectors are\<close>

definition idx :: "'a list \<Rightarrow> nat \<Rightarrow> 'a res" where
  "idx xs i = (if i < length xs then Ok (xs ! i) else Panic OutOfRange)"

definition slice :: "'a list \<Rightarrow> nat \<Rightarrow> nat \<Rightarrow> 'a list res" where
  "slice xs i j = (if i \<le> j \<and> j \<le> length xs then Ok (take (j - i) (drop i xs)) else Panic OutOfRange)"

definition remove_at :: "nat \<Rightarrow> 'a list \<Rightarrow> 'a list" where
  "remove_at i xs = take i xs @ drop (Suc i) xs"

section \<open>Little-endian bytes\<close>

primrec le_bytes :: "nat \<Rightarrow> 'l::len word \<Rightarrow> u8 list" where
  "le_bytes 0 w = []"
| "le_bytes (Suc n) w = ucast w # le_bytes n (drop_bit 8 w)"

primrec from_le :: "u8 list \<Rightarrow> 'l::len word" where
  "from_le [] = 0"
| "from_le (b # bs) = ucast b OR push_bit 8 (from_le bs)"

section \<open>The bounded vector of the heapless crate\<close>

text \<open>
  \<open>heapless::Vec<T, N>\<close> is third-party code: its contents are a list and its operations are
  parameters. \<open>hvec_api\<close> is their documented behaviour: \<open>push\<close> appends or reports that
  the capacity is used up, \<open>pop\<close> takes the last element.
\<close>

record 'a hvec_ops =
  hv_push :: "'a list \<Rightarrow> 'a \<Rightarrow> 'a list option"
  hv_pop :: "'a list \<Rightarrow> ('a \<times> 'a list) option"

definition hvec_api :: "nat \<Rightarrow> 'a hvec_ops \<Rightarrow> bool" where
  "hvec_api n hv \<longleftrightarrow>
     (\<forall>xs x. hv_push hv xs x = (if length xs < n then Some (xs @ [x]) else None)) \<and>
     hv_pop hv [] = None \<and>
     (\<forall>xs x. hv_pop hv (xs @ [x]) = Some (x, xs))"

text \<open>A concrete bounded vector, the instance the witnesses use.\<close>

definition list_hvec :: "nat \<Rightarrow> 'a hvec_ops" where
  "list_hvec n = \<lparr>
     hv_push = (\<lambda>xs x. if length xs < n then Some (xs @ [x]) else None),
     hv_pop = (\<lambda>xs. if xs = [] then None else Some (last xs, butlast xs))\<rparr>"

section \<open>Results\<close>

named_theorems arith_ok \<open>arithmetic that stays in range returns its value in both profiles\<close>

lemma rbind_Ok_iff [simp]: "rbind m f = Ok y \<longleftrightarrow> (\<exists>x. m = Ok x \<and> f x = Ok y)"
  by (cases m) auto

lemma rbind_assoc: "rbind (rbind m f) g = rbind m (\<lambda>x. rbind (f x) g)"
  by (cases m) auto

lemma rbind_cong [fundef_cong]:
  "\<lbrakk>m = m'; \<And>x. m' = Ok x \<Longrightarrow> f x = f' x\<rbrakk> \<Longrightarrow> rbind m f = rbind m' f'"
  by (cases m') auto

lemma expect_simps [simp]: "expect (Some v) = Ok v" "expect None = Panic UnwrapNone"
  by (simp_all add: expect_def)

lemma idx_Ok [simp]: "i < length xs \<Longrightarrow> idx xs i = Ok (xs ! i)"
  by (simp add: idx_def)

lemma idx_Ok_iff: "idx xs i = Ok x \<longleftrightarrow> i < length xs \<and> x = xs ! i"
  by (auto simp: idx_def)

lemma hvec_push: "hvec_api n hv \<Longrightarrow> hv_push hv xs x = (if length xs < n then Some (xs @ [x]) else None)"
  unfolding hvec_api_def by (elim conjE allE)

lemma hvec_pop_Nil: "hvec_api n hv \<Longrightarrow> hv_pop hv [] = None"
  by (simp add: hvec_api_def)

lemma hvec_pop_snoc: "hvec_api n hv \<Longrightarrow> hv_pop hv (xs @ [x]) = Some (x, xs)"
  unfolding hvec_api_def by (elim conjE allE)

lemma list_hvec_api: "hvec_api n (list_hvec n)"
  by (simp add: hvec_api_def list_hvec_def)

section \<open>Word arithmetic\<close>

lemma u_add_ok [arith_ok]: "unat a + unat b < 2 ^ LENGTH('l) \<Longrightarrow> u_add dbg a b = Ok (a + b :: 'l::len word)"
  by (simp add: u_add_def)

lemma u_sub_ok [arith_ok]: "b \<le> a \<Longrightarrow> u_sub dbg a b = Ok (a - b :: 'l::len word)"
  by (simp add: u_sub_def not_less)

lemma u_mul_ok [arith_ok]: "unat a * unat b < 2 ^ LENGTH('l) \<Longrightarrow> u_mul dbg a b = Ok (a * b :: 'l::len word)"
  by (simp add: u_mul_def)

lemma u_add_OkD: "u_add dbg a b = Ok c \<Longrightarrow> c = a + b"
  by (auto simp: u_add_def split: if_splits)

lemma u_sub_OkD: "u_sub dbg a b = Ok c \<Longrightarrow> c = a - b"
  by (auto simp: u_sub_def split: if_splits)

lemma unat_add_ok: "unat a + unat b < 2 ^ LENGTH('l) \<Longrightarrow> unat (a + b :: 'l::len word) = unat a + unat b"
  using unat_add_lem by blast

lemma unat_less_64 [simp]: "unat (x :: u64) < 18446744073709551616"
  using unsigned_less [of x] by simp

lemma unat_less_32 [simp]: "unat (x :: u32) < 4294967296"
  using unsigned_less [of x] by simp

lemma unat_less_16 [simp]: "unat (x :: u16) < 65536"
  using unsigned_less [of x] by simp

lemma unat_less_8 [simp]: "unat (x :: u8) < 256"
  using unsigned_less [of x] by simp

lemma word_to_top_less: "(a :: u64) < b \<Longrightarrow> 2 ^ 64 - unat b < 2 ^ 64 - unat a"
proof (rule diff_less_mono2)
  show "a < b \<Longrightarrow> unat a < unat b"
    by (simp add: word_less_nat_alt)
  show "unat a < 2 ^ 64"
    by simp
qed

lemma unat_of_nat_64: "n < 2 ^ 64 \<Longrightarrow> unat (of_nat n :: u64) = n"
  by (simp add: unsigned_of_nat take_bit_nat_eq_self)

lemma unat_le_64: "unat (x :: u64) \<le> 18446744073709551615"
  using unat_less_64 [of x] by linarith

lemma saturating_add_ge: "unat a \<le> unat (saturating_add a b :: 'l::len word)"
proof (cases "2 ^ LENGTH('l) \<le> unat a + unat b")
  case True
  have "a \<le> - 1"
    by (rule word_order.extremum)
  then show ?thesis
    using True by (simp add: saturating_add_def word_le_nat_alt)
next
  case False
  then have "unat (a + b) = unat a + unat b"
    by (intro unat_add_ok) simp
  then show ?thesis
    using False by (simp add: saturating_add_def)
qed

lemma saturating_add_neq: "saturating_add a b \<noteq> a \<Longrightarrow> a < (saturating_add a b :: 'l::len word)"
  using saturating_add_ge [of a b] by (simp add: word_less_nat_alt word_unat_eq_iff)

lemma checked_add_Some_iff:
  "checked_add a b = Some c \<longleftrightarrow> unat a + unat b < 2 ^ LENGTH('l) \<and> c = (a + b :: 'l::len word)"
  by (auto simp: checked_add_def)

section \<open>Alignment to a power of two\<close>

lemma and_not_mask_eq: "x AND NOT (mask n) = push_bit n (drop_bit n (x :: 'l::len word))"
  by (rule bit_eqI) (auto simp: bit_simps)

lemma and_not_mask_add: "(x AND NOT (mask n)) + take_bit n x = (x :: 'l::len word)"
  by (simp add: and_not_mask_eq bits_ident)

lemma unat_take_bit: "unat (take_bit n (x :: 'l::len word)) = unat x mod 2 ^ n"
proof -
  have "unat (take_bit n x) = take_bit n (unat x)"
    by (simp add: unsigned_take_bit_eq)
  then show ?thesis
    by (simp add: take_bit_eq_mod)
qed

lemma unat_and_not_mask: "unat (x AND NOT (mask n)) = unat x - unat x mod 2 ^ n"
  for x :: "'l::len word"
proof -
  have "x AND NOT (mask n) = x - take_bit n x"
    using and_not_mask_add [of x n] by (simp add: eq_diff_eq)
  moreover have "take_bit n x \<le> x"
    by (simp add: word_le_nat_alt unat_take_bit)
  ultimately show ?thesis
    by (simp add: unat_sub unat_take_bit)
qed

lemma not_pow2_minus_1: "NOT (2 ^ n - 1 :: 'l::len word) = NOT (mask n)"
  by (simp add: mask_eq_exp_minus_1)

lemma align_down_pow2: "unat (align_down x (2 ^ n)) = unat x - unat x mod 2 ^ n"
  by (simp add: align_down_def unat_and_not_mask flip: mask_eq_exp_minus_1)

lemma align_down_page: "unat (align_down x 0x1000) = unat x - unat x mod 4096"
  using align_down_pow2 [of x 12] by simp

lemma align_down_mod: "page_aligned (align_down x 0x1000)"
  by (simp add: align_down_page dvd_minus_mod)

lemma align_down_id: "page_aligned x \<Longrightarrow> align_down x 0x1000 = x"
  by (simp add: unat_eq_nat_uint [symmetric] word_unat_eq_iff align_down_page)

text \<open>Multiples of the page size: steps of one page, and the page that holds an address.\<close>

lemma page_multiple_less:
  fixes p q :: nat
  assumes "4096 dvd p" "4096 dvd q"
  shows "q < p + 4096 \<longleftrightarrow> q \<le> p"
proof -
  obtain j k where "p = 4096 * j" "q = 4096 * k"
    using assms by (elim dvdE)
  then show ?thesis
    by auto
qed

lemma round_up_page:
  fixes n :: nat
  shows "4096 dvd n \<Longrightarrow> (n + 4095) - (n + 4095) mod 4096 = n"
  by (elim dvdE) simp

lemma page_le_round_down:
  fixes q h :: nat
  assumes "4096 dvd q"
  shows "q \<le> h - h mod 4096 \<longleftrightarrow> q \<le> h"
proof -
  have "4096 dvd h - h mod 4096" "h < h - h mod 4096 + 4096"
    using mod_less_eq_dividend [of h 4096] mod_less_divisor [of 4096 h]
    by (auto simp: dvd_minus_mod)
  then show ?thesis
    using page_multiple_less [OF _ assms, of "h - h mod 4096"] by linarith
qed

lemma round_up_le_page:
  fixes p l :: nat
  assumes "4096 dvd p"
  shows "(l + 4095) - (l + 4095) mod 4096 \<le> p \<longleftrightarrow> l \<le> p"
proof -
  have "p + 4096 \<le> (l + 4095) - (l + 4095) mod 4096 \<longleftrightarrow> p + 4096 \<le> l + 4095"
    by (rule page_le_round_down) (simp add: assms)
  moreover have "4096 dvd (l + 4095) - (l + 4095) mod 4096"
    by (rule dvd_minus_mod)
  ultimately show ?thesis
    using page_multiple_less [OF assms, of "(l + 4095) - (l + 4095) mod 4096"] by linarith
qed

lemma align_up_page:
  assumes "unat x + 4095 < 2 ^ 64"
  obtains y where "align_up dbg x 0x1000 = Ok y"
    and "unat y = (unat x + 4095) - (unat x + 4095) mod 4096"
proof -
  have add: "u_add dbg x 0xFFF = Ok (x + 0xFFF)" "unat (x + 0xFFF) = unat x + 4095"
    using assms by (simp_all add: u_add_def unat_add_ok)
  have "align_up dbg x 0x1000 = Ok ((x + 0xFFF) AND NOT 0xFFF)"
    by (simp add: align_up_def add)
  moreover have "unat ((x + 0xFFF) AND NOT 0xFFF) = (unat x + 4095) - (unat x + 4095) mod 4096"
    using align_down_page [of "x + 0xFFF"] by (simp add: align_down_def add(2))
  ultimately show thesis
    by (rule that)
qed

end
