(* ===== verification/Bootinfo.thy ===== *)
theory Bootinfo
  imports Prelude
begin

text \<open>
  The record the boot loader hands to the kernel, declared twice in the repository with the
  same layout (\<^verbatim>\<open>jotunboot/src/main.rs\<close>, \<^verbatim>\<open>jotunheimkernel/src/bootinfo.rs\<close>). The pointer
  and length of the memory map are the list of its regions.
\<close>

record Framebuffer =
  fb_addr :: u64
  fb_width :: u32
  fb_height :: u32
  fb_pitch :: u32
  fb_bpp :: u32
  fb_pixel_format :: u32

record MemoryRegion =
  phys_start :: u64
  virt_start :: u64
  mr_len :: u64
  mr_typ :: u32
  mr_attr :: u64

record BootInfo =
  rsdp_addr :: u64
  memory_map :: "MemoryRegion list"
  framebuffer :: Framebuffer
  kernel_phys_base :: u64
  kernel_virt_base :: u64
  early_heap_paddr :: u64
  early_heap_len :: u64
  hhdm_base :: u64
  low32_pool_paddr :: u64
  low32_pool_len :: u64

end
