(* ===== verification/Boot_Paging.thy ===== *)
theory Boot_Paging
  imports Bootinfo "HOL-Library.Sublist"
begin

unbundle bit_operations_syntax

text \<open>
  The page tables that the boot loader builds for the kernel (\<^verbatim>\<open>jotunboot/src/main.rs\<close>). Memory is
  identity mapped while the loader runs, so a table is the 512 entries of the physical page it
  occupies. \<open>boot::allocate_pages\<close> of the UEFI firmware is the list of the pages it will hand
  out, one per call; the empty list is a failing call.

  A function that returns \<open>Result<_, ()>\<close> is an option inside \<open>res\<close>, \<open>Ok None\<close> being \<open>Err(())\<close>.
\<close>

section \<open>State\<close>

record PtState =
  pmem :: "u64 \<Rightarrow> nat \<Rightarrow> u64"
  avail :: "u64 list"

type_synonym 'a ptm = "PtState \<Rightarrow> ('a \<times> PtState) option res"

text \<open>The question mark operator.\<close>

definition tbind :: "('a \<times> PtState) option res \<Rightarrow> ('a \<Rightarrow> 'b ptm) \<Rightarrow> ('b \<times> PtState) option res" where
  "tbind m f = rbind m (\<lambda>r. case r of None \<Rightarrow> Ok None | Some (x, st) \<Rightarrow> f x st)"

section \<open>Entries and indices\<close>

definition PTE_P :: u64 where "PTE_P = 1"
definition PTE_RW :: u64 where "PTE_RW = 2"
definition PTE_PS :: u64 where "PTE_PS = 128"
definition ADDR_MASK :: u64 where "ADDR_MASK = 0x000FFFFFFFFFF000"
definition HHDM_BASE :: u64 where "HHDM_BASE = 0xffff888000000000"

definition is_aligned :: "u64 \<Rightarrow> u64 \<Rightarrow> bool" where
  "is_aligned x a \<longleftrightarrow> x AND (a - 1) = 0"

definition pml4_index :: "u64 \<Rightarrow> nat" where
  "pml4_index va = unat (drop_bit 39 va AND 0x1ff)"

definition pdpt_index :: "u64 \<Rightarrow> nat" where
  "pdpt_index va = unat (drop_bit 30 va AND 0x1ff)"

definition pd_index :: "u64 \<Rightarrow> nat" where
  "pd_index va = unat (drop_bit 21 va AND 0x1ff)"

definition pt_index :: "u64 \<Rightarrow> nat" where
  "pt_index va = unat (drop_bit 12 va AND 0x1ff)"

definition boot_align_up :: "bool \<Rightarrow> u64 \<Rightarrow> u64 \<Rightarrow> u64 res" where
  "boot_align_up dbg x a =
     (let m = max a 1 in
      rbind (u_add dbg x m) (\<lambda>s. rbind (u_sub dbg s 1) (\<lambda>t. Ok (t AND NOT (m - 1)))))"

section \<open>Tables\<close>

definition write_entry :: "u64 \<Rightarrow> nat \<Rightarrow> u64 \<Rightarrow> PtState \<Rightarrow> PtState" where
  "write_entry t i e st = st\<lparr>pmem := (pmem st)(t := (pmem st t)(i := e))\<rparr>"

definition alloc_zero_page :: "u64 ptm" where
  "alloc_zero_page st = (case avail st of
      [] \<Rightarrow> Ok None
    | p # ps \<Rightarrow> Ok (Some (p, st\<lparr>pmem := (pmem st)(p := (\<lambda>_. 0)), avail := ps\<rparr>)))"

definition alloc_zero_page_low :: "u64 ptm" where
  "alloc_zero_page_low st = (case avail st of
      [] \<Rightarrow> Ok None
    | p # ps \<Rightarrow> Ok (Some (p, st\<lparr>pmem := (pmem st)(p := (\<lambda>_. 0)), avail := ps\<rparr>)))"

definition ensure_pdpt :: "u64 \<Rightarrow> nat \<Rightarrow> u64 ptm" where
  "ensure_pdpt pml4 pml4i st =
     (let e = pmem st pml4 pml4i in
      if e AND PTE_P = 0 then
        tbind (alloc_zero_page st) (\<lambda>pdpt st'. Ok (Some (pdpt, write_entry pml4 pml4i (pdpt OR PTE_P OR PTE_RW) st')))
      else Ok (Some (e AND ADDR_MASK, st)))"

definition ensure_pd :: "u64 \<Rightarrow> nat \<Rightarrow> u64 ptm" where
  "ensure_pd pdpt pdpti st =
     (let e = pmem st pdpt pdpti in
      if e AND PTE_P = 0 then
        tbind (alloc_zero_page st) (\<lambda>pd st'. Ok (Some (pd, write_entry pdpt pdpti (pd OR PTE_P OR PTE_RW) st')))
      else if e AND PTE_PS \<noteq> 0 then Ok None
      else Ok (Some (e AND ADDR_MASK, st)))"

definition ensure_pt :: "u64 \<Rightarrow> nat \<Rightarrow> u64 ptm" where
  "ensure_pt pd pdi st =
     (let e = pmem st pd pdi in
      if e AND PTE_P = 0 then
        tbind (alloc_zero_page st) (\<lambda>pt st'. Ok (Some (pt, write_entry pd pdi (pt OR PTE_P OR PTE_RW) st')))
      else if e AND PTE_PS \<noteq> 0 then Ok None
      else Ok (Some (e AND ADDR_MASK, st)))"

section \<open>Mapping\<close>

definition map_4k_offset_page :: "u64 \<Rightarrow> int \<Rightarrow> u64 \<Rightarrow> unit ptm" where
  "map_4k_offset_page pml4 delta va st =
     tbind (ensure_pdpt pml4 (pml4_index va) st) (\<lambda>pdpt st1.
     tbind (ensure_pd pdpt (pdpt_index va) st1) (\<lambda>pd st2.
     tbind (ensure_pt pd (pd_index va) st2) (\<lambda>pt st3.
       let phys = word_of_int (uint va + delta) AND ADDR_MASK in
       Ok (Some ((), write_entry pt (pt_index va) (phys OR PTE_P OR PTE_RW) st3)))))"

function map_4k_offset_loop :: "bool \<Rightarrow> u64 \<Rightarrow> int \<Rightarrow> u64 \<Rightarrow> u64 \<Rightarrow> unit ptm" where
  "map_4k_offset_loop dbg pml4 delta e va st =
     (if va < e then
        tbind (map_4k_offset_page pml4 delta va st) (\<lambda>_ st'.
        rbind (u_add dbg va 0x1000) (\<lambda>va'.
          if va' \<le> va then Panic CounterWrapped else map_4k_offset_loop dbg pml4 delta e va' st'))
      else Ok (Some ((), st)))"
  by pat_completeness auto
termination
  by (relation "measure (\<lambda>(dbg, pml4, delta, e, va, st). 2 ^ 64 - unat va)")
    (auto simp del: power_numeral simp: not_le intro!: word_to_top_less)

definition map_4k_offset :: "bool \<Rightarrow> u64 \<Rightarrow> u64 \<Rightarrow> u64 \<Rightarrow> int \<Rightarrow> unit ptm" where
  "map_4k_offset dbg pml4 start_va end_va delta st =
     rbind (boot_align_up dbg end_va 0x1000) (\<lambda>e.
       map_4k_offset_loop dbg pml4 delta e (align_down start_va 0x1000) st)"

definition map_4k_ident :: "bool \<Rightarrow> u64 \<Rightarrow> u64 \<Rightarrow> u64 \<Rightarrow> unit ptm" where
  "map_4k_ident dbg pml4 start_va end_va st = map_4k_offset dbg pml4 start_va end_va 0 st"

definition map_4kib_page :: "u64 \<Rightarrow> u64 \<Rightarrow> u64 \<Rightarrow> unit ptm" where
  "map_4kib_page pml4 va phys st =
     tbind (ensure_pdpt pml4 (pml4_index va) st) (\<lambda>pdpt st1.
     tbind (ensure_pd pdpt (pdpt_index va) st1) (\<lambda>pd st2.
     tbind (ensure_pt pd (pd_index va) st2) (\<lambda>pt st3.
       if pmem st3 pt (pt_index va) AND PTE_P = 0
       then Ok (Some ((), write_entry pt (pt_index va) ((phys AND ADDR_MASK) OR PTE_P OR PTE_RW) st3))
       else Ok (Some ((), st3)))))"

section \<open>The higher-half direct map\<close>

text \<open>The three loops of \<open>map_hhdm_huge\<close>; each returns the address it stopped at.\<close>

definition hhdm_1g_page :: "u64 \<Rightarrow> u64 \<Rightarrow> u64 \<Rightarrow> unit ptm" where
  "hhdm_1g_page pml4 va phys st =
     tbind (ensure_pdpt pml4 (pml4_index va) st) (\<lambda>pdpt st1.
       if pmem st1 pdpt (pdpt_index va) AND PTE_P = 0
       then Ok (Some ((), write_entry pdpt (pdpt_index va) ((phys AND ADDR_MASK) OR PTE_P OR PTE_RW OR PTE_PS) st1))
       else Ok (Some ((), st1)))"

function hhdm_1g_loop :: "bool \<Rightarrow> u64 \<Rightarrow> u64 \<Rightarrow> u64 \<Rightarrow> u64 ptm" where
  "hhdm_1g_loop dbg pml4 phys_max phys st =
     (if phys < phys_max then
        rbind (u_sub dbg phys_max phys) (\<lambda>left.
          if 2 ^ 30 \<le> left \<and> is_aligned phys (2 ^ 30) then
            rbind (u_add dbg HHDM_BASE phys) (\<lambda>va.
              if is_aligned va (2 ^ 30) then
                tbind (hhdm_1g_page pml4 va phys st) (\<lambda>_ st'.
                rbind (u_add dbg phys (2 ^ 30)) (\<lambda>phys'.
                  if phys' \<le> phys then Panic CounterWrapped else hhdm_1g_loop dbg pml4 phys_max phys' st'))
              else Ok (Some (phys, st)))
          else Ok (Some (phys, st)))
      else Ok (Some (phys, st)))"
  by pat_completeness auto
termination
  by (relation "measure (\<lambda>(dbg, pml4, phys_max, phys, st). 2 ^ 64 - unat phys)")
    (auto simp del: power_numeral simp: not_le intro!: word_to_top_less)

definition hhdm_2m_page :: "u64 \<Rightarrow> u64 \<Rightarrow> u64 \<Rightarrow> unit ptm" where
  "hhdm_2m_page pml4 va phys st =
     tbind (ensure_pdpt pml4 (pml4_index va) st) (\<lambda>pdpt st1.
     tbind (ensure_pd pdpt (pdpt_index va) st1) (\<lambda>pd st2.
       if pmem st2 pd (pd_index va) AND PTE_P = 0
       then Ok (Some ((), write_entry pd (pd_index va) ((phys AND ADDR_MASK) OR PTE_P OR PTE_RW OR PTE_PS) st2))
       else Ok (Some ((), st2))))"

function hhdm_2m_loop :: "bool \<Rightarrow> u64 \<Rightarrow> u64 \<Rightarrow> u64 \<Rightarrow> u64 ptm" where
  "hhdm_2m_loop dbg pml4 phys_max phys st =
     (if phys < phys_max then
        rbind (u_sub dbg phys_max phys) (\<lambda>left.
          if 2 ^ 21 \<le> left \<and> is_aligned phys (2 ^ 21) then
            rbind (u_add dbg HHDM_BASE phys) (\<lambda>va.
              if is_aligned va (2 ^ 21) then
                tbind (hhdm_2m_page pml4 va phys st) (\<lambda>_ st'.
                rbind (u_add dbg phys (2 ^ 21)) (\<lambda>phys'.
                  if phys' \<le> phys then Panic CounterWrapped else hhdm_2m_loop dbg pml4 phys_max phys' st'))
              else Ok (Some (phys, st)))
          else Ok (Some (phys, st)))
      else Ok (Some (phys, st)))"
  by pat_completeness auto
termination
  by (relation "measure (\<lambda>(dbg, pml4, phys_max, phys, st). 2 ^ 64 - unat phys)")
    (auto simp del: power_numeral simp: not_le intro!: word_to_top_less)

function hhdm_4k_loop :: "bool \<Rightarrow> u64 \<Rightarrow> u64 \<Rightarrow> u64 \<Rightarrow> unit ptm" where
  "hhdm_4k_loop dbg pml4 phys_max phys st =
     (if phys < phys_max then
        rbind (u_add dbg HHDM_BASE phys) (\<lambda>va.
        tbind (map_4kib_page pml4 va phys st) (\<lambda>_ st'.
        rbind (u_add dbg phys 4096) (\<lambda>phys'.
          if phys' \<le> phys then Panic CounterWrapped else hhdm_4k_loop dbg pml4 phys_max phys' st')))
      else Ok (Some ((), st)))"
  by pat_completeness auto
termination
  by (relation "measure (\<lambda>(dbg, pml4, phys_max, phys, st). 2 ^ 64 - unat phys)")
    (auto simp del: power_numeral simp: not_le intro!: word_to_top_less)

definition map_hhdm_huge :: "bool \<Rightarrow> u64 \<Rightarrow> u64 \<Rightarrow> unit ptm" where
  "map_hhdm_huge dbg pml4 phys_max st =
     tbind (hhdm_1g_loop dbg pml4 phys_max 0 st) (\<lambda>phys1 st1.
     tbind (hhdm_2m_loop dbg pml4 phys_max phys1 st1) (\<lambda>phys2 st2.
       hhdm_4k_loop dbg pml4 phys_max phys2 st2))"

section \<open>The whole address space\<close>

function ident_loop :: "bool \<Rightarrow> u64 \<Rightarrow> u64 \<Rightarrow> u64 \<Rightarrow> u64 \<Rightarrow> u64 \<Rightarrow> unit ptm" where
  "ident_loop dbg pml4 min_vaddr max_vaddr ident_end va st =
     (if va < ident_end then
        rbind (u_add dbg va 0x1000) (\<lambda>va'.
          let overlap_kernel = (\<not> (va' \<le> min_vaddr \<or> max_vaddr \<le> va)) in
          tbind (if \<not> overlap_kernel then map_4kib_page pml4 va va st else Ok (Some ((), st))) (\<lambda>_ st'.
            if va' \<le> va then Panic CounterWrapped
            else ident_loop dbg pml4 min_vaddr max_vaddr ident_end va' st'))
      else Ok (Some ((), st)))"
  by pat_completeness auto
termination
  by (relation "measure (\<lambda>(dbg, pml4, mn, mx, e, va, st). 2 ^ 64 - unat va)")
    (auto simp del: power_numeral simp: not_le intro!: word_to_top_less)

declare map_4k_offset_loop.simps [simp del] hhdm_1g_loop.simps [simp del] hhdm_2m_loop.simps [simp del]
  hhdm_4k_loop.simps [simp del] ident_loop.simps [simp del]

definition build_pagetables_exec :: "bool \<Rightarrow> u64 \<Rightarrow> u64 \<Rightarrow> u64 \<Rightarrow> u64 \<Rightarrow> u64 \<Rightarrow> u64 ptm" where
  "build_pagetables_exec dbg load_base min_vaddr max_vaddr ident_bytes phys_max st0 =
     tbind (alloc_zero_page_low st0) (\<lambda>pml4 st.
       let first_2mib_end = 0x200000; delta = uint load_base - uint min_vaddr in
       tbind (if min_vaddr < first_2mib_end
              then map_4k_offset dbg pml4 min_vaddr (min max_vaddr first_2mib_end) delta st
              else Ok (Some ((), st))) (\<lambda>_ st.
       tbind (map_4k_offset dbg pml4 (max first_2mib_end min_vaddr) max_vaddr delta st) (\<lambda>_ st.
       tbind (if 0 < min min_vaddr first_2mib_end
              then map_4k_ident dbg pml4 0x1000 (min min_vaddr first_2mib_end) st
              else Ok (Some ((), st))) (\<lambda>_ st.
       tbind (if max_vaddr < first_2mib_end
              then map_4k_ident dbg pml4 max_vaddr first_2mib_end st
              else Ok (Some ((), st))) (\<lambda>_ st.
       rbind (boot_align_up dbg ident_bytes 0x1000) (\<lambda>ident_end.
       tbind (ident_loop dbg pml4 min_vaddr max_vaddr ident_end (max first_2mib_end 0) st) (\<lambda>_ st.
       rbind (boot_align_up dbg phys_max 0x1000) (\<lambda>pm.
       tbind (map_hhdm_huge dbg pml4 pm st) (\<lambda>_ st.
         Ok (Some (pml4, st)))))))))))"

end
