(* ===== verification/Boot_Loader.thy ===== *)
theory Boot_Loader
  imports Boot_Paging
begin

unbundle bit_operations_syntax

text \<open>
  The \<open>main\<close> of the boot loader (\<^verbatim>\<open>jotunboot/src/main.rs\<close>): the layout of the kernel image, copying
  its segments, the memory map for the kernel, the identity bound, and the hand-off record.

  The firmware and the ELF parser are parameters: the answers of the UEFI calls are the fields
  of \<open>UefiAnswers\<close> (\<open>None\<close> for a call that fails), the parsed file is \<open>ElfFile\<close>. Memory while the
  loader runs is a function from addresses to bytes.
\<close>

section \<open>Inputs\<close>

datatype UefiMemoryType =
    CONVENTIONAL
  | LOADER_CODE
  | LOADER_DATA
  | BOOT_SERVICES_CODE
  | BOOT_SERVICES_DATA
  | RUNTIME_SERVICES_CODE
  | RUNTIME_SERVICES_DATA
  | ACPI_RECLAIM
  | OtherMemory

record MemoryDescriptor =
  md_ty :: UefiMemoryType
  md_phys_start :: u64
  md_page_count :: u64
  md_att :: u64

datatype PixelFormat = Rgb | Bgr | Bitmask | BltOnly

record GopMode =
  gop_base :: u64
  gop_width :: u64
  gop_height :: u64
  gop_stride :: u64
  gop_format :: PixelFormat

datatype Guid = ACPI2_GUID | ACPI_GUID | OtherGuid

record ConfigEntry =
  ce_guid :: Guid
  ce_address :: u64

record ProgramHeader =
  ph_load :: bool
  ph_vaddr :: u64
  ph_memsz :: u64
  ph_filesz :: u64
  ph_offset :: u64
  ph_align :: u64

record ElfFile =
  elf_bytes :: "u8 list"
  elf_header_ok :: bool
  elf_phdrs :: "ProgramHeader list"
  elf_entry :: u64

record UefiAnswers =
  ua_raw_base :: "u64 option"
  ua_low32 :: "u64 option"
  ua_bi_page :: "u64 option"
  ua_tramp_page :: "u64 option"
  ua_stack :: "u64 option"
  ua_early_heap :: "u64 option"
  ua_map :: "MemoryDescriptor list"
  ua_memmap_pages :: "u64 option"
  ua_gop :: "GopMode option"
  ua_config :: "ConfigEntry list"
  ua_tables :: PtState

text \<open>\<open>unwrap_or_else(|e| die(..))\<close>.\<close>

definition must :: "'a option \<Rightarrow> 'a res" where
  "must x = (case x of Some v \<Rightarrow> Ok v | None \<Rightarrow> Panic Fatal)"

section \<open>Firmware tables\<close>

fun find_rsdp :: "ConfigEntry list \<Rightarrow> u64" where
  "find_rsdp [] = 0"
| "find_rsdp (e # es) =
     (if ce_guid e = ACPI2_GUID \<or> ce_guid e = ACPI_GUID then ce_address e else find_rsdp es)"

fun pixel_format_code :: "PixelFormat \<Rightarrow> u32" where
  "pixel_format_code Rgb = 0"
| "pixel_format_code Bgr = 1"
| "pixel_format_code Bitmask = 2"
| "pixel_format_code BltOnly = 3"

definition get_framebuffer :: "bool \<Rightarrow> GopMode option \<Rightarrow> Framebuffer res" where
  "get_framebuffer dbg gop =
     rbind (expect gop) (\<lambda>g.
     rbind (u_mul dbg (ucast (gop_stride g)) 4) (\<lambda>pitch.
       Ok \<lparr>fb_addr = gop_base g, fb_width = ucast (gop_width g), fb_height = ucast (gop_height g),
           fb_pitch = pitch, fb_bpp = 32, fb_pixel_format = pixel_format_code (gop_format g)\<rparr>))"

section \<open>The memory map\<close>

fun uefi_type_to_kernel :: "UefiMemoryType \<Rightarrow> u32" where
  "uefi_type_to_kernel CONVENTIONAL = 1"
| "uefi_type_to_kernel LOADER_CODE = 2"
| "uefi_type_to_kernel LOADER_DATA = 3"
| "uefi_type_to_kernel BOOT_SERVICES_CODE = 4"
| "uefi_type_to_kernel BOOT_SERVICES_DATA = 5"
| "uefi_type_to_kernel RUNTIME_SERVICES_CODE = 6"
| "uefi_type_to_kernel RUNTIME_SERVICES_DATA = 7"
| "uefi_type_to_kernel ACPI_RECLAIM = 8"
| "uefi_type_to_kernel OtherMemory = 0"

fun build_memory_regions_vec :: "bool \<Rightarrow> MemoryDescriptor list \<Rightarrow> MemoryRegion list res" where
  "build_memory_regions_vec dbg [] = Ok []"
| "build_memory_regions_vec dbg (d # ds) =
     rbind (u_mul dbg (md_page_count d) 4096) (\<lambda>len.
     rbind (build_memory_regions_vec dbg ds) (\<lambda>rs.
       Ok (\<lparr>phys_start = md_phys_start d, virt_start = 0, mr_len = len,
            mr_typ = uefi_type_to_kernel (md_ty d), mr_attr = md_att d\<rparr> # rs)))"

definition phys_max_of :: "MemoryRegion list \<Rightarrow> u64" where
  "phys_max_of regions = fold (\<lambda>r m. max m (saturating_add (phys_start r) (mr_len r))) regions 0"

section \<open>The kernel image\<close>

fun layout_loop :: "bool \<Rightarrow> ProgramHeader list \<Rightarrow> u64 \<times> u64 \<times> u64 \<Rightarrow> (u64 \<times> u64 \<times> u64) res" where
  "layout_loop dbg [] acc = Ok acc"
| "layout_loop dbg (ph # phs) (mn, mx, al) =
     (if \<not> ph_load ph \<or> ph_memsz ph = 0 then layout_loop dbg phs (mn, mx, al)
      else rbind (u_add dbg (ph_vaddr ph) (ph_memsz ph)) (\<lambda>t.
           rbind (boot_align_up dbg t 0x1000) (\<lambda>e.
             layout_loop dbg phs (min mn (ph_vaddr ph), max mx e, max al (max (ph_align ph) 0x1000)))))"

definition layout_loads :: "bool \<Rightarrow> ProgramHeader list \<Rightarrow> (u64 \<times> u64 \<times> u64) res" where
  "layout_loads dbg phs =
     rbind (layout_loop dbg phs (- 1, 0, 0)) (\<lambda>(mn, mx, al).
       if mn = - 1 then Panic Fatal else Ok (mn, mx, al))"

text \<open>The number of pages asked for, and where in the block the image goes.\<close>

definition image_pages :: "bool \<Rightarrow> u64 \<Rightarrow> u64 \<Rightarrow> u64 res" where
  "image_pages dbg total_size max_align =
     rbind (u_add dbg total_size max_align) (\<lambda>a.
     rbind (u_add dbg a 0x1000) (\<lambda>reserve.
     rbind (u_add dbg reserve 0xFFF) (\<lambda>b. Ok (b div 0x1000))))"

definition write_bytes :: "u64 \<Rightarrow> u8 \<Rightarrow> nat \<Rightarrow> (u64 \<Rightarrow> u8) \<Rightarrow> u64 \<Rightarrow> u8" where
  "write_bytes dst b n m a = (if unat (a - dst) < n then b else m a)"

definition copy_bytes :: "u64 \<Rightarrow> u8 list \<Rightarrow> (u64 \<Rightarrow> u8) \<Rightarrow> u64 \<Rightarrow> u8" where
  "copy_bytes dst bs m a = (if unat (a - dst) < length bs then bs ! unat (a - dst) else m a)"

definition copy_segment ::
  "bool \<Rightarrow> u64 \<Rightarrow> u64 \<Rightarrow> u8 list \<Rightarrow> ProgramHeader \<Rightarrow> (u64 \<Rightarrow> u8) \<Rightarrow> (u64 \<Rightarrow> u8) res" where
  "copy_segment dbg load_base mn elf ph m =
     (if \<not> ph_load ph \<or> ph_memsz ph = 0 then Ok m
      else
        rbind (u_sub dbg (ph_vaddr ph) mn) (\<lambda>rel.
        rbind (u_add dbg load_base rel) (\<lambda>dst.
        rbind (if 0 < ph_filesz ph then
                 rbind (u_add dbg (ph_offset ph) (ph_filesz ph)) (\<lambda>e.
                 rbind (slice elf (unat (ph_offset ph)) (unat e)) (\<lambda>src. Ok (copy_bytes dst src m)))
               else Ok m) (\<lambda>m1.
          Ok (if ph_filesz ph < ph_memsz ph
              then write_bytes (dst + ph_filesz ph) 0 (unat (ph_memsz ph - ph_filesz ph)) m1 else m1)))))"

fun copy_segments ::
  "bool \<Rightarrow> u64 \<Rightarrow> u64 \<Rightarrow> u8 list \<Rightarrow> ProgramHeader list \<Rightarrow> (u64 \<Rightarrow> u8) \<Rightarrow> (u64 \<Rightarrow> u8) res" where
  "copy_segments dbg load_base mn elf [] m = Ok m"
| "copy_segments dbg load_base mn elf (ph # phs) m =
     rbind (copy_segment dbg load_base mn elf ph m) (copy_segments dbg load_base mn elf phs)"

section \<open>The hand-off\<close>

definition list_max :: "u64 list \<Rightarrow> u64" where
  "list_max xs = fold (\<lambda>x m. max m x) xs 0"

definition ident_hi_of :: "u64 list \<Rightarrow> u64" where
  "ident_hi_of ends =
     (let h = list_max ends;
          h1 = (if h < 2 ^ 30 then 2 ^ 30 else h)
      in max (max h1 (0xFEC00000 + 0x1000)) (0xFEE00000 + 0x1000))"

text \<open>\<^verbatim>\<open>cli; mov cr3, rdi; mov rsp, rsi; mov rdi, rcx; jmp rdx\<close>\<close>

definition TRAMP_CODE :: "u8 list" where
  "TRAMP_CODE = [0xFA, 0x0F, 0x22, 0xDF, 0x48, 0x89, 0xF4, 0x48, 0x89, 0xCF, 0xFF, 0xE2]"

record Handoff =
  ho_boot :: BootInfo
  ho_pml4 :: u64
  ho_tables :: PtState
  ho_stack :: u64
  ho_entry :: u64
  ho_mem :: "u64 \<Rightarrow> u8"

definition EARLY_HEAP_PAGES :: u64 where
  "EARLY_HEAP_PAGES = 0x4000"

text \<open>The ends of everything the identity map must cover.\<close>

definition ident_ends ::
  "bool \<Rightarrow> u64 \<Rightarrow> u64 \<Rightarrow> u64 \<Rightarrow> u64 \<Rightarrow> u64 \<Rightarrow> u64 \<Rightarrow> u64 \<Rightarrow> u64 \<Rightarrow> Framebuffer \<Rightarrow> u64 list res" where
  "ident_ends dbg tramp bi stack_top load_base image_len heap_end memmap map_pages fb =
     rbind (u_add dbg tramp 0x1000) (\<lambda>tramp_end.
     rbind (u_add dbg bi 0x1000) (\<lambda>bi_end.
     rbind (u_add dbg load_base image_len) (\<lambda>image_end.
     rbind (u_mul dbg map_pages 4096) (\<lambda>ml.
     rbind (u_add dbg memmap ml) (\<lambda>memmap_end.
     rbind (u_mul dbg (ucast (fb_pitch fb)) (ucast (fb_height fb))) (\<lambda>fl.
     rbind (u_add dbg (fb_addr fb) fl) (\<lambda>fb_end.
       Ok [tramp_end, bi_end, stack_top AND NOT 0xF, image_end, heap_end, memmap_end, fb_end])))))))"

definition load_image :: "bool \<Rightarrow> ElfFile \<Rightarrow> UefiAnswers \<Rightarrow> (u64 \<Rightarrow> u8) \<Rightarrow> (u64 \<times> u64 \<times> u64 \<times> (u64 \<Rightarrow> u8)) res" where
  "load_image dbg elf ua m0 =
     (if \<not> elf_header_ok elf then Panic Fatal
      else rbind (layout_loads dbg (elf_phdrs elf)) (\<lambda>(mn, mx, al).
        rbind (u_sub dbg mx mn) (\<lambda>image_len.
        rbind (image_pages dbg image_len al) (\<lambda>pages.
        rbind (must (ua_raw_base ua)) (\<lambda>raw_base.
        rbind (boot_align_up dbg raw_base al) (\<lambda>load_base.
        rbind (copy_segments dbg load_base mn (elf_bytes elf) (elf_phdrs elf) (write_bytes load_base 0 (unat image_len) m0)) (\<lambda>m1.
          Ok (mn, mx, load_base, m1))))))))"

definition prepare_handoff ::
  "bool \<Rightarrow> ElfFile \<Rightarrow> UefiAnswers \<Rightarrow> u64 \<Rightarrow> u64 \<Rightarrow> u64 \<Rightarrow> (u64 \<Rightarrow> u8) \<Rightarrow> Handoff res" where
  "prepare_handoff dbg elf ua mn mx load_base m1 =
     rbind (must (ua_low32 ua)) (\<lambda>low32.
     rbind (must (ua_bi_page ua)) (\<lambda>bi.
     rbind (must (ua_tramp_page ua)) (\<lambda>tramp.
     rbind (must (ua_stack ua)) (\<lambda>stack_base.
     rbind (u_add dbg stack_base (16 * 4096)) (\<lambda>stack_top.
     rbind (must (ua_early_heap ua)) (\<lambda>early_heap.
     rbind (build_memory_regions_vec dbg (ua_map ua)) (\<lambda>regions.
     rbind (u_mul dbg 40 (of_nat (length regions))) (\<lambda>map_bytes.
     rbind (u_add dbg map_bytes 0xFFF) (\<lambda>mb.
     rbind (must (ua_memmap_pages ua)) (\<lambda>memmap.
     rbind (get_framebuffer dbg (ua_gop ua)) (\<lambda>fb.
     rbind (u_sub dbg mx mn) (\<lambda>image_len.
     rbind (u_add dbg early_heap (EARLY_HEAP_PAGES * 4096)) (\<lambda>heap_end.
     rbind (ident_ends dbg tramp bi stack_top load_base image_len heap_end memmap (mb div 0x1000) fb) (\<lambda>ends.
     rbind (build_pagetables_exec dbg load_base mn mx (ident_hi_of ends) (phys_max_of regions) (ua_tables ua)) (\<lambda>pt.
     rbind (must pt) (\<lambda>(pml4, tables).
       Ok \<lparr>ho_boot = \<lparr>rsdp_addr = find_rsdp (ua_config ua), memory_map = regions, framebuffer = fb,
             kernel_phys_base = load_base, kernel_virt_base = mn,
             early_heap_paddr = early_heap, early_heap_len = EARLY_HEAP_PAGES * 4096, hhdm_base = HHDM_BASE,
             low32_pool_paddr = low32, low32_pool_len = 512 * 4096\<rparr>,
           ho_pml4 = pml4, ho_tables = tables, ho_stack = (stack_top AND NOT 0xF) - 8, ho_entry = elf_entry elf,
           ho_mem = copy_bytes tramp TRAMP_CODE m1\<rparr>))))))))))))))))"

definition loader_main :: "bool \<Rightarrow> ElfFile \<Rightarrow> UefiAnswers \<Rightarrow> (u64 \<Rightarrow> u8) \<Rightarrow> Handoff res" where
  "loader_main dbg elf ua m0 =
     rbind (load_image dbg elf ua m0) (\<lambda>(mn, mx, load_base, m1). prepare_handoff dbg elf ua mn mx load_base m1)"

end
