(* ===== verification/Page_Walk.thy ===== *)
theory Page_Walk
  imports Boot_Paging
begin

unbundle bit_operations_syntax

text \<open>
  The meaning of the loader's page tables: the hardware's four-level walk, the invariant that
  the tables form a tree of distinct zero-initialised pages, and what one write to an entry
  does to the walk of every address.
\<close>

section \<open>Entries\<close>

abbreviation present :: "u64 \<Rightarrow> bool" where
  "present e \<equiv> e AND PTE_P \<noteq> 0"

abbreviation huge :: "u64 \<Rightarrow> bool" where
  "huge e \<equiv> e AND PTE_PS \<noteq> 0"

lemma ADDR_MASK_bit: "bit ADDR_MASK n \<longleftrightarrow> 12 \<le> n \<and> n < 52"
proof -
  have eq: "ADDR_MASK = mask 52 AND NOT (mask 12)"
    by (simp add: ADDR_MASK_def mask_eq_exp_minus_1)
  show ?thesis
    unfolding eq by (auto simp: bit_simps)
qed

lemma entry_fields:
  assumes "m AND ADDR_MASK = m"
  shows "present (m OR PTE_P OR PTE_RW)" "present (m OR PTE_P OR PTE_RW OR PTE_PS)"
    and "\<not> huge (m OR PTE_P OR PTE_RW)" "huge (m OR PTE_P OR PTE_RW OR PTE_PS)"
    and "(m OR PTE_P OR PTE_RW) AND ADDR_MASK = m" "(m OR PTE_P OR PTE_RW OR PTE_PS) AND ADDR_MASK = m"
proof -
  have m: "bit m n \<Longrightarrow> 12 \<le> n" for n
    using assms by (metis ADDR_MASK_bit bit_and_iff)
  have P: "bit PTE_P n \<longleftrightarrow> n = 0" "bit PTE_RW n \<longleftrightarrow> n = 1" "bit PTE_PS n \<longleftrightarrow> n = 7" for n
    using bit_exp_iff [of 0 n, where 'a = u64] bit_exp_iff [of 1 n, where 'a = u64]
      bit_exp_iff [of 7 n, where 'a = u64]
    by (auto simp: PTE_P_def PTE_RW_def PTE_PS_def dest: bit_imp_le_length)
  have zero: "e AND f = 0 \<longleftrightarrow> (\<forall>n. \<not> (bit e n \<and> bit f n))" for e f :: u64
    using bit_imp_le_length [of e] by (fastforce simp: bit_eq_iff bit_simps)
  show "present (m OR PTE_P OR PTE_RW)" "present (m OR PTE_P OR PTE_RW OR PTE_PS)"
    "\<not> huge (m OR PTE_P OR PTE_RW)" "huge (m OR PTE_P OR PTE_RW OR PTE_PS)"
    using m by (auto simp: zero bit_simps P dest: m)
  show "(m OR PTE_P OR PTE_RW) AND ADDR_MASK = m" "(m OR PTE_P OR PTE_RW OR PTE_PS) AND ADDR_MASK = m"
    by (simp_all add: bit.conj_disj_distrib2 assms) (simp_all add: PTE_P_def PTE_RW_def PTE_PS_def ADDR_MASK_def)
qed

lemma mask_idem [simp]: "(x AND ADDR_MASK) AND ADDR_MASK = x AND ADDR_MASK"
  by (simp add: and.assoc)

lemma table_addr_mask:
  assumes "page_aligned t" "unat t < 2 ^ 52"
  shows "t AND ADDR_MASK = t"
proof -
  have "t AND NOT (mask 12) = t"
    using align_down_id [OF assms(1)] by (simp add: align_down_def mask_eq_exp_minus_1)
  moreover have "take_bit 52 t = t"
    using assms(2) by (simp add: word_unat_eq_iff unat_take_bit)
  moreover have "t AND ADDR_MASK = take_bit 52 t AND NOT (mask 12)"
    by (rule bit_eqI) (auto simp: bit_simps ADDR_MASK_bit)
  ultimately show ?thesis
    by simp
qed

lemma zero_entry [simp]: "\<not> present 0"
  by simp

section \<open>Walks\<close>

text \<open>The table a path of indices leads to, through present entries that are not huge pages.\<close>

fun follow :: "(u64 \<Rightarrow> nat \<Rightarrow> u64) \<Rightarrow> u64 \<Rightarrow> nat list \<Rightarrow> u64 option" where
  "follow mem t [] = Some t"
| "follow mem t (i # p) =
     (let e = mem t i in if present e \<and> \<not> huge e then follow mem (e AND ADDR_MASK) p else None)"

text \<open>
  The walk along a path: the entry it ends at, and how many indices are left over (0 for a 4 KiB
  page, 1 for 2 MiB, 2 for 1 GiB).
\<close>

fun leaf :: "(u64 \<Rightarrow> nat \<Rightarrow> u64) \<Rightarrow> u64 \<Rightarrow> nat list \<Rightarrow> (u64 \<times> nat) option" where
  "leaf mem t [] = None"
| "leaf mem t [i] = (if present (mem t i) then Some (mem t i, 0) else None)"
| "leaf mem t (i # j # p) =
     (let e = mem t i in
      if \<not> present e then None
      else if huge e then Some (e, Suc (length p))
      else leaf mem (e AND ADDR_MASK) (j # p))"

lemma follow_append:
  "follow mem t (p @ q) = (case follow mem t p of None \<Rightarrow> None | Some b \<Rightarrow> follow mem b q)"
  by (induction p arbitrary: t) (auto simp: Let_def)

lemma follow_snoc:
  "follow mem t (p @ [i]) = (case follow mem t p of None \<Rightarrow> None
    | Some b \<Rightarrow> if present (mem b i) \<and> \<not> huge (mem b i) then Some (mem b i AND ADDR_MASK) else None)"
  by (simp add: follow_append Let_def split: option.split)

lemma leaf_append:
  assumes "follow mem t p = Some b" "q \<noteq> []"
  shows "leaf mem t (p @ q) = leaf mem b q"
  using assms
proof (induction p arbitrary: t)
  case (Cons i p)
  then obtain j r where r: "p @ q = j # r"
    by (cases "p @ q") auto
  from Cons show ?case
    by (auto simp: Let_def r split: if_splits)
qed simp

lemma leaf_Cons: "q \<noteq> [] \<Longrightarrow> leaf mem t (i # q) =
    (if \<not> present (mem t i) then None
     else if huge (mem t i) then Some (mem t i, length q)
     else leaf mem (mem t i AND ADDR_MASK) q)"
  by (cases q) (auto simp: Let_def)

lemma leaf_zero: "mem t = (\<lambda>_. 0) \<Longrightarrow> leaf mem t r = None"
  by (cases "(mem, t, r)" rule: leaf.cases) simp_all

section \<open>The tree of tables\<close>

text \<open>
  Paths of at most three indices lead to distinct tables, which are pages of the 52-bit physical
  space and not among those the firmware still holds.
\<close>

definition tree_ok :: "u64 \<Rightarrow> PtState \<Rightarrow> bool" where
  "tree_ok c st \<longleftrightarrow>
     distinct (avail st) \<and> (\<forall>t \<in> set (avail st). page_aligned t \<and> unat t < 2 ^ 52) \<and>
     (\<forall>p b. length p \<le> 3 \<longrightarrow> follow (pmem st) c p = Some b \<longrightarrow>
        page_aligned b \<and> unat b < 2 ^ 52 \<and> b \<notin> set (avail st) \<and>
        (\<forall>q. length q \<le> 3 \<longrightarrow> follow (pmem st) c q = Some b \<longrightarrow> q = p)) \<and>
     (\<forall>i. \<not> huge (pmem st c i))"

lemma tree_okD:
  assumes "tree_ok c st" "length p \<le> 3" "follow (pmem st) c p = Some b"
  shows "page_aligned b" "unat b < 2 ^ 52" "b \<notin> set (avail st)"
    and "\<lbrakk>length q \<le> 3; follow (pmem st) c q = Some b\<rbrakk> \<Longrightarrow> q = p"
  using assms unfolding tree_ok_def by blast+

text \<open>One entry changes: nothing changes for a path that does not go through it.\<close>

lemma follow_write_other:
  assumes "tree_ok c st" "length p \<le> 3" "follow (pmem st) c p = Some b"
    and "length q \<le> 3" "\<not> prefix (p @ [i]) q"
  shows "follow (pmem (write_entry b i e st)) c q = follow (pmem st) c q"
  using assms(4,5)
proof (induction q rule: rev_induct)
  case (snoc j q)
  then have IH: "follow (pmem (write_entry b i e st)) c q = follow (pmem st) c q"
    by (simp add: prefix_snoc)
  have "pmem (write_entry b i e st) b' j = pmem st b' j" if "follow (pmem st) c q = Some b'" for b'
  proof (cases "b' = b")
    case True
    then have "q = p"
      using tree_okD(4) [OF assms(1-3)] snoc.prems(1) that by simp
    then show ?thesis
      using snoc.prems(2) by (auto simp: write_entry_def)
  qed (simp add: write_entry_def)
  then show ?case
    by (auto simp: follow_snoc IH split: option.split)
qed simp

lemma leaf_write_other:
  assumes tree: "tree_ok c st" and p: "length p \<le> 3" "follow (pmem st) c p = Some b"
    and u: "follow (pmem st) c u = Some b'" "length (u @ r) = 4" "\<not> prefix (p @ [i]) (u @ r)"
  shows "leaf (pmem (write_entry b i e st)) b' r = leaf (pmem st) b' r"
  using u
proof (induction r arbitrary: u b')
  case (Cons j r)
  have same: "pmem (write_entry b i e st) b' j = pmem st b' j"
  proof (cases "b' = b")
    case True
    then have "u = p"
      using tree_okD(4) [OF tree p] Cons.prems(1,2) by simp
    then show ?thesis
      using Cons.prems(3) by (auto simp: write_entry_def)
  qed (simp add: write_entry_def)
  show ?case
  proof (cases "r = []")
    case True
    then show ?thesis by (simp add: same)
  next
    case False
    have "leaf (pmem (write_entry b i e st)) (pmem st b' j AND ADDR_MASK) r =
        leaf (pmem st) (pmem st b' j AND ADDR_MASK) r"
      if "present (pmem st b' j)" "\<not> huge (pmem st b' j)"
      using Cons.IH [of "u @ [j]"] Cons.prems that by (simp add: follow_snoc)
    then show ?thesis
      by (simp add: leaf_Cons [OF False] same)
  qed
qed simp

lemma leaf_write_other_path:
  assumes "tree_ok c st" "length p \<le> 3" "follow (pmem st) c p = Some b"
    and "length w = 4" "\<not> prefix (p @ [i]) w"
  shows "leaf (pmem (write_entry b i e st)) c w = leaf (pmem st) c w"
  using leaf_write_other [OF assms(1-3), of "[]" c w i e] assms(4,5) by simp

lemma write_entry_simps [simp]:
  "avail (write_entry b i e st) = avail st"
  "pmem (write_entry b i e st) b i = e"
  "b' \<noteq> b \<Longrightarrow> pmem (write_entry b i e st) b' = pmem st b'"
  by (simp_all add: write_entry_def)

lemma root_not_below:
  assumes "tree_ok c st" "length p \<le> 3" "follow (pmem st) c p = Some b" "p \<noteq> []"
  shows "b \<noteq> c"
  using tree_okD(4) [OF assms(1-3), of "[]"] assms(4) by auto

lemma follow_write_self:
  assumes "tree_ok c st" "length p \<le> 3" "follow (pmem st) c p = Some b"
  shows "follow (pmem (write_entry b i e st)) c p = Some b"
  using follow_write_other [OF assms assms(2)] assms(3) by auto

text \<open>A page is installed: at the last level, or as a huge page in an entry that was absent.\<close>

lemma follow_install:
  assumes tree: "tree_ok c st" and p: "length p \<le> 3" "follow (pmem st) c p = Some b"
    and e: "length p = 3 \<or> huge e \<and> \<not> present (pmem st b i)" and q: "length q \<le> 3"
  shows "follow (pmem (write_entry b i e st)) c q = follow (pmem st) c q"
proof (cases "prefix (p @ [i]) q")
  case False
  then show ?thesis by (rule follow_write_other [OF tree p q])
next
  case True
  then obtain r where r: "q = (p @ [i]) @ r"
    by (auto simp: prefix_def)
  with e q have "huge e" "\<not> present (pmem st b i)"
    by auto
  then show ?thesis
    unfolding r follow_append [of _ _ "p @ [i]"] follow_snoc follow_write_self [OF tree p] p(2) by simp
qed

lemma tree_ok_install:
  assumes tree: "tree_ok c st" and p: "length p \<le> 3" "p \<noteq> []" "follow (pmem st) c p = Some b"
    and e: "length p = 3 \<or> huge e \<and> \<not> present (pmem st b i)"
  shows "tree_ok c (write_entry b i e st)"
  using tree root_not_below [OF tree p(1,3,2)] unfolding tree_ok_def
  by (simp add: follow_install [OF tree p(1,3) e])

lemma leaf_install:
  assumes tree: "tree_ok c st" and p: "length p \<le> 3" "follow (pmem st) c p = Some b"
    and e: "present e" "length p = 3 \<or> huge e" and w: "length w = 4"
  shows "leaf (pmem (write_entry b i e st)) c w =
    (if prefix (p @ [i]) w then Some (e, 3 - length p) else leaf (pmem st) c w)"
proof (cases "prefix (p @ [i]) w")
  case True
  then obtain r where r: "w = p @ i # r"
    by (auto simp: prefix_def)
  have "leaf (pmem (write_entry b i e st)) c w = leaf (pmem (write_entry b i e st)) b (i # r)"
    unfolding r by (rule leaf_append [OF follow_write_self [OF tree p]]) simp
  then show ?thesis
    using True e r w by (cases r) (auto simp: Let_def)
qed (simp add: leaf_write_other_path [OF tree p w])

text \<open>A fresh page of the firmware is cleared, then hung into an absent entry.\<close>

definition fresh :: "PtState \<Rightarrow> PtState" where
  "fresh st = st\<lparr>pmem := (pmem st)(hd (avail st) := (\<lambda>_. 0)), avail := tl (avail st)\<rparr>"

lemma follow_fresh:
  assumes "tree_ok c st" "avail st \<noteq> []" "length q \<le> 3"
  shows "follow (pmem (fresh st)) c q = follow (pmem st) c q"
  using assms(3)
proof (induction q rule: rev_induct)
  case (snoc j q)
  have "b \<noteq> hd (avail st)" if "follow (pmem st) c q = Some b" for b
    using tree_okD(3) [OF assms(1) _ that] assms(2) snoc.prems by (metis hd_in_set length_append_singleton Suc_leD)
  then show ?case
    using snoc by (auto simp: follow_snoc fresh_def split: option.split)
qed simp

lemma leaf_fresh:
  assumes "tree_ok c st" "avail st \<noteq> []"
    and "follow (pmem st) c u = Some b" "length (u @ r) = 4"
  shows "leaf (pmem (fresh st)) b r = leaf (pmem st) b r"
  using assms(3,4)
proof (induction r arbitrary: u b)
  case (Cons j r)
  have "b \<noteq> hd (avail st)"
    using tree_okD(3) [OF assms(1) _ Cons.prems(1)] assms(2) Cons.prems(2) by auto
  then have same: "pmem (fresh st) b j = pmem st b j"
    by (simp add: fresh_def)
  show ?case
  proof (cases "r = []")
    case False
    have "leaf (pmem (fresh st)) (pmem st b j AND ADDR_MASK) r = leaf (pmem st) (pmem st b j AND ADDR_MASK) r"
      if "present (pmem st b j)" "\<not> huge (pmem st b j)"
      using Cons.IH [of "u @ [j]"] Cons.prems that by (simp add: follow_snoc)
    then show ?thesis
      by (simp add: leaf_Cons [OF False] same)
  qed (simp add: same)
qed simp

lemma tree_ok_fresh:
  assumes "tree_ok c st" "avail st \<noteq> []"
  shows "tree_ok c (fresh st)"
proof -
  have tl: "distinct (tl (avail st))" "set (tl (avail st)) \<subseteq> set (avail st)"
    using assms by (auto simp: tree_ok_def distinct_tl dest: list.set_sel(2))
  have "c \<noteq> hd (avail st)"
    using tree_okD(3) [OF assms(1), of "[]" c] assms(2) by auto
  then have "\<not> huge (pmem (fresh st) c i)" for i
    using assms(1) by (simp add: fresh_def tree_ok_def)
  then show ?thesis
    using assms(1) tl follow_fresh [OF assms] unfolding tree_ok_def by (auto simp: fresh_def)
qed

definition hang :: "u64 \<Rightarrow> nat \<Rightarrow> PtState \<Rightarrow> PtState" where
  "hang b i st = write_entry b i (hd (avail st) OR PTE_P OR PTE_RW) (fresh st)"

lemma fresh_entry:
  assumes "tree_ok c st" "avail st \<noteq> []"
  defines "t \<equiv> hd (avail st)"
  shows "present (t OR PTE_P OR PTE_RW)" "\<not> huge (t OR PTE_P OR PTE_RW)" "(t OR PTE_P OR PTE_RW) AND ADDR_MASK = t"
    and "page_aligned t" "unat t < 2 ^ 52" "t \<notin> set (tl (avail st))"
    and "\<lbrakk>length q \<le> 3; follow (pmem st) c q = Some b\<rbrakk> \<Longrightarrow> b \<noteq> t"
proof -
  have t: "t \<in> set (avail st)" "t \<notin> set (tl (avail st))"
    using assms(1,2) by (cases "avail st"; simp add: t_def tree_ok_def)+
  then show "page_aligned t" "unat t < 2 ^ 52" "t \<notin> set (tl (avail st))"
    using assms(1) by (auto simp: tree_ok_def)
  then show "present (t OR PTE_P OR PTE_RW)" "\<not> huge (t OR PTE_P OR PTE_RW)"
    "(t OR PTE_P OR PTE_RW) AND ADDR_MASK = t"
    using entry_fields(1,3,5) [OF table_addr_mask] by blast+
  show "\<lbrakk>length q \<le> 3; follow (pmem st) c q = Some b\<rbrakk> \<Longrightarrow> b \<noteq> t"
    using tree_okD(3) [OF assms(1)] t(1) by blast
qed

lemma follow_hang:
  assumes tree: "tree_ok c st" and av: "avail st \<noteq> []"
    and p: "length p < 3" "follow (pmem st) c p = Some b" and absent: "\<not> present (pmem st b i)"
    and q: "length q \<le> 3"
  shows "follow (pmem (hang b i st)) c q = (if q = p @ [i] then Some (hd (avail st)) else follow (pmem st) c q)"
proof -
  let ?t = "hd (avail st)"
  note tree' = tree_ok_fresh [OF tree av] and e = fresh_entry [OF tree av]
  have p': "length p \<le> 3" "follow (pmem (fresh st)) c p = Some b"
    using p follow_fresh [OF tree av] by simp_all
  have bt: "b \<noteq> ?t"
    using e(7) [of p] p by simp
  show ?thesis
  proof (cases "prefix (p @ [i]) q")
    case False
    then have "q \<noteq> p @ [i]"
      by auto
    then show ?thesis
      using follow_write_other [OF tree' p' q False] follow_fresh [OF tree av q] by (simp add: hang_def)
  next
    case True
    then obtain r where r: "q = (p @ [i]) @ r"
      by (auto simp: prefix_def)
    have new: "follow (pmem (hang b i st)) c (p @ [i]) = Some ?t"
      using follow_write_self [OF tree' p'] e(1-3) by (simp add: follow_snoc hang_def)
    have old: "follow (pmem st) c (p @ [i]) = None"
      using p(2) absent by (simp add: follow_snoc)
    have "pmem (hang b i st) ?t = (\<lambda>_. 0)"
      using bt by (simp add: hang_def fresh_def)
    then have "follow (pmem (hang b i st)) ?t r = None" if "r \<noteq> []"
      using that by (cases r) simp_all
    then show ?thesis
      unfolding r follow_append [of _ _ "p @ [i]"] new old by (cases "r = []") simp_all
  qed
qed

lemma leaf_hang:
  assumes tree: "tree_ok c st" and av: "avail st \<noteq> []"
    and p: "length p < 3" "follow (pmem st) c p = Some b" and absent: "\<not> present (pmem st b i)"
    and w: "length w = 4"
  shows "leaf (pmem (hang b i st)) c w = leaf (pmem st) c w"
proof -
  let ?t = "hd (avail st)"
  note tree' = tree_ok_fresh [OF tree av] and e = fresh_entry [OF tree av]
  have p': "length p \<le> 3" "follow (pmem (fresh st)) c p = Some b"
    using p follow_fresh [OF tree av] by simp_all
  have bt: "b \<noteq> ?t"
    using e(7) [of p] p by simp
  show ?thesis
  proof (cases "prefix (p @ [i]) w")
    case False
    then show ?thesis
      using leaf_write_other_path [OF tree' p' w False] leaf_fresh [OF tree av, of "[]" c w] w
      by (simp add: hang_def)
  next
    case True
    then obtain r where r: "w = p @ i # r"
      by (auto simp: prefix_def)
    then have "r \<noteq> []"
      using w p by auto
    have "leaf (pmem (hang b i st)) c w = leaf (pmem (hang b i st)) b (i # r)"
      unfolding r using follow_write_self [OF tree' p'] by (intro leaf_append) (simp_all add: hang_def)
    also have "\<dots> = leaf (pmem (hang b i st)) ?t r"
      using e(1-3) \<open>r \<noteq> []\<close> by (simp add: leaf_Cons hang_def)
    also have "\<dots> = None"
      using bt by (intro leaf_zero) (simp add: hang_def fresh_def)
    also have "None = leaf (pmem st) c w"
      unfolding r using leaf_append [OF p(2), of "i # r"] absent \<open>r \<noteq> []\<close> by (simp add: leaf_Cons)
    finally show ?thesis .
  qed
qed

lemma tree_ok_hang:
  assumes tree: "tree_ok c st" and av: "avail st \<noteq> []"
    and p: "length p < 3" "follow (pmem st) c p = Some b" and absent: "\<not> present (pmem st b i)"
  shows "tree_ok c (hang b i st)"
proof -
  let ?t = "hd (avail st)"
  note e = fresh_entry [OF tree av] and f = follow_hang [OF tree av p absent]
  have "\<not> huge (pmem (hang b i st) c j)" for j
    using tree_ok_fresh [OF tree av] e(2) by (auto simp: hang_def write_entry_def tree_ok_def)
  moreover have "page_aligned b' \<and> unat b' < 2 ^ 52 \<and> b' \<notin> set (tl (avail st)) \<and>
      (\<forall>q'. length q' \<le> 3 \<longrightarrow> follow (pmem (hang b i st)) c q' = Some b' \<longrightarrow> q' = q)"
    if q: "length q \<le> 3" "follow (pmem (hang b i st)) c q = Some b'" for q b'
  proof (cases "q = p @ [i]")
    case True
    then show ?thesis
      using q f e(4-7) by (auto split: if_splits)
  next
    case False
    then have old: "follow (pmem st) c q = Some b'"
      using q f by simp
    then have "b' \<noteq> ?t"
      using e(7) q(1) by blast
    then show ?thesis
      using tree_okD [OF tree q(1) old] f av by (auto dest: list.set_sel(2) split: if_splits)
  qed
  moreover have "avail (hang b i st) = tl (avail st)"
    by (simp add: hang_def fresh_def)
  ultimately show ?thesis
    using tree_ok_fresh [OF tree av] unfolding tree_ok_def by (simp add: fresh_def)
qed

section \<open>Tables on demand\<close>

text \<open>
  What an \<open>ensure\<close> step guarantees: the table at the path exists, at most one page was taken from
  the firmware, no other table appeared and no translation changed.
\<close>

definition ensured :: "u64 \<Rightarrow> nat list \<Rightarrow> PtState \<Rightarrow> u64 \<Rightarrow> PtState \<Rightarrow> bool" where
  "ensured c p st t st' \<longleftrightarrow>
     tree_ok c st' \<and> follow (pmem st') c p = Some t \<and>
     (\<forall>w. length w = 4 \<longrightarrow> leaf (pmem st') c w = leaf (pmem st) c w) \<and>
     (\<forall>q. length q \<le> 3 \<longrightarrow> follow (pmem st') c q = follow (pmem st) c q \<or>
        q = p \<and> follow (pmem st) c q = None) \<and>
     length (avail st) \<le> Suc (length (avail st'))"

definition ensure_next :: "u64 \<Rightarrow> nat \<Rightarrow> u64 ptm" where
  "ensure_next b i st =
     (if present (pmem st b i) then Ok (Some (pmem st b i AND ADDR_MASK, st))
      else if avail st = [] then Ok None
      else Ok (Some (hd (avail st), hang b i st)))"

lemma alloc_zero_page_eq:
  "alloc_zero_page st = (if avail st = [] then Ok None else Ok (Some (hd (avail st), fresh st)))"
  by (cases "avail st") (simp_all add: alloc_zero_page_def fresh_def)

lemma ensure_eq:
  "ensure_pdpt b i st = ensure_next b i st"
  "\<not> (present (pmem st b i) \<and> huge (pmem st b i)) \<Longrightarrow> ensure_pd b i st = ensure_next b i st"
  "\<not> (present (pmem st b i) \<and> huge (pmem st b i)) \<Longrightarrow> ensure_pt b i st = ensure_next b i st"
  by (auto simp: ensure_pdpt_def ensure_pd_def ensure_pt_def ensure_next_def alloc_zero_page_eq tbind_def
      hang_def Let_def)

lemma ensure_next_ok:
  assumes tree: "tree_ok c st" and p: "length p < 3" "follow (pmem st) c p = Some b"
    and ps: "\<not> (present (pmem st b i) \<and> huge (pmem st b i))" and av: "avail st \<noteq> []"
  obtains t st' where "ensure_next b i st = Ok (Some (t, st'))" "ensured c (p @ [i]) st t st'"
proof (cases "present (pmem st b i)")
  case True
  then have "ensured c (p @ [i]) st (pmem st b i AND ADDR_MASK) st"
    using tree p ps by (auto simp: ensured_def follow_snoc)
  then show thesis
    using that True by (simp add: ensure_next_def)
next
  case False
  note h = follow_hang [OF tree av p False] leaf_hang [OF tree av p False] tree_ok_hang [OF tree av p False]
  have "follow (pmem st) c (p @ [i]) = None"
    using p(2) False by (simp add: follow_snoc)
  then have "ensured c (p @ [i]) st (hd (avail st)) (hang b i st)"
    using h p(1) av by (simp add: ensured_def hang_def fresh_def)
  then show thesis
    using that False av by (simp add: ensure_next_def)
qed

text \<open>The three tables above a path of four indices that does not run into a huge page.\<close>

definition flat :: "u64 \<Rightarrow> PtState \<Rightarrow> nat list \<Rightarrow> bool" where
  "flat c st w = (case leaf (pmem st) c w of Some (e, n) \<Rightarrow> n = 0 | None \<Rightarrow> True)"

lemma flat_entry:
  assumes "follow (pmem st) c p = Some b" "r \<noteq> []" "flat c st (p @ i # r)"
  shows "\<not> (present (pmem st b i) \<and> huge (pmem st b i))"
  using assms(3) leaf_append [OF assms(1), of "i # r"] assms(2) by (auto simp: flat_def leaf_Cons split: if_splits)

lemma ensured_flat: "ensured c p st t st' \<Longrightarrow> length w = 4 \<Longrightarrow> flat c st' w = flat c st w"
  by (simp add: ensured_def flat_def)

definition tables_for :: "u64 \<Rightarrow> nat list \<Rightarrow> nat \<Rightarrow> PtState \<Rightarrow> u64 \<Rightarrow> PtState \<Rightarrow> bool" where
  "tables_for c p n st t st' \<longleftrightarrow>
     tree_ok c st' \<and> follow (pmem st') c p = Some t \<and>
     (\<forall>w. length w = 4 \<longrightarrow> leaf (pmem st') c w = leaf (pmem st) c w) \<and>
     (\<forall>q. length q \<le> 3 \<longrightarrow> follow (pmem st') c q = follow (pmem st) c q \<or> prefix q p \<and> q \<noteq> []) \<and>
     length (avail st) \<le> n + length (avail st')"

lemma tables_for_refl: "\<lbrakk>tree_ok c st; follow (pmem st) c p = Some t\<rbrakk> \<Longrightarrow> tables_for c p 0 st t st"
  by (simp add: tables_for_def)

lemma tables_for_step:
  assumes "tables_for c p n st t st'" "ensured c (p @ [i]) st' t' st''"
  shows "tables_for c (p @ [i]) (Suc n) st t' st''"
proof -
  have "follow (pmem st'') c q = follow (pmem st) c q \<or> prefix q (p @ [i]) \<and> q \<noteq> []" if "length q \<le> 3" for q
    using assms that unfolding tables_for_def ensured_def by (metis append_is_Nil_conv not_Cons_self2 prefix_order.refl prefix_snoc)
  then show ?thesis
    using assms unfolding tables_for_def ensured_def by auto
qed

lemma tables_for_ensure:
  assumes tf: "tables_for c p n st t st'" and p: "length p < 3" and w: "length (p @ i # r) = 4"
    and flat: "flat c st (p @ i # r)" and av: "n < length (avail st)"
  obtains t' st'' where "ensure_next t i st' = Ok (Some (t', st''))" "tables_for c (p @ [i]) (Suc n) st t' st''"
    and "\<not> (present (pmem st' t i) \<and> huge (pmem st' t i))"
proof -
  have tree: "tree_ok c st'" and t: "follow (pmem st') c p = Some t"
    and flat': "flat c st' (p @ i # r)" and av': "avail st' \<noteq> []"
    using tf flat w av by (auto simp: tables_for_def flat_def)
  have "r \<noteq> []"
    using p w by auto
  from flat_entry [OF t this flat'] have ps: "\<not> (present (pmem st' t i) \<and> huge (pmem st' t i))" .
  obtain t' st'' where "ensure_next t i st' = Ok (Some (t', st''))" "ensured c (p @ [i]) st' t' st''"
    by (rule ensure_next_ok [OF tree p t ps av'])
  then show thesis
    using that tables_for_step [OF tf] ps by blast
qed

lemma walk_tables:
  assumes tree: "tree_ok c st" and flat: "flat c st [i4, i3, i2, i1]" and av: "3 \<le> length (avail st)"
  obtains t3 st1 t2 st2 t1 st3 where "ensure_pdpt c i4 st = Ok (Some (t3, st1))"
    and "ensure_pd t3 i3 st1 = Ok (Some (t2, st2))" and "ensure_pt t2 i2 st2 = Ok (Some (t1, st3))"
    and "tables_for c [i4, i3, i2] 3 st t1 st3"
proof -
  have av': "0 < length (avail st)" "Suc 0 < length (avail st)" "Suc (Suc 0) < length (avail st)"
    using av by linarith+
  have 0: "tables_for c [] 0 st c st"
    using tree by (intro tables_for_refl) simp_all
  obtain t3 st1 where 1: "ensure_next c i4 st = Ok (Some (t3, st1))" "tables_for c [i4] (Suc 0) st t3 st1"
    by (rule tables_for_ensure [OF 0, of i4 "[i3, i2, i1]"]) (use flat av' that in simp_all)
  obtain t2 st2 where 2: "ensure_next t3 i3 st1 = Ok (Some (t2, st2))" "tables_for c [i4, i3] (Suc (Suc 0)) st t2 st2"
    "\<not> (present (pmem st1 t3 i3) \<and> huge (pmem st1 t3 i3))"
    by (rule tables_for_ensure [OF 1(2), of i3 "[i2, i1]"]) (use flat av' that in simp_all)
  obtain t1 st3 where 3: "ensure_next t2 i2 st2 = Ok (Some (t1, st3))"
    "tables_for c [i4, i3, i2] (Suc (Suc (Suc 0))) st t1 st3" "\<not> (present (pmem st2 t2 i2) \<and> huge (pmem st2 t2 i2))"
    by (rule tables_for_ensure [OF 2(2), of i2 "[i1]"]) (use flat av' that in simp_all)
  show thesis
    by (rule that [of t3 st1 t2 st2 t1 st3]) (use 1 2 3 in \<open>simp_all add: ensure_eq numeral_3_eq_3\<close>)
qed

text \<open>
  Between operations every table leads to some page, so an entry above an unmapped range is absent.
\<close>

abbreviation indices :: "nat list \<Rightarrow> bool" where
  "indices p \<equiv> list_all (\<lambda>i. i < 512) p"

definition dense :: "u64 \<Rightarrow> PtState \<Rightarrow> bool" where
  "dense c st \<longleftrightarrow> (\<forall>q. q \<noteq> [] \<longrightarrow> length q \<le> 3 \<longrightarrow> follow (pmem st) c q \<noteq> None \<longrightarrow>
     (\<exists>r. length (q @ r) = 4 \<and> indices (q @ r) \<and> leaf (pmem st) c (q @ r) \<noteq> None))"

text \<open>The result of mapping the pages below a path: their entry, the rest unchanged.\<close>

definition installed :: "u64 \<Rightarrow> nat list \<Rightarrow> u64 \<Rightarrow> nat \<Rightarrow> PtState \<Rightarrow> PtState \<Rightarrow> bool" where
  "installed c p e n st st' \<longleftrightarrow> tree_ok c st' \<and> dense c st' \<and>
     (\<forall>w. length w = 4 \<longrightarrow> leaf (pmem st') c w =
        (if prefix p w then Some (e, 4 - length p) else leaf (pmem st) c w)) \<and>
     length (avail st) \<le> n + length (avail st')"

lemma install_below:
  assumes tf: "tables_for c p n st t st'" and dense: "dense c st"
    and p: "p \<noteq> []" "length p \<le> 3" "indices (p @ [i])"
    and e: "present e" "length p = 3 \<or> huge e \<and> \<not> present (pmem st' t i)"
  shows "installed c (p @ [i]) e n st (write_entry t i e st')"
proof -
  have tree: "tree_ok c st'" and t: "follow (pmem st') c p = Some t"
    and lf: "length w = 4 \<Longrightarrow> leaf (pmem st') c w = leaf (pmem st) c w" for w
    using tf by (auto simp: tables_for_def)
  let ?st = "write_entry t i e st'"
  have leaf': "leaf (pmem ?st) c w = (if prefix (p @ [i]) w then Some (e, 3 - length p) else leaf (pmem st) c w)"
    if "length w = 4" for w
    using leaf_install [OF tree p(2) t e(1) _ that, of i] e(2) lf [OF that] by auto
  have "dense c ?st"
    unfolding dense_def
  proof (intro allI impI)
    fix q assume q: "q \<noteq> []" "length q \<le> 3" "follow (pmem ?st) c q \<noteq> None"
    then have "follow (pmem st') c q \<noteq> None"
      using follow_install [OF tree p(2) t e(2) q(2)] by simp
    then consider "follow (pmem st) c q \<noteq> None" | "prefix q p"
      using tf q(2) unfolding tables_for_def by metis
    then show "\<exists>r. length (q @ r) = 4 \<and> indices (q @ r) \<and> leaf (pmem ?st) c (q @ r) \<noteq> None"
    proof cases
      case 1
      then obtain r where "length (q @ r) = 4" "indices (q @ r)" "leaf (pmem st) c (q @ r) \<noteq> None"
        using dense q(1,2) unfolding dense_def by blast
      then show ?thesis
        using leaf' by (intro exI [of _ r]) auto
    next
      case 2
      then obtain r where "p = q @ r"
        by (auto simp: prefix_def)
      then show ?thesis
        using leaf' [of "p @ i # replicate (3 - length p) 0"] p(2,3)
        by (intro exI [of _ "r @ i # replicate (3 - length p) 0"]) (auto simp: list_all_iff)
    qed
  qed
  then show ?thesis
    using tree_ok_install [OF tree p(2,1) t e(2)] leaf' tf by (simp add: installed_def tables_for_def)
qed

end
