(* ===== verification/Boot_Map.thy ===== *)
theory Boot_Map
  imports Page_Walk
begin

unbundle bit_operations_syntax

text \<open>
  The address space as a function from virtual to physical pages, and the effect of the
  loader's mapping functions on it.
\<close>

section \<open>Virtual pages\<close>

definition vpn :: "u64 \<Rightarrow> nat" where
  "vpn va = unat va div 4096 mod 2 ^ 36"

definition path :: "nat \<Rightarrow> nat list" where
  "path v = [v div 2 ^ 27 mod 512, v div 2 ^ 18 mod 512, v div 2 ^ 9 mod 512, v mod 512]"

definition xlate :: "u64 \<Rightarrow> PtState \<Rightarrow> nat \<Rightarrow> u64 option" where
  "xlate c st v = (case leaf (pmem st) c (path v) of
      None \<Rightarrow> None
    | Some (e, n) \<Rightarrow> if n = 3 then None else Some ((e AND ADDR_MASK) + of_nat (v mod 512 ^ n * 4096)))"

lemma length_path [simp]: "length (path v) = 4"
  by (simp add: path_def)

lemma indices_path [simp]: "indices (path v)"
  by (simp add: path_def)

lemma mask_9: "(0x1ff :: u64) = mask 9"
  by (simp add: mask_eq_exp_minus_1)

lemma unat_drop_mod: "unat (drop_bit n (va :: u64) AND mask 9) = unat va div 2 ^ n mod 512"
proof -
  have "drop_bit n va AND mask 9 = take_bit 9 (drop_bit n va)"
    by (simp only: take_bit_eq_mask)
  moreover have "unat (drop_bit n va) = unat va div 2 ^ n"
    unfolding unat_drop_bit_eq by (simp only: drop_bit_eq_div)
  ultimately show ?thesis
    using unat_take_bit [of 9 "drop_bit n va"] by simp
qed

lemma vpn_part:
  assumes "n \<le> 27"
  shows "vpn va div 2 ^ n mod 512 = unat va div 2 ^ (n + 12) mod 512"
proof -
  have "(take_bit 9 (drop_bit n (take_bit 36 (drop_bit 12 (unat va)))) :: nat) = take_bit 9 (drop_bit (n + 12) (unat va))"
    using assms by (intro bit_eqI) (auto simp: bit_simps ac_simps)
  then show ?thesis
    by (simp add: vpn_def take_bit_eq_mod drop_bit_eq_div)
qed

lemma path_vpn: "path (vpn va) = [pml4_index va, pdpt_index va, pd_index va, pt_index va]"
  using vpn_part [of 27 va] vpn_part [of 18 va] vpn_part [of 9 va] vpn_part [of 0 va]
  unfolding path_def pml4_index_def pdpt_index_def pd_index_def pt_index_def mask_9 unat_drop_mod by simp

lemma vpn_less: "vpn va < 2 ^ 36"
  by (simp add: vpn_def)

lemma div_512_iff: "v div 512 = w div 512 \<and> v mod 512 = w mod 512 \<longleftrightarrow> v = (w :: nat)"
  by (metis div_mult_mod_eq)

lemma path_prefix:
  assumes "v < 2 ^ 36" "w < 2 ^ 36"
  shows "prefix (take 2 (path v)) (path w) \<longleftrightarrow> w div 2 ^ 18 = v div 2 ^ 18"
    and "prefix (take 3 (path v)) (path w) \<longleftrightarrow> w div 2 ^ 9 = v div 2 ^ 9"
    and "prefix (path v) (path w) \<longleftrightarrow> w = v"
proof -
  have top: "v div 134217728 mod 512 = v div 262144 div 512" "w div 134217728 mod 512 = w div 262144 div 512"
    using assms by (simp_all add: less_mult_imp_div_less div_mult2_eq [symmetric])
  have mid: "x div 262144 = x div 512 div 512" for x :: nat
    by (simp add: div_mult2_eq [symmetric])
  note iff = div_512_iff [of "w div 262144" "v div 262144"] div_512_iff [of "w div 512" "v div 512", folded mid]
  show "prefix (take 2 (path v)) (path w) \<longleftrightarrow> w div 2 ^ 18 = v div 2 ^ 18"
    by (simp add: path_def top) (metis iff(1))
  show "prefix (take 3 (path v)) (path w) \<longleftrightarrow> w div 2 ^ 9 = v div 2 ^ 9"
    by (simp add: path_def top) (metis iff)
  show "prefix (path v) (path w) \<longleftrightarrow> w = v"
    by (simp add: path_def top) (metis iff div_512_iff [of w v])
qed

section \<open>One page\<close>

definition pt_inv :: "u64 \<Rightarrow> PtState \<Rightarrow> bool" where
  "pt_inv c st \<longleftrightarrow> tree_ok c st \<and> dense c st"

text \<open>
  The outcome of a mapping function that takes at most \<open>n\<close> pages from the firmware: it succeeds,
  the translation becomes \<open>f\<close> and the pages outside huge ones are those of \<open>F\<close>.
\<close>

definition pt_post ::
  "u64 \<Rightarrow> (nat \<Rightarrow> u64 option) \<Rightarrow> (nat \<Rightarrow> bool) \<Rightarrow> nat \<Rightarrow> PtState \<Rightarrow> ('a \<times> PtState) option res \<Rightarrow> bool" where
  "pt_post c f F n st r \<longleftrightarrow> (\<exists>x st'. r = Ok (Some (x, st')) \<and> pt_inv c st' \<and>
     (\<forall>v < 2 ^ 36. xlate c st' v = f v \<and> flat c st' (path v) = F v) \<and>
     length (avail st) \<le> n + length (avail st'))"

lemma tbind_Ok [simp]: "tbind (Ok (Some (x, st))) f = f x st" "tbind (Ok None) f = Ok None" "tbind (Panic p) f = Panic p"
  by (simp_all add: tbind_def)

lemma installed_xlate:
  assumes "installed c p e n st st'" and p: "\<And>v. v < 2 ^ 36 \<Longrightarrow> prefix p (path v) \<longleftrightarrow> Q v" "length p \<in> {2, 3, 4}"
  shows "pt_post c (\<lambda>v. if Q v then Some ((e AND ADDR_MASK) + of_nat (v mod 512 ^ (4 - length p) * 4096)) else xlate c st v)
    (\<lambda>v. if Q v then length p = 4 else flat c st (path v)) n st (Ok (Some ((), st')))"
proof -
  have "leaf (pmem st') c (path v) = (if Q v then Some (e, 4 - length p) else leaf (pmem st) c (path v))"
    if "v < 2 ^ 36" for v
    using assms(1) p(1) [OF that] by (simp add: installed_def)
  then show ?thesis
    using assms(1) p(2) unfolding pt_post_def by (auto simp: installed_def pt_inv_def xlate_def flat_def)
qed

lemma pt_post_cong:
  assumes "pt_post c f F n st r" "\<And>v. v < 2 ^ 36 \<Longrightarrow> f v = g v" "\<And>v. v < 2 ^ 36 \<Longrightarrow> F v = G v"
  shows "pt_post c g G n st r"
  using assms unfolding pt_post_def by fastforce

lemma walk_vpn:
  assumes "pt_inv c st" "flat c st (path (vpn va))" "3 \<le> length (avail st)"
  obtains t3 st1 t2 st2 t1 st3 where "ensure_pdpt c (pml4_index va) st = Ok (Some (t3, st1))"
    and "ensure_pd t3 (pdpt_index va) st1 = Ok (Some (t2, st2))" and "ensure_pt t2 (pd_index va) st2 = Ok (Some (t1, st3))"
    and "tables_for c [pml4_index va, pdpt_index va, pd_index va] 3 st t1 st3"
  by (rule walk_tables [of c st "pml4_index va" "pdpt_index va" "pd_index va" "pt_index va"])
    (use assms in \<open>simp_all add: pt_inv_def path_vpn\<close>)

lemma install_4k:
  assumes inv: "pt_inv c st" and flat: "flat c st (path (vpn va))"
    and tf: "tables_for c [pml4_index va, pdpt_index va, pd_index va] n st t st'" and m: "m AND ADDR_MASK = m"
  shows "pt_post c ((xlate c st)(vpn va := Some m)) (\<lambda>v. flat c st (path v)) n st
    (Ok (Some ((), write_entry t (pt_index va) (m OR PTE_P OR PTE_RW) st')))"
proof -
  let ?st = "write_entry t (pt_index va) (m OR PTE_P OR PTE_RW) st'"
  note e = entry_fields [OF m]
  have "installed c ([pml4_index va, pdpt_index va, pd_index va] @ [pt_index va]) (m OR PTE_P OR PTE_RW) n st ?st"
    using inv e(1) indices_path [of "vpn va"] by (intro install_below [OF tf]) (simp_all add: pt_inv_def path_vpn)
  then have "installed c (path (vpn va)) (m OR PTE_P OR PTE_RW) n st ?st"
    by (simp add: path_vpn)
  from installed_xlate [OF this path_prefix(3) [OF vpn_less]] show ?thesis
    by (rule pt_post_cong) (use flat e(5) in auto)
qed

lemma map_4k_offset_page_ok:
  assumes "pt_inv c st" "flat c st (path (vpn va))" "3 \<le> length (avail st)"
  shows "pt_post c ((xlate c st)(vpn va := Some (word_of_int (uint va + delta) AND ADDR_MASK)))
    (\<lambda>v. flat c st (path v)) 3 st (map_4k_offset_page c delta va st)"
proof -
  obtain t3 st1 t2 st2 t1 st3 where w: "ensure_pdpt c (pml4_index va) st = Ok (Some (t3, st1))"
    "ensure_pd t3 (pdpt_index va) st1 = Ok (Some (t2, st2))" "ensure_pt t2 (pd_index va) st2 = Ok (Some (t1, st3))"
    "tables_for c [pml4_index va, pdpt_index va, pd_index va] 3 st t1 st3"
    by (rule walk_vpn [OF assms])
  from install_4k [OF assms(1,2) w(4) mask_idem] show ?thesis
    by (simp only: map_4k_offset_page_def w tbind_Ok Let_def)
qed

text \<open>\<open>map_4kib_page\<close> keeps a page that is mapped already.\<close>

lemma leaf_4k:
  assumes "follow (pmem st) c [i4, i3, i2] = Some t"
  shows "leaf (pmem st) c [i4, i3, i2, i1] = (if present (pmem st t i1) then Some (pmem st t i1, 0) else None)"
  using leaf_append [OF assms, of "[i1]"] by simp

lemma tables_for_same:
  assumes tf: "tables_for c p n st t st'" and dense: "dense c st"
    and mapped: "length (p @ r) = 4" "indices (p @ r)" "leaf (pmem st) c (p @ r) \<noteq> None"
  shows "dense c st'"
  unfolding dense_def
proof (intro allI impI)
  fix q assume q: "q \<noteq> []" "length q \<le> 3" "follow (pmem st') c q \<noteq> None"
  then consider "follow (pmem st) c q \<noteq> None" | "prefix q p"
    using tf unfolding tables_for_def by metis
  then show "\<exists>r. length (q @ r) = 4 \<and> indices (q @ r) \<and> leaf (pmem st') c (q @ r) \<noteq> None"
  proof cases
    case 1
    then show ?thesis
      using dense q tf unfolding dense_def tables_for_def by metis
  next
    case 2
    then obtain r' where "p = q @ r'"
      by (auto simp: prefix_def)
    then show ?thesis
      using mapped tf unfolding tables_for_def by (intro exI [of _ "r' @ r"]) simp
  qed
qed

lemma map_4kib_page_ok:
  assumes "pt_inv c st" "flat c st (path (vpn va))" "3 \<le> length (avail st)"
  shows "pt_post c ((xlate c st)(vpn va := Some (case xlate c st (vpn va) of Some b \<Rightarrow> b | None \<Rightarrow> phys AND ADDR_MASK)))
    (\<lambda>v. flat c st (path v)) 3 st (map_4kib_page c va phys st)"
proof -
  obtain t3 st1 t2 st2 t1 st3 where w: "ensure_pdpt c (pml4_index va) st = Ok (Some (t3, st1))"
    "ensure_pd t3 (pdpt_index va) st1 = Ok (Some (t2, st2))" "ensure_pt t2 (pd_index va) st2 = Ok (Some (t1, st3))"
    "tables_for c [pml4_index va, pdpt_index va, pd_index va] 3 st t1 st3"
    by (rule walk_vpn [OF assms])
  let ?e = "pmem st3 t1 (pt_index va)"
  have lf: "leaf (pmem st) c (path v) = leaf (pmem st3) c (path v)" for v
    using w(4) by (simp add: tables_for_def)
  have leaf: "leaf (pmem st) c (path (vpn va)) = (if present ?e then Some (?e, 0) else None)"
    unfolding lf unfolding path_vpn using w(4) by (intro leaf_4k) (simp add: tables_for_def)
  show ?thesis
  proof (cases "present ?e")
    case False
    then have "xlate c st (vpn va) = None"
      by (simp add: xlate_def leaf)
    then show ?thesis
      using install_4k [OF assms(1,2) w(4) mask_idem [of phys]] False by (simp add: map_4kib_page_def w)
  next
    case True
    have "dense c st3"
      using tables_for_same [OF w(4), of "[pt_index va]"] assms(1) leaf True indices_path [of "vpn va"]
      by (simp add: pt_inv_def path_vpn)
    then have "pt_post c (xlate c st) (\<lambda>v. flat c st (path v)) 3 st (Ok (Some ((), st3)))"
      using w(4) lf by (simp add: pt_post_def pt_inv_def tables_for_def xlate_def flat_def)
    moreover have "map_4kib_page c va phys st = Ok (Some ((), st3))"
      using True by (simp add: map_4kib_page_def w)
    moreover have "xlate c st (vpn va) \<noteq> None"
      using True leaf by (simp add: xlate_def)
    ultimately show ?thesis
      by (auto simp: fun_upd_idem)
  qed
qed

section \<open>Ranges of pages\<close>

text \<open>
  The pages \<open>lo .. hi - 1\<close> of the 64-bit address space, as the 36 bits the hardware looks at.
  A range is mapped when its pages go where \<open>ph\<close> says and every other page is as before.
\<close>

definition vp :: "nat \<Rightarrow> nat" where
  "vp k = k mod 2 ^ 36"

definition range_post ::
  "u64 \<Rightarrow> nat \<Rightarrow> nat \<Rightarrow> (nat \<Rightarrow> bool) \<Rightarrow> (nat \<Rightarrow> u64) \<Rightarrow> nat \<Rightarrow> PtState \<Rightarrow> ('a \<times> PtState) option res \<Rightarrow> bool" where
  "range_post c lo hi P ph n st r \<longleftrightarrow> (\<exists>x st'. r = Ok (Some (x, st')) \<and> pt_inv c st' \<and>
     (\<forall>k. lo \<le> k \<longrightarrow> k < hi \<longrightarrow> P k \<longrightarrow> xlate c st' (vp k) = Some (ph k)) \<and>
     (\<forall>v < 2 ^ 36. v \<notin> vp ` {k. lo \<le> k \<and> k < hi \<and> P k} \<longrightarrow> xlate c st' v = xlate c st v) \<and>
     (\<forall>v < 2 ^ 36. flat c st' (path v) = flat c st (path v)) \<and>
     length (avail st) \<le> n + length (avail st'))"

lemma vp_less: "vp k < 2 ^ 36"
  by (simp add: vp_def)

lemmas vp_less_num [simp] = vp_less [simplified]

lemma vpn_vp: "vpn va = vp (unat va div 4096)"
  by (simp add: vpn_def vp_def)

lemma vp_inj:
  assumes "vp j = vp k" "j < k + 2 ^ 36" "k < j + 2 ^ 36"
  shows "j = k"
proof (rule ccontr)
  assume "j \<noteq> k"
  moreover have "2 ^ 36 dvd (if j < k then k - j else j - k)"
    using assms(1) mod_eq_dvd_iff_nat [of j k "2 ^ 36"] mod_eq_dvd_iff_nat [of k j "2 ^ 36"]
    by (auto simp: vp_def)
  ultimately show False
    using assms(2,3) by (auto dest: dvd_imp_le split: if_splits)
qed

lemma range_post_empty:
  assumes "pt_inv c st" "hi \<le> lo"
  shows "range_post c lo hi P ph 0 st (Ok (Some (x, st)))"
  using assms by (simp add: range_post_def)

lemma range_post_mono: "range_post c lo hi P ph n st r \<Longrightarrow> n \<le> m \<Longrightarrow> range_post c lo hi P ph m st r"
  unfolding range_post_def by (elim exE conjE, intro exI conjI) (assumption | linarith)+

lemma range_post_skip:
  assumes "range_post c (Suc lo) hi P ph n st r" "\<not> P lo"
  shows "range_post c lo hi P ph n st r"
proof -
  have less: "P k \<Longrightarrow> lo \<le> k \<longleftrightarrow> Suc lo \<le> k" for k
    using assms(2) by (cases "k = lo") auto
  then have "{k. lo \<le> k \<and> k < hi \<and> P k} = {k. Suc lo \<le> k \<and> k < hi \<and> P k}"
    by blast
  then show ?thesis
    using assms(1) less unfolding range_post_def by auto
qed

lemma range_post_step:
  assumes first: "pt_post c ((xlate c st)(vp lo := Some (ph lo))) (\<lambda>v. flat c st (path v)) n st (Ok (Some (x, st1)))"
    and rest: "range_post c (Suc lo) hi P ph m st1 r" and lo: "lo < hi" "P lo" "hi \<le> lo + 2 ^ 36"
  shows "range_post c lo hi P ph (n + m) st r"
proof -
  obtain y st' where st': "r = Ok (Some (y, st'))" "pt_inv c st'"
    "\<And>k. Suc lo \<le> k \<Longrightarrow> k < hi \<Longrightarrow> P k \<Longrightarrow> xlate c st' (vp k) = Some (ph k)"
    "\<And>v. v < 2 ^ 36 \<Longrightarrow> v \<notin> vp ` {k. Suc lo \<le> k \<and> k < hi \<and> P k} \<Longrightarrow> xlate c st' v = xlate c st1 v"
    "\<And>v. v < 2 ^ 36 \<Longrightarrow> flat c st' (path v) = flat c st1 (path v)"
    "length (avail st1) \<le> m + length (avail st')"
    using rest unfolding range_post_def by auto
  have st1: "xlate c st1 v = ((xlate c st)(vp lo := Some (ph lo))) v" "flat c st1 (path v) = flat c st (path v)"
    if "v < 2 ^ 36" for v
    using first that unfolding pt_post_def by auto
  have av: "length (avail st) \<le> n + length (avail st1)"
    using first unfolding pt_post_def by simp
  have "vp lo \<noteq> vp k" if "Suc lo \<le> k" "k < hi" for k
    using vp_inj [of lo k] that lo(3) by auto
  then have "vp lo \<notin> vp ` {k. Suc lo \<le> k \<and> k < hi \<and> P k}"
    by auto
  then have "xlate c st' (vp lo) = Some (ph lo)"
    using st'(4) [of "vp lo"] st1(1) by simp
  then have "xlate c st' (vp k) = Some (ph k)" if "lo \<le> k" "k < hi" "P k" for k
    using st'(3) that by (cases "k = lo") auto
  moreover have "xlate c st' v = xlate c st v" if v: "v < 2 ^ 36" "v \<notin> vp ` {k. lo \<le> k \<and> k < hi \<and> P k}" for v
  proof -
    have "v \<noteq> vp lo" "v \<notin> vp ` {k. Suc lo \<le> k \<and> k < hi \<and> P k}"
      using v(2) lo by auto
    then show ?thesis
      using st'(4) [OF v(1)] st1(1) [OF v(1)] by simp
  qed
  ultimately show ?thesis
    using st' st1(2) av unfolding range_post_def by auto
qed

end
