(* ===== verification/Boot_Space.thy ===== *)
theory Boot_Space
  imports Boot_Map
begin

unbundle bit_operations_syntax

text \<open>
  The loops of the loader over ranges of pages, and the address space that
  \<open>build_pagetables_exec\<close> leaves behind.
\<close>

section \<open>Loops over pages\<close>

definition page_no :: "u64 \<Rightarrow> nat" where
  "page_no a = unat a div 4096"

lemma vpn_page_no: "vpn va = vp (page_no va)"
  by (simp add: vpn_vp page_no_def)

lemma page_no_less:
  assumes "page_aligned a" "page_aligned b"
  shows "a < b \<longleftrightarrow> page_no a < page_no b"
  using assms by (auto simp: word_less_nat_alt page_no_def elim!: dvdE)

lemma page_step:
  assumes "page_aligned va" "page_aligned e" "va < e"
  shows "u_add dbg va 0x1000 = Ok (va + 0x1000)" "page_aligned (va + 0x1000)" "\<not> va + 0x1000 \<le> va"
    "page_no (va + 0x1000) = Suc (page_no va)" "unat (va + 0x1000) = unat va + 4096"
proof -
  have "unat va + 4096 \<le> unat e"
    using assms page_multiple_less [OF assms(1,2)] by (auto simp: word_less_nat_alt)
  then have le: "unat va + 4096 < 18446744073709551616"
    using unat_less_64 [of e] by linarith
  then show "u_add dbg va 0x1000 = Ok (va + 0x1000)" and un: "unat (va + 0x1000) = unat va + 4096"
    by (simp_all add: u_add_ok unat_add_ok)
  show "page_aligned (va + 0x1000)" "\<not> va + 0x1000 \<le> va" "page_no (va + 0x1000) = Suc (page_no va)"
    using assms(1) by (simp_all add: un word_le_nat_alt page_no_def)
qed

lemma pt_postE:
  assumes "pt_post c f F n st r"
  obtains x st' where "r = Ok (Some (x, st'))" "pt_inv c st'" "length (avail st) \<le> n + length (avail st')"
    and "\<And>v. v < 2 ^ 36 \<Longrightarrow> xlate c st' v = f v" "\<And>v. v < 2 ^ 36 \<Longrightarrow> flat c st' (path v) = F v"
  using assms unfolding pt_post_def by blast

lemma uint_page: "page_aligned va \<Longrightarrow> uint va = int (page_no va) * 4096"
proof -
  assume "page_aligned va"
  then have "int (page_no va * 4096) = int (unat va)"
    by (simp only: page_no_def dvd_div_mult_self)
  then show ?thesis
    unfolding of_nat_mult uint_nat by (simp only: of_nat_numeral)
qed

text \<open>
  What the three 4 KiB loops share: they run from \<open>va\<close> up to \<open>e\<close> in steps of a page. The page at
  \<open>va\<close> is page \<open>off + page_no va\<close> of the address space; it is mapped to \<open>ph\<close> where \<open>P\<close> holds of it,
  provided its translation before satisfies \<open>pre\<close>. \<open>E\<close> is what the loop needs to know of its bounds.
\<close>

locale page_loop =
  fixes c :: u64 and e :: u64 and E :: bool and off :: nat and P :: "nat \<Rightarrow> bool" and ph :: "nat \<Rightarrow> u64"
    and pre :: "u64 option \<Rightarrow> bool" and step :: "u64 \<Rightarrow> unit ptm" and loop :: "u64 \<Rightarrow> unit ptm"
  assumes aligned: "E \<Longrightarrow> page_aligned e"
    and stop: "\<not> va < e \<Longrightarrow> loop va st = Ok (Some ((), st))"
    and continue: "\<lbrakk>E; page_aligned va; va < e\<rbrakk> \<Longrightarrow> loop va st = tbind (step va st) (\<lambda>_. loop (va + 0x1000))"
    and step_map: "\<lbrakk>E; pt_inv c st; page_aligned va; va < e; P (off + page_no va); 3 \<le> length (avail st);
        flat c st (path (vp (off + page_no va))); pre (xlate c st (vp (off + page_no va)))\<rbrakk> \<Longrightarrow>
      pt_post c ((xlate c st)(vp (off + page_no va) := Some (ph (off + page_no va)))) (\<lambda>v. flat c st (path v)) 3 st
        (step va st)"
    and step_skip: "\<lbrakk>E; page_aligned va; va < e; \<not> P (off + page_no va)\<rbrakk> \<Longrightarrow> step va st = Ok (Some ((), st))"
begin

definition ready :: "u64 \<Rightarrow> PtState \<Rightarrow> bool" where
  "ready va st \<longleftrightarrow> pt_inv c st \<and> 3 * (page_no e - page_no va) \<le> length (avail st) \<and>
     (\<forall>k. off + page_no va \<le> k \<longrightarrow> k < off + page_no e \<longrightarrow> P k \<longrightarrow>
        flat c st (path (vp k)) \<and> pre (xlate c st (vp k)))"

lemma ready_after:
  assumes "ready va st" "page_no va < page_no e" "page_no e \<le> page_no va + 2 ^ 36" "page_no va' = Suc (page_no va)"
    and post: "pt_post c ((xlate c st)(vp (off + page_no va) := Some b)) (\<lambda>v. flat c st (path v)) 3 st (Ok (Some (x, st')))"
  shows "ready va' st'"
proof -
  have st': "pt_inv c st'" "length (avail st) \<le> 3 + length (avail st')"
    "\<And>v. v < 2 ^ 36 \<Longrightarrow> flat c st' (path v) = flat c st (path v)"
    "\<And>v. v < 2 ^ 36 \<Longrightarrow> xlate c st' v = ((xlate c st)(vp (off + page_no va) := Some b)) v"
    using post unfolding pt_post_def by auto
  have "vp k \<noteq> vp (off + page_no va)" if "off + page_no va' \<le> k" "k < off + page_no e" for k
    using vp_inj [of k "off + page_no va"] that assms(3,4) by auto
  then have "flat c st' (path (vp k)) \<and> pre (xlate c st' (vp k))"
    if "off + page_no va' \<le> k" "k < off + page_no e" "P k" for k
    using assms(1,4) that st'(3,4) unfolding ready_def by auto
  moreover have "3 * (page_no e - page_no va') \<le> length (avail st')"
    using assms(1,2,4) st'(2) unfolding ready_def by linarith
  ultimately show ?thesis
    using st'(1) by (simp add: ready_def)
qed

lemma loop_ok:
  assumes E "ready va st" "page_aligned va" "page_no e \<le> page_no va + 2 ^ 36"
  shows "range_post c (off + page_no va) (off + page_no e) P ph (3 * (page_no e - page_no va)) st (loop va st)"
  using assms(2-4)
proof (induction "page_no e - page_no va" arbitrary: va st)
  case 0
  then show ?case
    using page_no_less [OF 0(3) aligned [OF assms(1)]] range_post_empty [of c st "off + page_no e" "off + page_no va"]
    by (simp add: stop ready_def)
next
  case (Suc n)
  let ?va = "va + 0x1000"
  have less: "page_no va < page_no e" "va < e"
    using Suc.hyps(2) page_no_less [OF Suc.prems(2) aligned [OF assms(1)]] by auto
  note next_va = page_step [OF Suc.prems(2) aligned [OF assms(1)] less(2)]
  have sub: "n = page_no e - page_no ?va" "page_no e \<le> page_no ?va + 2 ^ 36"
    "3 * (page_no e - page_no va) = 3 + 3 * (page_no e - page_no ?va)"
    using Suc.hyps(2) Suc.prems(3) next_va(4) less(1) by auto
  show ?case
  proof (cases "P (off + page_no va)")
    case False
    then have eq: "loop va st = loop ?va st"
      using step_skip [OF assms(1) Suc.prems(2) less(2)] by (simp add: continue [OF assms(1) Suc.prems(2) less(2)])
    have "ready ?va st"
      using Suc.prems(1) next_va(4) less(1) by (auto simp: ready_def)
    from Suc.hyps(1) [OF sub(1) this next_va(2) sub(2)]
    have "range_post c (Suc (off + page_no va)) (off + page_no e) P ph (3 * (page_no e - page_no ?va)) st (loop va st)"
      by (simp add: next_va(4) eq)
    from range_post_mono [OF range_post_skip [OF this False]] show ?thesis
      using sub(3) by simp
  next
    case True
    have "pt_post c ((xlate c st)(vp (off + page_no va) := Some (ph (off + page_no va)))) (\<lambda>v. flat c st (path v)) 3 st
        (step va st)"
      using Suc.prems(1) less(1) True
      by (intro step_map [OF assms(1) _ Suc.prems(2) less(2)]) (auto simp: ready_def)
    moreover from this obtain x st1 where st1: "step va st = Ok (Some (x, st1))"
      by (auto simp: pt_post_def)
    ultimately have first: "pt_post c ((xlate c st)(vp (off + page_no va) := Some (ph (off + page_no va))))
        (\<lambda>v. flat c st (path v)) 3 st (Ok (Some (x, st1)))"
      by simp
    have "range_post c (Suc (off + page_no va)) (off + page_no e) P ph (3 * (page_no e - page_no ?va)) st1 (loop ?va st1)"
      using Suc.hyps(1) [OF sub(1) ready_after [OF Suc.prems(1) less(1) Suc.prems(3) next_va(4) first] next_va(2) sub(2)]
        next_va(4) by simp
    from range_post_step [where ph = ph and P = P, OF first this] show ?thesis
      using less(1) True Suc.prems(3) by (simp add: sub(3) continue [OF assms(1) Suc.prems(2) less(2)] st1)
  qed
qed

end

section \<open>The 4 KiB loops\<close>

definition offset_page :: "int \<Rightarrow> nat \<Rightarrow> u64" where
  "offset_page delta k = word_of_int (int k * 4096 + delta) AND ADDR_MASK"

definition same_page :: "nat \<Rightarrow> u64" where
  "same_page k = of_nat (k * 4096) AND ADDR_MASK"

lemma page_word: "page_aligned a \<Longrightarrow> of_nat (page_no a * 4096) = a"
  by (simp add: page_no_def)

interpretation offset: page_loop c e "page_aligned e" 0 "\<lambda>_. True" "offset_page delta" "\<lambda>_. True"
  "map_4k_offset_page c delta" "map_4k_offset_loop dbg c delta e"
proof unfold_locales
  fix va :: u64 and st :: PtState
  assume va: "page_aligned e" "page_aligned va" "va < e"
  show "map_4k_offset_loop dbg c delta e va st =
      tbind (map_4k_offset_page c delta va st) (\<lambda>_. map_4k_offset_loop dbg c delta e (va + 0x1000))"
    using page_step(1,3) [OF va(2,1,3)] va(3) by (subst map_4k_offset_loop.simps) simp
next
  fix va :: u64 and st :: PtState
  assume "pt_inv c st" "page_aligned va" "3 \<le> length (avail st)" "flat c st (path (vp (0 + page_no va)))"
  then show "pt_post c ((xlate c st)(vp (0 + page_no va) := Some (offset_page delta (0 + page_no va))))
      (\<lambda>v. flat c st (path v)) 3 st (map_4k_offset_page c delta va st)"
    using map_4k_offset_page_ok [of c st va delta]
    by (simp only: vpn_page_no uint_page offset_page_def add_0)
qed (simp_all add: map_4k_offset_loop.simps)

definition ident_step :: "u64 \<Rightarrow> u64 \<Rightarrow> u64 \<Rightarrow> u64 \<Rightarrow> unit ptm" where
  "ident_step c min_vaddr max_vaddr va st =
     (if va + 0x1000 \<le> min_vaddr \<or> max_vaddr \<le> va then map_4kib_page c va va st else Ok (Some ((), st)))"

lemma map_unmapped_ok:
  assumes "pt_inv c st" "3 \<le> length (avail st)" "flat c st (path (vpn va))" "xlate c st (vpn va) = None"
  shows "pt_post c ((xlate c st)(vpn va := Some (phys AND ADDR_MASK))) (\<lambda>v. flat c st (path v)) 3 st
    (map_4kib_page c va phys st)"
  using map_4kib_page_ok [OF assms(1,3,2), of phys] assms(4) by simp

text \<open>The identity loop leaves out the pages of the kernel.\<close>

lemma overlap_pages:
  assumes "page_aligned mn" "page_aligned mx" "page_aligned va" "page_aligned e" "va < e"
  shows "va + 0x1000 \<le> mn \<or> mx \<le> va \<longleftrightarrow> \<not> (page_no mn \<le> page_no va \<and> page_no va < page_no mx)"
  using assms(1-3) page_step(5) [OF assms(3-5)] by (auto simp: word_le_nat_alt page_no_def elim!: dvdE)

interpretation ident: page_loop c e "page_aligned e \<and> page_aligned mn \<and> page_aligned mx" 0
  "\<lambda>k. \<not> (page_no mn \<le> k \<and> k < page_no mx)" same_page "\<lambda>t. t = None"
  "ident_step c mn mx" "ident_loop dbg c mn mx e"
proof unfold_locales
  fix va :: u64 and st :: PtState
  assume va: "page_aligned e \<and> page_aligned mn \<and> page_aligned mx" "page_aligned va" "va < e"
  note step = page_step [OF va(2) conjunct1 [OF va(1)] va(3)]
  show "ident_loop dbg c mn mx e va st = tbind (ident_step c mn mx va st) (\<lambda>_. ident_loop dbg c mn mx e (va + 0x1000))"
    using step(1,3) va(3) by (subst ident_loop.simps) (auto simp: ident_step_def Let_def)
next
  fix va :: u64 and st :: PtState
  assume va: "page_aligned e \<and> page_aligned mn \<and> page_aligned mx" "pt_inv c st" "page_aligned va" "va < e"
    "\<not> (page_no mn \<le> 0 + page_no va \<and> 0 + page_no va < page_no mx)" "3 \<le> length (avail st)"
    "flat c st (path (vp (0 + page_no va)))" "xlate c st (vp (0 + page_no va)) = None"
  then have "ident_step c mn mx va st = map_4kib_page c va va st"
    using overlap_pages [of mn mx va e] by (auto simp: ident_step_def)
  then show "pt_post c ((xlate c st)(vp (0 + page_no va) := Some (same_page (0 + page_no va)))) (\<lambda>v. flat c st (path v)) 3 st
      (ident_step c mn mx va st)"
    using map_unmapped_ok [of c st va va] va page_word [OF va(3)] by (simp add: vpn_page_no same_page_def)
next
  fix va :: u64 and st :: PtState
  assume "page_aligned e \<and> page_aligned mn \<and> page_aligned mx" "page_aligned va" "va < e"
    "\<not> \<not> (page_no mn \<le> 0 + page_no va \<and> 0 + page_no va < page_no mx)"
  then show "ident_step c mn mx va st = Ok (Some ((), st))"
    using overlap_pages [of mn mx va e] by (auto simp: ident_step_def)
qed (simp_all add: ident_loop.simps)

text \<open>The tail of the direct map: the loop counts physical addresses, the pages are \<open>HHDM_BASE\<close> above.\<close>

definition hhdm_no :: nat where
  "hhdm_no = page_no HHDM_BASE"

definition hhdm_page :: "nat \<Rightarrow> u64" where
  "hhdm_page k = same_page (k - hhdm_no)"

lemma hhdm_add:
  assumes "unat HHDM_BASE + unat p < 2 ^ 64"
  shows "u_add dbg HHDM_BASE p = Ok (HHDM_BASE + p)" "unat (HHDM_BASE + p) = unat HHDM_BASE + unat p"
    "page_no (HHDM_BASE + p) = hhdm_no + page_no p"
proof -
  show "u_add dbg HHDM_BASE p = Ok (HHDM_BASE + p)" and un: "unat (HHDM_BASE + p) = unat HHDM_BASE + unat p"
    using assms by (simp_all add: u_add_ok unat_add_ok)
  have "unat HHDM_BASE = 4096 * 0xffff888000000"
    by (simp add: HHDM_BASE_def)
  then show "page_no (HHDM_BASE + p) = hhdm_no + page_no p"
    unfolding hhdm_no_def page_no_def un by simp
qed

interpretation hhdm: page_loop c e "page_aligned e \<and> unat HHDM_BASE + unat e < 2 ^ 64" hhdm_no
  "\<lambda>_. True" hhdm_page "\<lambda>t. t = None" "\<lambda>p. map_4kib_page c (HHDM_BASE + p) p" "hhdm_4k_loop dbg c e"
proof unfold_locales
  fix p :: u64 and st :: PtState
  assume p: "page_aligned e \<and> unat HHDM_BASE + unat e < 2 ^ 64" "page_aligned p" "p < e"
  note step = page_step [OF p(2) conjunct1 [OF p(1)] p(3)]
  have "unat HHDM_BASE + unat p < 2 ^ 64"
    using p(1,3) by (simp add: word_less_nat_alt)
  then show "hhdm_4k_loop dbg c e p st =
      tbind (map_4kib_page c (HHDM_BASE + p) p st) (\<lambda>_. hhdm_4k_loop dbg c e (p + 0x1000))"
    using step(1,3) p(3) by (subst hhdm_4k_loop.simps) (simp add: hhdm_add(1))
next
  fix p :: u64 and st :: PtState
  assume p: "page_aligned e \<and> unat HHDM_BASE + unat e < 2 ^ 64" "pt_inv c st" "page_aligned p" "p < e"
    "3 \<le> length (avail st)" "flat c st (path (vp (hhdm_no + page_no p)))" "xlate c st (vp (hhdm_no + page_no p)) = None"
  have "unat HHDM_BASE + unat p < 2 ^ 64"
    using p(1,4) by (simp add: word_less_nat_alt)
  from hhdm_add(3) [OF this] have no: "vpn (HHDM_BASE + p) = vp (hhdm_no + page_no p)"
    by (simp add: vpn_page_no)
  show "pt_post c ((xlate c st)(vp (hhdm_no + page_no p) := Some (hhdm_page (hhdm_no + page_no p)))) (\<lambda>v. flat c st (path v))
      3 st (map_4kib_page c (HHDM_BASE + p) p st)"
    using map_unmapped_ok [of c st "HHDM_BASE + p" p] p page_word [OF p(3)]
    by (simp add: no hhdm_page_def same_page_def)
qed (simp_all add: hhdm_4k_loop.simps)

end
