(* ===== verification/Boot_Hhdm.thy ===== *)
theory Boot_Hhdm
  imports Boot_Space
begin

unbundle bit_operations_syntax

text \<open>The huge pages of the direct map of physical memory, and \<open>map_hhdm_huge\<close> as a whole.\<close>

section \<open>Absent entries\<close>

lemma path_surj:
  assumes "length w = 4" "indices w"
  obtains v where "v < 2 ^ 36" "path v = w"
proof -
  obtain a b c d where w: "w = [a, b, c, d]" and less: "a < 512" "b < 512" "c < 512" "d < 512"
    using assms by (auto simp: length_Suc_conv eval_nat_numeral)
  define x where "x = a * 512 + b"
  define y where "y = x * 512 + c"
  define v where "v = y * 512 + d"
  have v: "v div 512 = y" "v mod 512 = d" "y div 512 = x" "y mod 512 = c" "x div 512 = a" "x mod 512 = b"
    unfolding v_def y_def x_def using less
    by (simp_all only: div_mult_self3 mod_mult_self3 div_less mod_less add_0_right)
  then have "v div 2 ^ 9 = y" "v div 2 ^ 18 = x" "v div 2 ^ 27 = a"
    using div_mult2_eq [of v 512 512] div_mult2_eq [of v 262144 512] div_mult2_eq [of y 512 512] by simp_all
  then have "path v = w"
    unfolding path_def w using v less(1) by (simp only: mod_less)
  moreover have "v < 2 ^ 36"
    using less by (simp add: v_def y_def x_def)
  ultimately show thesis
    using that by blast
qed

lemma leaf_depth:
  assumes "tree_ok c st" "leaf (pmem st) c (i # w) = Some (e, n)" "length w = 3"
  shows "n < 3"
proof -
  have shorter: "leaf mem t r = Some (e, n) \<Longrightarrow> n < length r" for mem t r
    by (induction mem t r rule: leaf.induct) (auto simp: Let_def split: if_splits)
  have "\<not> huge (pmem st c i)" "w \<noteq> []"
    using assms(1,3) by (auto simp: tree_ok_def)
  then show ?thesis
    using assms(2,3) shorter [of "pmem st" "pmem st c i AND ADDR_MASK" w] by (auto simp: leaf_Cons split: if_splits)
qed

lemma xlate_None:
  assumes "tree_ok c st"
  shows "xlate c st v = None \<longleftrightarrow> leaf (pmem st) c (path v) = None"
proof -
  have "path v = hd (path v) # tl (path v)" "length (tl (path v)) = 3"
    by (simp_all add: path_def)
  then show ?thesis
    using leaf_depth [OF assms, of "hd (path v)" "tl (path v)"]
    by (auto simp: xlate_def split: option.splits prod.splits)
qed

text \<open>An entry that covers only unmapped pages is absent.\<close>

lemma entry_absent:
  assumes inv: "pt_inv c st" and tf: "tables_for c p n st t st'"
    and path: "path v0 = p @ i # r" "r \<noteq> []"
    and unmapped: "\<And>v. v < 2 ^ 36 \<Longrightarrow> prefix (p @ [i]) (path v) \<Longrightarrow> xlate c st v = None"
    and v0: "v0 < 2 ^ 36"
  shows "\<not> present (pmem st' t i)"
proof
  assume present: "present (pmem st' t i)"
  have tree: "tree_ok c st" "dense c st"
    using inv by (simp_all add: pt_inv_def)
  have len: "length p < 3"
    using length_path [of v0] path by (cases r) simp_all
  have t: "follow (pmem st') c p = Some t"
    using tf by (simp add: tables_for_def)
  show False
  proof (cases "huge (pmem st' t i)")
    case True
    then have "leaf (pmem st') c (path v0) \<noteq> None"
      unfolding path(1) using leaf_append [OF t, of "i # r"] present path(2) by (simp add: leaf_Cons)
    then have "xlate c st v0 \<noteq> None"
      using tf by (simp add: tables_for_def xlate_None [OF tree(1)])
    then show False
      using unmapped [OF v0] by (simp add: path(1))
  next
    case False
    then have "follow (pmem st') c (p @ [i]) \<noteq> None"
      using t present by (simp add: follow_snoc)
    moreover have "\<not> prefix (p @ [i]) p"
      by (auto dest: prefix_length_le)
    ultimately have "follow (pmem st) c (p @ [i]) \<noteq> None"
      using tf len unfolding tables_for_def by (metis length_append_singleton Suc_leI)
    then obtain q where q: "length ((p @ [i]) @ q) = 4" "indices ((p @ [i]) @ q)" "leaf (pmem st) c ((p @ [i]) @ q) \<noteq> None"
      using tree(2) len unfolding dense_def by (metis append_is_Nil_conv not_Cons_self2 length_append_singleton Suc_leI)
    obtain v where v: "v < 2 ^ 36" "path v = (p @ [i]) @ q"
      by (rule path_surj [OF q(1,2)])
    then have "xlate c st v \<noteq> None"
      using q(3) by (simp add: xlate_None [OF tree(1)])
    then show False
      using unmapped [OF v(1)] v(2) by simp
  qed
qed

section \<open>One huge page\<close>

text \<open>\<open>s\<close> is the number of 4 KiB pages of a block: \<open>2 ^ 18\<close> for 1 GiB, \<open>2 ^ 9\<close> for 2 MiB.\<close>

definition block_post :: "u64 \<Rightarrow> nat \<Rightarrow> nat \<Rightarrow> u64 \<Rightarrow> nat \<Rightarrow> PtState \<Rightarrow> ('a \<times> PtState) option res \<Rightarrow> bool" where
  "block_post c s v0 base n st r \<longleftrightarrow> pt_post c
     (\<lambda>v. if v div s = v0 div s then Some (base + of_nat (v mod s * 4096)) else xlate c st v)
     (\<lambda>v. if v div s = v0 div s then False else flat c st (path v)) n st r"

definition block_free :: "u64 \<Rightarrow> nat \<Rightarrow> nat \<Rightarrow> PtState \<Rightarrow> bool" where
  "block_free c s v0 st \<longleftrightarrow> (\<forall>v < 2 ^ 36. v div s = v0 div s \<longrightarrow> xlate c st v = None)"

lemma unmapped_flat: "\<lbrakk>tree_ok c st; xlate c st v = None\<rbrakk> \<Longrightarrow> flat c st (path v)"
  by (simp add: xlate_None flat_def)

lemma hhdm_1g_page_ok:
  assumes inv: "pt_inv c st" and free: "block_free c (2 ^ 18) (vpn va) st" and av: "0 < length (avail st)"
  shows "block_post c (2 ^ 18) (vpn va) (phys AND ADDR_MASK) 1 st (hhdm_1g_page c va phys st)"
proof -
  have tree: "tree_ok c st" "dense c st"
    using inv by (simp_all add: pt_inv_def)
  have none: "xlate c st (vpn va) = None"
    using free vpn_less by (simp add: block_free_def)
  have fl: "flat c st [pml4_index va, pdpt_index va, pd_index va, pt_index va]"
    using unmapped_flat [OF tree(1) none] by (simp only: path_vpn)
  have 0: "tables_for c [] 0 st c st"
    using tree by (intro tables_for_refl) simp_all
  obtain t st1 where 1: "ensure_next c (pml4_index va) st = Ok (Some (t, st1))" "tables_for c [pml4_index va] (Suc 0) st t st1"
    by (rule tables_for_ensure [OF 0, of "pml4_index va" "[pdpt_index va, pd_index va, pt_index va]"])
      (use fl av that in simp_all)
  have pfx: "v < 2 ^ 36 \<Longrightarrow> prefix [pml4_index va, pdpt_index va] (path v) \<longleftrightarrow> v div 2 ^ 18 = vpn va div 2 ^ 18" for v
    using path_prefix(1) [OF vpn_less, of v va] by (simp add: path_vpn)
  have absent: "\<not> present (pmem st1 t (pdpt_index va))"
    by (rule entry_absent [OF inv 1(2), of "vpn va" "pdpt_index va" "[pd_index va, pt_index va]"])
      (use free pfx vpn_less in \<open>auto simp: block_free_def path_vpn\<close>)
  let ?e = "(phys AND ADDR_MASK) OR PTE_P OR PTE_RW OR PTE_PS"
  note e = entry_fields [OF mask_idem, of phys]
  have "installed c ([pml4_index va] @ [pdpt_index va]) ?e (Suc 0) st (write_entry t (pdpt_index va) ?e st1)"
    using tree(2) absent e(2,4) indices_path [of "vpn va"]
    by (intro install_below [OF 1(2)]) (simp_all add: path_vpn)
  then have "installed c [pml4_index va, pdpt_index va] ?e 1 st (write_entry t (pdpt_index va) ?e st1)"
    by simp
  from installed_xlate [OF this pfx] have "block_post c (2 ^ 18) (vpn va) (phys AND ADDR_MASK) 1 st
      (Ok (Some ((), write_entry t (pdpt_index va) ?e st1)))"
    unfolding block_post_def using e(6) by (auto elim!: pt_post_cong)
  then show ?thesis
    using absent 1(1) by (simp add: hhdm_1g_page_def ensure_eq)
qed

lemma hhdm_2m_page_ok:
  assumes inv: "pt_inv c st" and free: "block_free c (2 ^ 9) (vpn va) st" and av: "Suc 0 < length (avail st)"
  shows "block_post c (2 ^ 9) (vpn va) (phys AND ADDR_MASK) 2 st (hhdm_2m_page c va phys st)"
proof -
  have tree: "tree_ok c st" "dense c st"
    using inv by (simp_all add: pt_inv_def)
  have none: "xlate c st (vpn va) = None"
    using free vpn_less by (simp add: block_free_def)
  have fl: "flat c st [pml4_index va, pdpt_index va, pd_index va, pt_index va]"
    using unmapped_flat [OF tree(1) none] by (simp only: path_vpn)
  have 0: "tables_for c [] 0 st c st"
    using tree by (intro tables_for_refl) simp_all
  have av': "0 < length (avail st)"
    using av by linarith
  obtain t st1 where 1: "ensure_next c (pml4_index va) st = Ok (Some (t, st1))" "tables_for c [pml4_index va] (Suc 0) st t st1"
    by (rule tables_for_ensure [OF 0, of "pml4_index va" "[pdpt_index va, pd_index va, pt_index va]"])
      (use fl av' that in simp_all)
  obtain t2 st2 where 2: "ensure_next t (pdpt_index va) st1 = Ok (Some (t2, st2))"
    "tables_for c [pml4_index va, pdpt_index va] (Suc (Suc 0)) st t2 st2"
    "\<not> (present (pmem st1 t (pdpt_index va)) \<and> huge (pmem st1 t (pdpt_index va)))"
    by (rule tables_for_ensure [OF 1(2), of "pdpt_index va" "[pd_index va, pt_index va]"])
      (use fl av that in simp_all)
  have pfx: "v < 2 ^ 36 \<Longrightarrow> prefix [pml4_index va, pdpt_index va, pd_index va] (path v) \<longleftrightarrow>
      v div 2 ^ 9 = vpn va div 2 ^ 9" for v
    using path_prefix(2) [OF vpn_less, of v va] by (simp add: path_vpn)
  have absent: "\<not> present (pmem st2 t2 (pd_index va))"
    by (rule entry_absent [OF inv 2(2), of "vpn va" "pd_index va" "[pt_index va]"])
      (use free pfx vpn_less in \<open>auto simp: block_free_def path_vpn\<close>)
  let ?e = "(phys AND ADDR_MASK) OR PTE_P OR PTE_RW OR PTE_PS"
  note e = entry_fields [OF mask_idem, of phys]
  have "installed c ([pml4_index va, pdpt_index va] @ [pd_index va]) ?e (Suc (Suc 0)) st
      (write_entry t2 (pd_index va) ?e st2)"
    using tree(2) absent e(2,4) indices_path [of "vpn va"]
    by (intro install_below [OF 2(2)]) (simp_all add: path_vpn)
  then have "installed c [pml4_index va, pdpt_index va, pd_index va] ?e 2 st (write_entry t2 (pd_index va) ?e st2)"
    by (simp add: numeral_2_eq_2)
  from installed_xlate [OF this pfx] have "block_post c (2 ^ 9) (vpn va) (phys AND ADDR_MASK) 2 st
      (Ok (Some ((), write_entry t2 (pd_index va) ?e st2)))"
    unfolding block_post_def using e(6) by (auto elim!: pt_post_cong)
  then show ?thesis
    using absent 1(1) 2(1,3) by (simp add: hhdm_2m_page_def ensure_eq)
qed

section \<open>Loops over huge pages\<close>

text \<open>
  Both loops map as many whole blocks of \<open>s\<close> pages as fit below \<open>phys_max\<close>, starting at a multiple
  of the block, and return where they stopped.
\<close>

definition hhdm_done :: "u64 \<Rightarrow> nat \<Rightarrow> nat \<Rightarrow> PtState \<Rightarrow> PtState \<Rightarrow> bool" where
  "hhdm_done c lo hi st st' \<longleftrightarrow> pt_inv c st' \<and>
     (\<forall>k. lo \<le> k \<longrightarrow> k < hi \<longrightarrow> xlate c st' (vp (hhdm_no + k)) = Some (same_page k)) \<and>
     (\<forall>v < 2 ^ 36. v \<notin> (\<lambda>k. vp (hhdm_no + k)) ` {lo..<hi} \<longrightarrow>
        xlate c st' v = xlate c st v \<and> flat c st' (path v) = flat c st (path v))"

lemma hhdm_done_refl: "pt_inv c st \<Longrightarrow> hhdm_done c lo lo st st"
  by (simp add: hhdm_done_def)

lemma hhdm_done_trans:
  assumes 1: "hhdm_done c lo mid st st'" and 2: "hhdm_done c mid hi st' st''"
    and le: "lo \<le> mid" "mid \<le> hi" "hi \<le> lo + 2 ^ 36"
  shows "hhdm_done c lo hi st st''"
proof -
  let ?f = "\<lambda>k. vp (hhdm_no + k)"
  have apart: "?f k \<notin> ?f ` {mid..<hi}" if "lo \<le> k" "k < mid" for k
    using vp_inj [of "hhdm_no + k"] that le by fastforce
  have "xlate c st'' (?f k) = Some (same_page k)" if "lo \<le> k" "k < hi" for k
  proof (cases "k < mid")
    case True
    then show ?thesis
      using 1 2 apart [OF that(1) True] vp_less that(1) unfolding hhdm_done_def by metis
  next
    case False
    then show ?thesis
      using 2 that unfolding hhdm_done_def by simp
  qed
  moreover have "xlate c st'' v = xlate c st v \<and> flat c st'' (path v) = flat c st (path v)"
    if v: "v < 2 ^ 36" "v \<notin> ?f ` {lo..<hi}" for v
  proof -
    have "v \<notin> ?f ` {lo..<mid}" "v \<notin> ?f ` {mid..<hi}"
      using v(2) le by auto
    then show ?thesis
      using 1 2 v(1) unfolding hhdm_done_def by simp
  qed
  ultimately show ?thesis
    using 2 unfolding hhdm_done_def by blast
qed

text \<open>The pages of one block, in the 36-bit page numbers and in physical pages.\<close>

lemma hhdm_no_eq: "hhdm_no = 0xffff888000000"
  by (simp add: hhdm_no_def page_no_def HHDM_BASE_def)

lemma vp_block:
  assumes "s dvd A" "s dvd 2 ^ 36" "i < s"
  shows "vp (A + i) = vp A + i" "(vp A + i) mod s = i" "(vp A + i) div s = vp A div s"
proof -
  obtain a where "A = s * a"
    using assms(1) by (rule dvdE)
  moreover obtain m where "2 ^ 36 = s * m"
    using assms(2) by (rule dvdE)
  ultimately have am: "A = s * a" "2 ^ 36 = s * m" .
  have "(A + i) div s = a" "(A + i) mod s = i"
    using assms(3) am(1) by simp_all
  then have "(A + i) mod (s * m) = s * (a mod m) + i"
    using mod_mult2_eq [of "A + i" s m] by simp
  moreover have A: "A mod (s * m) = s * (a mod m)"
    unfolding am(1) by (rule mult_mod_right [symmetric])
  ultimately show "vp (A + i) = vp A + i"
    unfolding vp_def am(2) by simp
  show "(vp A + i) mod s = i" "(vp A + i) div s = vp A div s"
    unfolding vp_def am(2) A using assms(3) by simp_all
qed

lemma block_image:
  assumes "s dvd A" "s dvd 2 ^ 36" "0 < s" "v div s = vp A div s"
  shows "v = vp (A + v mod s)"
proof -
  have "v mod s < s"
    using assms(3) by simp
  note b = vp_block [OF assms(1,2) this]
  have "vp A mod s = 0" "vp A = vp A div s * s"
    using vp_block(2) [OF assms(1,2,3)] by (simp_all add: div_mult_mod_eq [symmetric])
      (metis add.right_neutral div_mult_mod_eq)
  then have "v = vp A + v mod s"
    using assms(4) by (metis div_mult_mod_eq)
  then show ?thesis
    using b(1) by simp
qed

lemma page_addr_mask:
  assumes "k < 2 ^ 40"
  shows "of_nat (k * 4096) AND ADDR_MASK = (of_nat (k * 4096) :: u64)"
proof -
  have "unat (of_nat (k * 4096) :: u64) = k * 4096"
    using assms by (intro unat_of_nat_64) simp
  then show ?thesis
    using assms by (intro table_addr_mask; simp only:) simp_all
qed

lemma same_page_eq: "k < 2 ^ 40 \<Longrightarrow> same_page k = of_nat (k * 4096)"
  unfolding same_page_def by (rule page_addr_mask)

lemma same_page_plus:
  assumes "K + s \<le> 2 ^ 40" "i < s"
  shows "(of_nat (K * 4096) AND ADDR_MASK) + of_nat (i * 4096) = same_page (K + i)"
  using assms page_addr_mask [of K] same_page_eq [of "K + i"] by (simp add: distrib_right)

lemma block_done:
  assumes post: "block_post c s (vp (hhdm_no + K)) (of_nat (K * 4096) AND ADDR_MASK) n st (Ok (Some (x, st')))"
    and s: "s dvd 2 ^ 18" "0 < s" "s dvd K" "K + s \<le> 2 ^ 40"
  shows "hhdm_done c K (K + s) st st'"
proof -
  let ?A = "hhdm_no + K"
  have A: "s dvd ?A" "s dvd 2 ^ 36"
    using dvd_trans [OF s(1), of hhdm_no] dvd_trans [OF s(1), of "2 ^ 36"] s(3) by (simp_all add: hhdm_no_eq)
  have st': "pt_inv c st'"
    "\<And>v. v < 2 ^ 36 \<Longrightarrow> xlate c st' v = (if v div s = vp ?A div s
        then Some ((of_nat (K * 4096) AND ADDR_MASK) + of_nat (v mod s * 4096)) else xlate c st v)"
    "\<And>v. v < 2 ^ 36 \<Longrightarrow> flat c st' (path v) = (if v div s = vp ?A div s then False else flat c st (path v))"
    using post unfolding block_post_def pt_post_def by auto
  have mapped: "xlate c st' (vp (hhdm_no + k)) = Some (same_page k)" if "K \<le> k" "k < K + s" for k
  proof -
    have i: "k - K < s" "hhdm_no + k = ?A + (k - K)"
      using that by simp_all
    note b = vp_block [OF A i(1)]
    have "K + (k - K) = k"
      using that(1) by simp
    then have page: "(of_nat (K * 4096) AND ADDR_MASK) + of_nat ((k - K) * 4096) = same_page k"
      using same_page_plus [OF s(4) i(1)] by (simp only:)
    show ?thesis
      unfolding i(2) b(1) st'(2) [OF vp_less [of "?A + (k - K)", unfolded b(1)]] b(2,3) page by simp
  qed
  have outside: "v div s \<noteq> vp ?A div s" if "v \<notin> (\<lambda>k. vp (hhdm_no + k)) ` {K..<K + s}" for v
  proof
    assume "v div s = vp ?A div s"
    from block_image [OF A s(2) this] have "v = vp (hhdm_no + (K + v mod s))"
      by (simp add: add.assoc)
    moreover have "K + v mod s \<in> {K..<K + s}"
      using s(2) by simp
    ultimately show False
      using that by blast
  qed
  have "xlate c st' v = xlate c st v \<and> flat c st' (path v) = flat c st (path v)"
    if "v < 2 ^ 36" "v \<notin> (\<lambda>k. vp (hhdm_no + k)) ` {K..<K + s}" for v
    using st'(2,3) [OF that(1)] outside [OF that(2)] by (simp only: if_False simp_thms)
  with mapped st'(1) show ?thesis
    unfolding hhdm_done_def by blast
qed

end
