(* ===== verification/Boot_Direct.thy ===== *)
theory Boot_Direct
  imports Boot_Hhdm
begin

unbundle bit_operations_syntax

text \<open>The three loops of \<open>map_hhdm_huge\<close> one after the other: the direct map of physical memory.\<close>

section \<open>Loops over huge pages\<close>

definition hhdm_bounds :: "u64 \<Rightarrow> bool" where
  "hhdm_bounds pm \<longleftrightarrow> page_aligned pm \<and> unat pm \<le> 2 ^ 46"

text \<open>The part \<open>lo .. hi - 1\<close> of the direct map has no page yet.\<close>

definition hhdm_free :: "u64 \<Rightarrow> nat \<Rightarrow> nat \<Rightarrow> PtState \<Rightarrow> bool" where
  "hhdm_free c lo hi st \<longleftrightarrow> (\<forall>k. lo \<le> k \<longrightarrow> k < hi \<longrightarrow> xlate c st (vp (hhdm_no + k)) = None)"

lemma hhdm_free_done:
  assumes "hhdm_free c lo hi st" "hhdm_done c lo mid st st'" "mid \<le> hi" "hi \<le> lo + 2 ^ 36" "lo \<le> mid"
  shows "hhdm_free c mid hi st'"
  unfolding hhdm_free_def
proof (intro allI impI)
  fix k assume k: "mid \<le> k" "k < hi"
  have "vp (hhdm_no + k) \<notin> (\<lambda>k. vp (hhdm_no + k)) ` {lo..<mid}"
    using vp_inj [of "hhdm_no + k"] k assms(4) by fastforce
  then have "xlate c st' (vp (hhdm_no + k)) = xlate c st (vp (hhdm_no + k))"
    using assms(2) vp_less unfolding hhdm_done_def by blast
  then show "xlate c st' (vp (hhdm_no + k)) = None"
    using assms(1,5) k unfolding hhdm_free_def by simp
qed

lemma hhdm_free_block:
  assumes "hhdm_free c K hi st" "K + s \<le> hi" "s dvd 2 ^ 18" "0 < s" "s dvd K"
  shows "block_free c s (vp (hhdm_no + K)) st"
  unfolding block_free_def
proof (intro allI impI)
  fix v assume v: "v div s = vp (hhdm_no + K) div s"
  have "s dvd hhdm_no + K" "s dvd 2 ^ 36"
    using dvd_trans [OF assms(3), of hhdm_no] dvd_trans [OF assms(3), of "2 ^ 36"] assms(5)
    by (simp_all add: hhdm_no_eq)
  from block_image [OF this assms(4) v] have "v = vp (hhdm_no + (K + v mod s))"
    by (simp only: add.assoc)
  moreover have "K \<le> K + v mod s" "K + v mod s < hi"
    using assms(2,4) mod_less_divisor [of s v] by linarith+
  ultimately show "xlate c st v = None"
    using assms(1) unfolding hhdm_free_def by metis
qed

lemma page_no_add:
  assumes "page_aligned p" "page_no p + s \<le> page_no pm" "hhdm_bounds pm"
  shows "unat (p + of_nat (s * 4096)) = unat p + s * 4096" "page_aligned (p + of_nat (s * 4096))"
    "page_no (p + of_nat (s * 4096)) = page_no p + s"
proof -
  have "unat p = page_no p * 4096" "unat pm = page_no pm * 4096" "unat pm \<le> 2 ^ 46"
    using assms(1,3) by (simp_all add: page_no_def hhdm_bounds_def)
  then have le: "unat p + s * 4096 \<le> 2 ^ 46"
    using assms(2) by linarith
  then have "unat (of_nat (s * 4096) :: u64) = s * 4096"
    by (intro unat_of_nat_64) simp
  then show un: "unat (p + of_nat (s * 4096)) = unat p + s * 4096"
    using le by (subst unat_add_ok) simp_all
  show "page_aligned (p + of_nat (s * 4096))" "page_no (p + of_nat (s * 4096)) = page_no p + s"
    unfolding page_no_def un using assms(1) by simp_all
qed

lemma hhdm_vpn:
  assumes "hhdm_bounds pm" "page_aligned p" "p \<le> pm"
  shows "u_add dbg HHDM_BASE p = Ok (HHDM_BASE + p)" "vpn (HHDM_BASE + p) = vp (hhdm_no + page_no p)"
    "unat (HHDM_BASE + p) = unat HHDM_BASE + unat p"
proof -
  have "unat p \<le> 2 ^ 46"
    using assms by (simp add: hhdm_bounds_def word_le_nat_alt)
  then have "unat HHDM_BASE + unat p < 2 ^ 64"
    by (simp add: HHDM_BASE_def)
  from hhdm_add [OF this] show "u_add dbg HHDM_BASE p = Ok (HHDM_BASE + p)"
    "vpn (HHDM_BASE + p) = vp (hhdm_no + page_no p)" "unat (HHDM_BASE + p) = unat HHDM_BASE + unat p"
    by (simp_all add: vpn_page_no)
qed

text \<open>Both loops map whole blocks of \<open>s\<close> pages while one fits below the bound.\<close>

definition block_loop_post :: "u64 \<Rightarrow> nat \<Rightarrow> u64 \<Rightarrow> u64 \<Rightarrow> PtState \<Rightarrow> (u64 \<times> PtState) option res \<Rightarrow> bool" where
  "block_loop_post c s pm p st r \<longleftrightarrow> (\<exists>q st'. r = Ok (Some (q, st')) \<and>
     page_aligned q \<and> p \<le> q \<and> q \<le> pm \<and> s dvd page_no q \<and> hhdm_done c (page_no p) (page_no q) st st' \<and>
     length (avail st) \<le> (page_no q - page_no p) + length (avail st'))"

locale block_loop =
  fixes c :: u64 and s :: nat and pg :: "u64 \<Rightarrow> u64 \<Rightarrow> unit ptm" and loop :: "u64 \<Rightarrow> u64 \<Rightarrow> u64 ptm"
  assumes s: "s dvd 2 ^ 18" "2 \<le> s"
    and stop: "\<lbrakk>hhdm_bounds pm; page_aligned p; s dvd page_no p; p \<le> pm; page_no pm < page_no p + s\<rbrakk> \<Longrightarrow>
      loop pm p st = Ok (Some (p, st))"
    and continue: "\<lbrakk>hhdm_bounds pm; page_aligned p; s dvd page_no p; p \<le> pm; page_no p + s \<le> page_no pm\<rbrakk> \<Longrightarrow>
      loop pm p st = tbind (pg (HHDM_BASE + p) p st) (\<lambda>_. loop pm (p + of_nat (s * 4096)))"
    and page: "\<lbrakk>pt_inv c st; block_free c s (vpn va) st; 2 \<le> length (avail st)\<rbrakk> \<Longrightarrow>
      block_post c s (vpn va) (phys AND ADDR_MASK) s st (pg va phys st)"
begin

lemma page_done:
  assumes p: "hhdm_bounds pm" "page_aligned p" "s dvd page_no p" "p \<le> pm" "page_no p + s \<le> page_no pm"
    and st: "pt_inv c st" "hhdm_free c (page_no p) (page_no pm) st" "s \<le> length (avail st)"
  obtains x st1 where "pg (HHDM_BASE + p) p st = Ok (Some (x, st1))" "pt_inv c st1"
    "hhdm_done c (page_no p) (page_no p + s) st st1" "length (avail st) \<le> s + length (avail st1)"
proof -
  note vpn = hhdm_vpn(2) [OF p(1,2,4)]
  have pos: "0 < s"
    using s(2) by simp
  have "block_free c s (vp (hhdm_no + page_no p)) st"
    by (rule hhdm_free_block [OF st(2) p(5) s(1) pos p(3)])
  then have post: "block_post c s (vp (hhdm_no + page_no p)) (p AND ADDR_MASK) s st (pg (HHDM_BASE + p) p st)"
    using page [OF st(1), of "HHDM_BASE + p" p] s(2) st(3) by (simp add: vpn)
  then obtain x st1 where st1: "pg (HHDM_BASE + p) p st = Ok (Some (x, st1))" "pt_inv c st1"
    "length (avail st) \<le> s + length (avail st1)"
    unfolding block_post_def by (rule pt_postE) blast
  have "page_no pm \<le> 2 ^ 34"
    using p(1) by (auto simp: hhdm_bounds_def page_no_def)
  then have "page_no p + s \<le> 2 ^ 40"
    using p(5) by simp
  moreover have "p AND ADDR_MASK = of_nat (page_no p * 4096) AND ADDR_MASK"
    by (simp only: page_word [OF p(2)])
  ultimately have "hhdm_done c (page_no p) (page_no p + s) st st1"
    using block_done [of c s "page_no p"] post s(1) pos p(3) st1(1) by metis
  with st1 show thesis
    using that by blast
qed

lemma loop_ok:
  assumes "hhdm_bounds pm" "page_aligned p" "s dvd page_no p" "p \<le> pm" "pt_inv c st"
    "hhdm_free c (page_no p) (page_no pm) st" "page_no pm - page_no p \<le> length (avail st)"
  shows "block_loop_post c s pm p st (loop pm p st)"
  using assms
proof (induction "page_no pm - page_no p" arbitrary: p st rule: less_induct)
  case less
  show ?case
  proof (cases "page_no p + s \<le> page_no pm")
    case False
    then show ?thesis
      using less.prems stop [of pm p st] hhdm_done_refl by (auto simp: block_loop_post_def)
  next
    case True
    let ?p = "p + of_nat (s * 4096)"
    have "s \<le> length (avail st)"
      using True less.prems(7) by linarith
    then obtain x st1 where st1: "pg (HHDM_BASE + p) p st = Ok (Some (x, st1))" "pt_inv c st1"
      "hhdm_done c (page_no p) (page_no p + s) st st1" "length (avail st) \<le> s + length (avail st1)"
      by (rule page_done [OF less.prems(1-4) True less.prems(5,6)])
    note add = page_no_add [OF less.prems(2) True less.prems(1)]
    have small: "page_no pm \<le> page_no p + 2 ^ 36"
      using less.prems(1) by (auto simp: hhdm_bounds_def page_no_def)
    have le: "?p \<le> pm" "p \<le> ?p"
      using True add less.prems(1,2) by (auto simp: word_le_nat_alt hhdm_bounds_def page_no_def elim!: dvdE)
    have free: "hhdm_free c (page_no ?p) (page_no pm) st1"
      using hhdm_free_done [OF less.prems(6) st1(3) True small] add(3) by simp
    have "block_loop_post c s pm ?p st1 (loop pm ?p st1)"
    proof (rule less.hyps [OF _ less.prems(1) add(2) _ le(1) st1(2) free])
      show "page_no pm - page_no ?p < page_no pm - page_no p"
        using True s(2) add(3) by linarith
      show "s dvd page_no ?p"
        using less.prems(3) add(3) by simp
      show "page_no pm - page_no ?p \<le> length (avail st1)"
        using less.prems(7) st1(4) True add(3) by linarith
    qed
    then obtain q st' where q: "loop pm ?p st1 = Ok (Some (q, st'))" "page_aligned q" "?p \<le> q" "q \<le> pm" "s dvd page_no q"
      "hhdm_done c (page_no p + s) (page_no q) st1 st'"
      "length (avail st1) \<le> (page_no q - (page_no p + s)) + length (avail st')"
      unfolding block_loop_post_def add(3) by blast
    have mono: "page_no p + s \<le> page_no q" "page_no q \<le> page_no pm"
      using q(3,4) add(3) by (auto simp: word_le_nat_alt page_no_def intro: div_le_mono dest: div_le_mono [of _ _ 4096])
    have "hhdm_done c (page_no p) (page_no q) st st'"
      using hhdm_done_trans [OF st1(3) q(6)] mono small by simp
    moreover have "loop pm p st = Ok (Some (q, st'))"
      using continue [OF less.prems(1-4) True] st1(1) q(1) by simp
    ultimately show ?thesis
      using q le(2) mono st1(4) unfolding block_loop_post_def by auto
  qed
qed

end

section \<open>The loops of the loader\<close>

lemma is_aligned_iff: "is_aligned x (2 ^ n) \<longleftrightarrow> 2 ^ n dvd unat x"
proof -
  have "x AND (2 ^ n - 1) = take_bit n x"
    by (simp only: take_bit_eq_mask mask_eq_exp_minus_1)
  then show ?thesis
    by (simp add: is_aligned_def word_unat_eq_iff unat_take_bit dvd_eq_mod_eq_0)
qed

lemma block_guards:
  assumes p: "hhdm_bounds pm" "page_aligned p" "2 ^ n dvd page_no p" "p \<le> pm" and n: "n \<le> 18"
  shows "is_aligned p (2 ^ (n + 12))" "is_aligned (HHDM_BASE + p) (2 ^ (n + 12))"
    "u_sub dbg pm p = Ok (pm - p)" "unat (pm - p) = (page_no pm - page_no p) * 4096"
    "p < pm \<longleftrightarrow> page_no p < page_no pm"
proof -
  have un: "unat p = 4096 * page_no p" "unat pm = 4096 * page_no pm"
    using p(1,2) by (simp_all add: page_no_def hhdm_bounds_def)
  have dvd: "2 ^ (n + 12) dvd unat p"
    unfolding un(1) power_add using mult_dvd_mono [OF p(3) dvd_refl [of 4096]] by (simp add: mult.commute)
  moreover have "2 ^ (n + 12) dvd unat HHDM_BASE"
    using le_imp_power_dvd [of "n + 12" 30 "2 :: nat"] n by (auto simp: HHDM_BASE_def intro: dvd_trans)
  ultimately show "is_aligned p (2 ^ (n + 12))" "is_aligned (HHDM_BASE + p) (2 ^ (n + 12))"
    unfolding is_aligned_iff hhdm_vpn(3) [OF p(1,2,4)] by simp_all
  show "u_sub dbg pm p = Ok (pm - p)"
    using p(4) by (rule u_sub_ok)
  show "unat (pm - p) = (page_no pm - page_no p) * 4096"
    using p(4) by (simp add: unat_sub un diff_mult_distrib2 mult.commute)
  show "p < pm \<longleftrightarrow> page_no p < page_no pm"
    by (simp add: word_less_nat_alt un)
qed

lemma next_block:
  assumes "page_aligned p" "page_no p + 2 ^ n \<le> page_no pm" "hhdm_bounds pm" "n \<le> 18"
  shows "u_add dbg p (2 ^ (n + 12)) = Ok (p + of_nat (2 ^ n * 4096))" "\<not> p + of_nat (2 ^ n * 4096) \<le> p"
proof -
  note add = page_no_add [OF assms(1-3)]
  have eq: "of_nat (2 ^ n * 4096) = (2 ^ (n + 12) :: u64)"
    by (simp add: power_add)
  have "2 ^ n * 4096 < (2 ^ 64 :: nat)"
    using power_increasing [OF assms(4), of "2 :: nat"] by simp
  then have "unat (2 ^ (n + 12) :: u64) = 2 ^ n * 4096"
    unfolding eq [symmetric] by (rule unat_of_nat_64)
  moreover have "unat p + 2 ^ n * 4096 < 18446744073709551616"
    using unat_less_64 [of "p + of_nat (2 ^ n * 4096)"] add(1) by linarith
  ultimately show "u_add dbg p (2 ^ (n + 12)) = Ok (p + of_nat (2 ^ n * 4096))"
    unfolding eq by (intro u_add_ok) simp
  show "\<not> p + of_nat (2 ^ n * 4096) \<le> p"
    by (simp only: word_le_nat_alt add(1)) simp
qed

lemma block_post_mono: "block_post c s v b n st r \<Longrightarrow> n \<le> m \<Longrightarrow> block_post c s v b m st r"
  unfolding block_post_def pt_post_def by (elim exE conjE, intro exI conjI) (assumption | linarith)+

interpretation gib: block_loop c "2 ^ 18" "hhdm_1g_page c" "hhdm_1g_loop dbg c"
proof unfold_locales
  fix pm p :: u64 and st :: PtState
  assume p: "hhdm_bounds pm" "page_aligned p" "2 ^ 18 dvd page_no p" "p \<le> pm"
  note g = block_guards [OF p, simplified]
  show "hhdm_1g_loop dbg c pm p st = Ok (Some (p, st))" if "page_no pm < page_no p + 2 ^ 18"
  proof -
    have "\<not> 2 ^ 30 \<le> pm - p"
      using that g(4) by (simp add: word_le_nat_alt)
    then show ?thesis
      by (subst hhdm_1g_loop.simps) (simp add: g(3))
  qed
  show "hhdm_1g_loop dbg c pm p st =
      tbind (hhdm_1g_page c (HHDM_BASE + p) p st) (\<lambda>_. hhdm_1g_loop dbg c pm (p + of_nat (2 ^ 18 * 4096)))"
    if le: "page_no p + 2 ^ 18 \<le> page_no pm"
  proof -
    have "2 ^ 30 \<le> pm - p" "p < pm"
      using le g(4,5) by (simp_all add: word_le_nat_alt)
    then show ?thesis
      using next_block [OF p(2) le p(1)] g hhdm_vpn(1) [OF p(1,2,4)]
      by (subst hhdm_1g_loop.simps) simp
  qed
next
  fix st va phys
  assume "pt_inv c st" "block_free c (2 ^ 18) (vpn va) st" "2 \<le> length (avail st)"
  then show "block_post c (2 ^ 18) (vpn va) (phys AND ADDR_MASK) (2 ^ 18) st (hhdm_1g_page c va phys st)"
    by (intro block_post_mono [OF hhdm_1g_page_ok]) (auto simp: length_greater_0_conv [symmetric] simp del: length_greater_0_conv)
qed simp_all

interpretation mib: block_loop c "2 ^ 9" "hhdm_2m_page c" "hhdm_2m_loop dbg c"
proof unfold_locales
  fix pm p :: u64 and st :: PtState
  assume p: "hhdm_bounds pm" "page_aligned p" "2 ^ 9 dvd page_no p" "p \<le> pm"
  note g = block_guards [OF p, simplified]
  show "hhdm_2m_loop dbg c pm p st = Ok (Some (p, st))" if "page_no pm < page_no p + 2 ^ 9"
  proof -
    have "\<not> 2 ^ 21 \<le> pm - p"
      using that g(4) by (simp add: word_le_nat_alt)
    then show ?thesis
      by (subst hhdm_2m_loop.simps) (simp add: g(3))
  qed
  show "hhdm_2m_loop dbg c pm p st =
      tbind (hhdm_2m_page c (HHDM_BASE + p) p st) (\<lambda>_. hhdm_2m_loop dbg c pm (p + of_nat (2 ^ 9 * 4096)))"
    if le: "page_no p + 2 ^ 9 \<le> page_no pm"
  proof -
    have "2 ^ 21 \<le> pm - p" "p < pm"
      using le g(4,5) by (simp_all add: word_le_nat_alt)
    then show ?thesis
      using next_block [OF p(2) le p(1)] g hhdm_vpn(1) [OF p(1,2,4)]
      by (subst hhdm_2m_loop.simps) simp
  qed
next
  fix st va phys
  assume "pt_inv c st" "block_free c (2 ^ 9) (vpn va) st" "2 \<le> length (avail st)"
  then show "block_post c (2 ^ 9) (vpn va) (phys AND ADDR_MASK) (2 ^ 9) st (hhdm_2m_page c va phys st)"
    by (intro block_post_mono [OF hhdm_2m_page_ok]) simp_all
qed simp_all

section \<open>The direct map\<close>

lemma range_post_done:
  assumes "range_post c (hhdm_no + lo) (hhdm_no + hi) (\<lambda>_. True) hhdm_page n st r"
  obtains x st' where "r = Ok (Some (x, st'))" "hhdm_done c lo hi st st'" "length (avail st) \<le> n + length (avail st')"
proof -
  obtain x st' where st': "r = Ok (Some (x, st'))" "pt_inv c st'"
    "\<And>k. hhdm_no + lo \<le> k \<Longrightarrow> k < hhdm_no + hi \<Longrightarrow> xlate c st' (vp k) = Some (hhdm_page k)"
    "\<And>v. v < 2 ^ 36 \<Longrightarrow> v \<notin> vp ` {k. hhdm_no + lo \<le> k \<and> k < hhdm_no + hi} \<Longrightarrow> xlate c st' v = xlate c st v"
    "\<And>v. v < 2 ^ 36 \<Longrightarrow> flat c st' (path v) = flat c st (path v)"
    "length (avail st) \<le> n + length (avail st')"
    using assms unfolding range_post_def by auto
  have image: "vp ` {k. hhdm_no + lo \<le> k \<and> k < hhdm_no + hi} = (\<lambda>k. vp (hhdm_no + k)) ` {lo..<hi}"
  proof -
    have "{k. hhdm_no + lo \<le> k \<and> k < hhdm_no + hi} = (\<lambda>k. hhdm_no + k) ` {lo..<hi}"
      by (auto simp: image_add_atLeastLessThan add.commute)
    then show ?thesis
      by (simp only: image_image)
  qed
  have "hhdm_done c lo hi st st'"
    using st'(2,5) st'(3) [of "hhdm_no + k" for k] st'(4) unfolding hhdm_done_def image
    by (simp add: hhdm_page_def)
  with st'(1,6) show thesis
    using that by blast
qed

lemma hhdm_tail_ok:
  assumes pm: "hhdm_bounds pm" and q: "page_aligned q" and st: "pt_inv c st" "hhdm_free c (page_no q) (page_no pm) st"
    "3 * (page_no pm - page_no q) \<le> length (avail st)"
  obtains x st' where "hhdm_4k_loop dbg c pm q st = Ok (Some (x, st'))" "hhdm_done c (page_no q) (page_no pm) st st'"
    "length (avail st) \<le> 3 * (page_no pm - page_no q) + length (avail st')"
proof -
  have E: "page_aligned pm \<and> unat HHDM_BASE + unat pm < 2 ^ 64"
    using pm by (simp add: hhdm_bounds_def HHDM_BASE_def)
  have small: "page_no pm \<le> page_no q + 2 ^ 36"
    using pm by (auto simp: hhdm_bounds_def page_no_def)
  have "hhdm.ready c pm q st"
    unfolding hhdm.ready_def
  proof (intro conjI allI impI)
    fix k assume k: "hhdm_no + page_no q \<le> k" "k < hhdm_no + page_no pm"
    then have "hhdm_no + (k - hhdm_no) = k" "page_no q \<le> k - hhdm_no" "k - hhdm_no < page_no pm"
      by linarith+
    then show none: "xlate c st (vp k) = None"
      using st(2) unfolding hhdm_free_def by metis
    show "flat c st (path (vp k))"
      using unmapped_flat [OF _ none] st(1) by (simp add: pt_inv_def)
  qed (use st in simp_all)
  then have "range_post c (hhdm_no + page_no q) (hhdm_no + page_no pm) (\<lambda>_. True) hhdm_page
      (3 * (page_no pm - page_no q)) st (hhdm_4k_loop dbg c pm q st)"
    using small by (intro hhdm.loop_ok [OF E _ q]) simp_all
  then show thesis
    by (rule range_post_done) (rule that)
qed

lemma block_loop_postE:
  assumes "block_loop_post c s pm p st r" "p \<le> pm"
  obtains q st' where "r = Ok (Some (q, st'))" "page_aligned q" "q \<le> pm" "s dvd page_no q" "pt_inv c st'"
    "page_no p \<le> page_no q" "page_no q \<le> page_no pm" "hhdm_done c (page_no p) (page_no q) st st'"
    "length (avail st) \<le> (page_no q - page_no p) + length (avail st')"
  using assms unfolding block_loop_post_def
  by (auto simp: page_no_def word_le_nat_alt div_le_mono hhdm_done_def)

lemma map_hhdm_huge_ok:
  assumes pm: "hhdm_bounds pm" and st: "pt_inv c st" "hhdm_free c 0 (page_no pm) st" "5 * page_no pm \<le> length (avail st)"
  obtains x st' where "map_hhdm_huge dbg c pm st = Ok (Some (x, st'))" "hhdm_done c 0 (page_no pm) st st'"
    "length (avail st) \<le> 5 * page_no pm + length (avail st')"
proof -
  have small: "page_no pm \<le> 2 ^ 34"
    using pm by (auto simp: hhdm_bounds_def page_no_def)
  have zero: "page_no 0 = 0"
    by (simp add: page_no_def)
  have "block_loop_post c (2 ^ 18) pm 0 st (hhdm_1g_loop dbg c pm 0 st)"
    using pm st by (intro gib.loop_ok) (simp_all add: zero)
  then obtain q1 st1 where q1: "hhdm_1g_loop dbg c pm 0 st = Ok (Some (q1, st1))" "page_aligned q1" "q1 \<le> pm"
    "2 ^ 18 dvd page_no q1" "pt_inv c st1" "page_no q1 \<le> page_no pm" "hhdm_done c 0 (page_no q1) st st1"
    "length (avail st) \<le> page_no q1 + length (avail st1)"
    by (rule block_loop_postE) (simp_all add: zero)
  have free1: "hhdm_free c (page_no q1) (page_no pm) st1"
    using hhdm_free_done [OF st(2) q1(7,6)] small by simp
  have "block_loop_post c (2 ^ 9) pm q1 st1 (hhdm_2m_loop dbg c pm q1 st1)"
    using dvd_trans [OF _ q1(4), of "2 ^ 9"] st(3) q1(8)
    by (intro mib.loop_ok [OF pm q1(2) _ q1(3,5) free1]) simp_all
  then obtain q2 st2 where q2: "hhdm_2m_loop dbg c pm q1 st1 = Ok (Some (q2, st2))" "page_aligned q2" "pt_inv c st2"
    "page_no q1 \<le> page_no q2" "page_no q2 \<le> page_no pm" "hhdm_done c (page_no q1) (page_no q2) st1 st2"
    "length (avail st1) \<le> (page_no q2 - page_no q1) + length (avail st2)"
    by (rule block_loop_postE [OF _ q1(3)])
  have free2: "hhdm_free c (page_no q2) (page_no pm) st2"
    using hhdm_free_done [OF free1 q2(6,5)] q2(4) small by simp
  have "3 * (page_no pm - page_no q2) \<le> length (avail st2)"
    using st(3) q1(8) q2(7,4,5) by linarith
  then obtain x st3 where st3: "hhdm_4k_loop dbg c pm q2 st2 = Ok (Some (x, st3))" "hhdm_done c (page_no q2) (page_no pm) st2 st3"
    "length (avail st2) \<le> 3 * (page_no pm - page_no q2) + length (avail st3)"
    by (rule hhdm_tail_ok [OF pm q2(2,3) free2])
  have "hhdm_done c 0 (page_no q2) st st2"
    using hhdm_done_trans [OF q1(7) q2(6)] q2(4,5) small by simp
  from hhdm_done_trans [OF this st3(2)] have "hhdm_done c 0 (page_no pm) st st3"
    using q2(5) small by simp
  moreover have "map_hhdm_huge dbg c pm st = Ok (Some (x, st3))"
    by (simp add: map_hhdm_huge_def q1(1) q2(1) st3(1))
  moreover have "length (avail st) \<le> 5 * page_no pm + length (avail st3)"
    using q1(8) q2(7,4,5) st3(3) by linarith
  ultimately show thesis
    using that by blast
qed

end
