(* ===== verification/Boot_Build.thy ===== *)
theory Boot_Build
  imports Boot_Direct
begin

unbundle bit_operations_syntax

text \<open>
  \<open>build_pagetables_exec\<close>: the kernel image, the identity map around it and the direct map of
  physical memory, in one address space.
\<close>

section \<open>Address spaces\<close>

text \<open>The translation is \<open>f\<close> and there is no huge page yet.\<close>

definition space :: "u64 \<Rightarrow> PtState \<Rightarrow> (nat \<Rightarrow> u64 option) \<Rightarrow> bool" where
  "space c st f \<longleftrightarrow> pt_inv c st \<and> (\<forall>v < 2 ^ 36. xlate c st v = f v \<and> flat c st (path v))"

definition outcome :: "u64 \<Rightarrow> (nat \<Rightarrow> u64 option) \<Rightarrow> nat \<Rightarrow> PtState \<Rightarrow> ('a \<times> PtState) option res \<Rightarrow> bool" where
  "outcome c f n st r \<longleftrightarrow> (\<exists>x st'. r = Ok (Some (x, st')) \<and> space c st' f \<and> length (avail st) \<le> n + length (avail st'))"

definition upd :: "nat \<Rightarrow> nat \<Rightarrow> (nat \<Rightarrow> bool) \<Rightarrow> (nat \<Rightarrow> u64) \<Rightarrow> (nat \<Rightarrow> u64 option) \<Rightarrow> nat \<Rightarrow> u64 option" where
  "upd lo hi P ph f v = (if lo \<le> v \<and> v < hi \<and> P v then Some (ph v) else f v)"

lemma outcomeE:
  assumes "outcome c f n st r"
  obtains x st' where "r = Ok (Some (x, st'))" "space c st' f" "length (avail st) \<le> n + length (avail st')"
  using assms unfolding outcome_def by blast

lemma outcome_skip: "space c st f \<Longrightarrow> outcome c f n st (Ok (Some (x, st)))"
  by (auto simp: outcome_def)

lemma outcome_cong: "outcome c f n st r \<Longrightarrow> (\<And>v. f v = g v) \<Longrightarrow> n \<le> m \<Longrightarrow> outcome c g m st r"
  by (fastforce simp: outcome_def space_def)

lemma vp_small: "k < 2 ^ 36 \<Longrightarrow> vp k = k"
  by (simp add: vp_def)

lemma range_outcome:
  assumes "space c st f" "range_post c lo hi P ph n st r" "hi \<le> 2 ^ 36"
  shows "outcome c (upd lo hi P ph f) n st r"
proof -
  obtain x st' where st': "r = Ok (Some (x, st'))" "pt_inv c st'"
    "\<And>k. lo \<le> k \<Longrightarrow> k < hi \<Longrightarrow> P k \<Longrightarrow> xlate c st' (vp k) = Some (ph k)"
    "\<And>v. v < 2 ^ 36 \<Longrightarrow> v \<notin> vp ` {k. lo \<le> k \<and> k < hi \<and> P k} \<Longrightarrow> xlate c st' v = xlate c st v"
    "\<And>v. v < 2 ^ 36 \<Longrightarrow> flat c st' (path v) = flat c st (path v)"
    "length (avail st) \<le> n + length (avail st')"
    using assms(2) unfolding range_post_def by blast
  have "vp ` {k. lo \<le> k \<and> k < hi \<and> P k} = (\<lambda>k. k) ` {k. lo \<le> k \<and> k < hi \<and> P k}"
    using assms(3) by (intro image_cong refl vp_small) auto
  then have image: "v \<notin> vp ` {k. lo \<le> k \<and> k < hi \<and> P k} \<longleftrightarrow> \<not> (lo \<le> v \<and> v < hi \<and> P v)" for v
    by auto
  have "xlate c st' v = upd lo hi P ph f v" if v: "v < 2 ^ 36" for v
  proof (cases "lo \<le> v \<and> v < hi \<and> P v")
    case True
    then show ?thesis
      using st'(3) [of v] vp_small [OF v] by (simp add: upd_def)
  next
    case False
    then have "xlate c st' v = xlate c st v"
      using st'(4) [OF v] image [of v] by blast
    also have "\<dots> = f v"
      using assms(1) v unfolding space_def by blast
    finally show ?thesis
      using False unfolding upd_def by presburger
  qed
  moreover have "flat c st' (path v)" if "v < 2 ^ 36" for v
    using st'(5) [OF that] assms(1) that unfolding space_def by blast
  ultimately show ?thesis
    using st'(1,2,6) unfolding outcome_def space_def by blast
qed

section \<open>The pieces\<close>

definition low_half :: "u64 \<Rightarrow> bool" where
  "low_half a \<longleftrightarrow> page_aligned a \<and> unat a \<le> 2 ^ 47"

lemma low_page_no: "low_half a \<Longrightarrow> page_no a \<le> 2 ^ 35"
  by (auto simp: low_half_def page_no_def)

lemma boot_align_up_aligned:
  assumes "low_half a"
  shows "boot_align_up dbg a 0x1000 = Ok a"
proof -
  have a: "page_aligned a" "unat a \<le> 2 ^ 47"
    using assms by (simp_all add: low_half_def)
  have "u_add dbg a 0x1000 = Ok (a + 0x1000)" "u_sub dbg (a + 0x1000) 1 = Ok (a + 0xFFF)"
    and un: "unat (a + 0xFFF) = unat a + 4095"
    using a(2) by (simp_all add: u_add_ok u_sub_ok unat_add_ok word_le_nat_alt)
  moreover have "unat ((a + 0xFFF) AND NOT 0xFFF) = unat a"
    using align_down_page [of "a + 0xFFF"] round_up_page [OF a(1)] by (simp add: align_down_def un)
  ultimately show ?thesis
    by (simp add: boot_align_up_def Let_def word_unat_eq_iff)
qed

lemma map_4k_offset_space:
  assumes "space c st f" "low_half s" "low_half e" "3 * (page_no e - page_no s) \<le> length (avail st)"
  shows "outcome c (upd (page_no s) (page_no e) (\<lambda>_. True) (offset_page delta) f) (3 * (page_no e - page_no s)) st
    (map_4k_offset dbg c s e delta st)"
proof -
  have al: "page_aligned s" "page_aligned e"
    using assms by (simp_all add: low_half_def)
  have le: "page_no e \<le> 2 ^ 36" "page_no e \<le> page_no s + 2 ^ 36"
    using low_page_no [OF assms(3)] by simp_all
  have "offset.ready c e s st"
    using assms(1,4) vp_less unfolding offset.ready_def space_def by simp
  from offset.loop_ok [OF al(2) this al(1) le(2), of delta dbg]
  have "range_post c (page_no s) (page_no e) (\<lambda>_. True) (offset_page delta) (3 * (page_no e - page_no s)) st
      (map_4k_offset_loop dbg c delta e s st)"
    by simp
  from range_outcome [OF assms(1) this le(1)] show ?thesis
    by (simp add: map_4k_offset_def boot_align_up_aligned [OF assms(3)] align_down_id [OF al(1)])
qed

lemma offset_page_0: "offset_page 0 = same_page"
  by (rule ext) (simp add: offset_page_def same_page_def)

lemma map_4k_ident_space:
  assumes "space c st f" "low_half s" "low_half e" "3 * (page_no e - page_no s) \<le> length (avail st)"
  shows "outcome c (upd (page_no s) (page_no e) (\<lambda>_. True) same_page f) (3 * (page_no e - page_no s)) st
    (map_4k_ident dbg c s e st)"
  using map_4k_offset_space [OF assms, of 0] by (simp add: map_4k_ident_def offset_page_0)

lemma ident_loop_space:
  assumes "space c st f" "low_half s" "low_half e" "low_half mn" "low_half mx"
    "3 * (page_no e - page_no s) \<le> length (avail st)"
    and free: "\<And>k. page_no s \<le> k \<Longrightarrow> k < page_no e \<Longrightarrow> \<not> (page_no mn \<le> k \<and> k < page_no mx) \<Longrightarrow> f k = None"
  shows "outcome c (upd (page_no s) (page_no e) (\<lambda>k. \<not> (page_no mn \<le> k \<and> k < page_no mx)) same_page f)
    (3 * (page_no e - page_no s)) st (ident_loop dbg c mn mx e s st)"
proof -
  have al: "page_aligned s" "page_aligned e \<and> page_aligned mn \<and> page_aligned mx"
    using assms by (simp_all add: low_half_def)
  have le: "page_no e \<le> 2 ^ 36" "page_no e \<le> page_no s + 2 ^ 36"
    using low_page_no [OF assms(3)] by simp_all
  have "ident.ready c e mn mx s st"
    unfolding ident.ready_def
  proof (intro conjI allI impI)
    fix k assume k: "0 + page_no s \<le> k" "k < 0 + page_no e" "\<not> (page_no mn \<le> k \<and> k < page_no mx)"
    have "vp k = k"
      using k(2) le(1) by (intro vp_small) simp
    then show "xlate c st (vp k) = None"
      using assms(1) free [of k] k vp_less [of k] unfolding space_def by simp
    show "flat c st (path (vp k))"
      using assms(1) vp_less [of k] unfolding space_def by blast
  qed (use assms(1,6) in \<open>simp_all add: space_def\<close>)
  from ident.loop_ok [OF al(2) this al(1) le(2), of dbg]
  have "range_post c (page_no s) (page_no e) (\<lambda>k. \<not> (page_no mn \<le> k \<and> k < page_no mx)) same_page
      (3 * (page_no e - page_no s)) st (ident_loop dbg c mn mx e s st)"
    by simp
  from range_outcome [OF assms(1) this le(1)] show ?thesis .
qed

end
