(* ===== verification/Boot_Exec.thy ===== *)
theory Boot_Exec
  imports Boot_Build
begin

unbundle bit_operations_syntax

text \<open>
  The address space \<open>build_pagetables_exec\<close> leaves behind, and what it means for the addresses
  the kernel uses.
\<close>

section \<open>The steps of the construction\<close>

lemma page_no_2m: "page_no 0x200000 = 512" "low_half 0x200000" "page_no 0x1000 = 1" "low_half 0x1000"
  by (simp_all add: page_no_def low_half_def)

lemma page_no_le: "low_half a \<Longrightarrow> low_half b \<Longrightarrow> a \<le> b \<longleftrightarrow> page_no a \<le> page_no b"
  using page_no_less [of b a] by (simp add: low_half_def not_less [symmetric])

lemma page_no_le_iff:
  assumes "low_half a"
  shows "a \<le> 0x200000 \<longleftrightarrow> page_no a \<le> 512" "a < 0x200000 \<longleftrightarrow> page_no a < 512" "0 < a \<longleftrightarrow> 0 < page_no a"
  using page_no_le [OF assms page_no_2m(2)] page_no_less [of a "0x200000"] page_no_less [of 0 a] assms
  by (simp_all add: low_half_def page_no_2m(1)) (simp_all add: page_no_def)

lemma low_half_min_max:
  assumes "low_half a" "low_half b"
  shows "low_half (min a b)" "low_half (max a b)" "page_no (min a b) = min (page_no a) (page_no b)"
    "page_no (max a b) = max (page_no a) (page_no b)"
  using assms page_no_le [OF assms] by (auto simp: min_def max_def)

lemma kernel_step:
  assumes low: "low_half mn" "low_half mx" and mono: "mn < mx"
    and sp: "space c st (\<lambda>_. None)" and av: "3 * (page_no mx - page_no mn) \<le> length (avail st)"
  obtains x st1 where "(if mn < 0x200000 then map_4k_offset dbg c mn (min mx 0x200000) d st else Ok (Some ((), st))) =
      Ok (Some (x, st1))"
    and "outcome c (upd (page_no mn) (page_no mx) (\<lambda>_. True) (offset_page d) (\<lambda>_. None)) (3 * (page_no mx - page_no mn)) st
      (map_4k_offset dbg c (max 0x200000 mn) mx d st1)"
proof -
  let ?mid = "min (page_no mx) 512" and ?start = "max 512 (page_no mn)"
  let ?f1 = "upd (page_no mn) ?mid (\<lambda>_. True) (offset_page d) (\<lambda>_. None)"
  note mm = low_half_min_max [OF low(2) page_no_2m(2)] low_half_min_max [OF page_no_2m(2) low(1)]
  have le: "page_no mn < page_no mx"
    using mono page_no_le [OF low(2,1)] by (simp add: not_le [symmetric])
  have "outcome c ?f1 (3 * (?mid - page_no mn)) st
      (if mn < 0x200000 then map_4k_offset dbg c mn (min mx 0x200000) d st else Ok (Some ((), st)))"
  proof (cases "page_no mn < 512")
    case True
    then show ?thesis
      using map_4k_offset_space [OF sp low(1) mm(1), of d dbg] av page_no_le_iff(2) [OF low(1)] mm(3) page_no_2m(1)
      by (simp add: min_def split: if_splits)
  next
    case False
    then have "upd (page_no mn) ?mid (\<lambda>_. True) (offset_page d) (\<lambda>_. None) = (\<lambda>_. None)"
      by (auto simp: upd_def)
    then show ?thesis
      using False outcome_skip [OF sp] page_no_le_iff(2) [OF low(1)] by simp
  qed
  then obtain x st1 where st1: "(if mn < 0x200000 then map_4k_offset dbg c mn (min mx 0x200000) d st else Ok (Some ((), st))) =
      Ok (Some (x, st1))" "space c st1 ?f1" "length (avail st) \<le> 3 * (?mid - page_no mn) + length (avail st1)"
    by (rule outcomeE)
  have bound: "3 * (page_no mx - ?start) + 3 * (?mid - page_no mn) \<le> 3 * (page_no mx - page_no mn)"
    using le by (auto simp: min_def max_def)
  then have "outcome c (upd ?start (page_no mx) (\<lambda>_. True) (offset_page d) ?f1) (3 * (page_no mx - ?start)) st1
      (map_4k_offset dbg c (max 0x200000 mn) mx d st1)"
    using map_4k_offset_space [OF st1(2) mm(6) low(2), of d dbg] av st1(3) mm(8) page_no_2m(1) by simp
  then have "outcome c (upd (page_no mn) (page_no mx) (\<lambda>_. True) (offset_page d) (\<lambda>_. None)) (3 * (page_no mx - page_no mn)) st
      (map_4k_offset dbg c (max 0x200000 mn) mx d st1)"
  proof (rule outcomeE)
    fix y st2
    assume st2: "map_4k_offset dbg c (max 0x200000 mn) mx d st1 = Ok (Some (y, st2))"
      "space c st2 (upd ?start (page_no mx) (\<lambda>_. True) (offset_page d) ?f1)"
      "length (avail st1) \<le> 3 * (page_no mx - ?start) + length (avail st2)"
    have "upd ?start (page_no mx) (\<lambda>_. True) (offset_page d) ?f1 =
        upd (page_no mn) (page_no mx) (\<lambda>_. True) (offset_page d) (\<lambda>_. None)"
      by (rule ext) (auto simp: upd_def)
    then show ?thesis
      using st1(3) st2 bound unfolding outcome_def by auto
  qed
  with st1(1) show thesis
    by (rule that)
qed

text \<open>The kernel's pages go to the load address, the pages \<open>lo .. hi - 1\<close> around it to themselves.\<close>

definition with_ident :: "nat \<Rightarrow> nat \<Rightarrow> nat \<Rightarrow> (nat \<Rightarrow> u64) \<Rightarrow> nat \<Rightarrow> nat \<Rightarrow> u64 option" where
  "with_ident hi kl kh ph lo v =
     (if kl \<le> v \<and> v < kh then Some (ph v) else if lo \<le> v \<and> v < hi then Some (same_page v) else None)"

lemma low_ident_step:
  assumes low: "low_half mn" "low_half mx" and mono: "mn < mx"
    and sp: "space c st (upd (page_no mn) (page_no mx) (\<lambda>_. True) ph (\<lambda>_. None))" and av: "3072 \<le> length (avail st)"
  obtains x st1 where "(if 0 < min mn 0x200000 then map_4k_ident dbg c 0x1000 (min mn 0x200000) st else Ok (Some ((), st))) =
      Ok (Some (x, st1))"
    and "outcome c (with_ident 512 (page_no mn) (page_no mx) ph 1) 3072 st
      (if mx < 0x200000 then map_4k_ident dbg c mx 0x200000 st1 else Ok (Some ((), st1)))"
proof -
  let ?k = "upd (page_no mn) (page_no mx) (\<lambda>_. True) ph (\<lambda>_. None)"
  let ?m = "min (page_no mn) 512"
  let ?f1 = "upd 1 ?m (\<lambda>_. True) same_page ?k"
  note mm = low_half_min_max [OF low(1) page_no_2m(2)]
  have le: "page_no mn < page_no mx"
    using mono page_no_le [OF low(2,1)] by (simp add: not_le [symmetric])
  have "outcome c ?f1 1536 st
      (if 0 < min mn 0x200000 then map_4k_ident dbg c 0x1000 (min mn 0x200000) st else Ok (Some ((), st)))"
  proof (cases "0 < min mn 0x200000")
    case True
    have "outcome c ?f1 (3 * (?m - 1)) st (map_4k_ident dbg c 0x1000 (min mn 0x200000) st)"
      using map_4k_ident_space [OF sp page_no_2m(4) mm(1), of dbg] av mm(3) page_no_2m by simp
    then show ?thesis
      using True by (auto elim!: outcome_cong)
  next
    case False
    then have "page_no mn = 0"
      using page_no_le_iff(3) [OF low(1)] by (auto simp: min_def split: if_splits)
    then have "?f1 = ?k"
      by (auto simp: upd_def)
    then show ?thesis
      using False outcome_skip [OF sp] by simp
  qed
  then obtain x st1 where st1: "(if 0 < min mn 0x200000 then map_4k_ident dbg c 0x1000 (min mn 0x200000) st
      else Ok (Some ((), st))) = Ok (Some (x, st1))" "space c st1 ?f1" "length (avail st) \<le> 1536 + length (avail st1)"
    by (rule outcomeE)
  have "outcome c (with_ident 512 (page_no mn) (page_no mx) ph 1) 1536 st1
      (if mx < 0x200000 then map_4k_ident dbg c mx 0x200000 st1 else Ok (Some ((), st1)))"
  proof (cases "page_no mx < 512")
    case True
    have "outcome c (upd (page_no mx) 512 (\<lambda>_. True) same_page ?f1) (3 * (512 - page_no mx)) st1
        (map_4k_ident dbg c mx 0x200000 st1)"
      using map_4k_ident_space [OF st1(2) low(2) page_no_2m(2), of dbg] av st1(3) page_no_2m by simp
    then have "outcome c (with_ident 512 (page_no mn) (page_no mx) ph 1) 1536 st1 (map_4k_ident dbg c mx 0x200000 st1)"
      by (rule outcome_cong) (use True le in \<open>auto simp: upd_def with_ident_def\<close>)
    then show ?thesis
      using True page_no_le_iff(2) [OF low(2)] by simp
  next
    case False
    then have "?f1 = with_ident 512 (page_no mn) (page_no mx) ph 1"
      by (auto simp: upd_def with_ident_def)
    then show ?thesis
      using False page_no_le_iff(2) [OF low(2)] outcome_skip [OF st1(2)] by simp
  qed
  then have "outcome c (with_ident 512 (page_no mn) (page_no mx) ph 1) 3072 st
      (if mx < 0x200000 then map_4k_ident dbg c mx 0x200000 st1 else Ok (Some ((), st1)))"
    using st1(3) unfolding outcome_def by fastforce
  with st1(1) show thesis
    by (rule that)
qed

lemma high_ident_step:
  assumes low: "low_half mn" "low_half mx" "low_half e" and sp: "space c st (with_ident 512 (page_no mn) (page_no mx) ph 1)"
    and av: "3 * page_no e \<le> length (avail st)"
  shows "outcome c (with_ident (max 512 (page_no e)) (page_no mn) (page_no mx) ph 1) (3 * page_no e) st
    (ident_loop dbg c mn mx e (max 0x200000 0) st)"
proof -
  have "outcome c (upd 512 (page_no e) (\<lambda>k. \<not> (page_no mn \<le> k \<and> k < page_no mx)) same_page
      (with_ident 512 (page_no mn) (page_no mx) ph 1)) (3 * (page_no e - 512)) st (ident_loop dbg c mn mx e 0x200000 st)"
    using ident_loop_space [OF sp page_no_2m(2) low(3,1,2), of dbg] av by (auto simp: page_no_2m with_ident_def)
  then show ?thesis
    by (auto simp: upd_def with_ident_def max_def elim!: outcome_cong)
qed

section \<open>The first table\<close>

definition supply_ok :: "u64 list \<Rightarrow> bool" where
  "supply_ok ps \<longleftrightarrow> distinct ps \<and> (\<forall>p \<in> set ps. page_aligned p \<and> unat p < 2 ^ 52)"

lemma first_table:
  assumes "supply_ok (avail st)" "avail st \<noteq> []"
  obtains c st1 where "alloc_zero_page_low st = Ok (Some (c, st1))" "space c st1 (\<lambda>_. None)"
    "length (avail st) = Suc (length (avail st1))"
proof -
  obtain c ps where ps: "avail st = c # ps"
    using assms(2) by (cases "avail st") auto
  let ?st = "st\<lparr>pmem := (pmem st)(c := (\<lambda>_. 0)), avail := ps\<rparr>"
  have follow: "follow (pmem ?st) c p = (if p = [] then Some c else None)" for p
    by (cases p) simp_all
  have leaf: "leaf (pmem ?st) c w = None" for w
    by (rule leaf_zero) simp
  have "pt_inv c ?st"
    using assms(1) unfolding pt_inv_def tree_ok_def dense_def follow by (auto simp: ps supply_ok_def)
  then have "space c ?st (\<lambda>_. None)"
    unfolding space_def xlate_def flat_def leaf by simp
  moreover have "alloc_zero_page_low st = Ok (Some (c, ?st))"
    by (simp add: alloc_zero_page_low_def ps)
  ultimately show thesis
    using that ps by simp
qed

section \<open>The whole construction, page by page\<close>

lemma boot_align_up_round:
  assumes "unat a + 4096 \<le> 2 ^ m" "m \<le> 47" "12 \<le> m"
  obtains e where "boot_align_up dbg a 0x1000 = Ok e" "page_aligned e" "unat e \<le> 2 ^ m" "a \<le> e" "low_half e"
    "unat e < unat a + 4096"
proof -
  have m: "(2 :: nat) ^ m \<le> 2 ^ 47"
    using assms(2) by (intro power_increasing) simp_all
  then have a: "unat a + 4096 \<le> 2 ^ 47"
    using assms(1) by linarith
  have add: "u_add dbg a 0x1000 = Ok (a + 0x1000)" "u_sub dbg (a + 0x1000) 1 = Ok (a + 0xFFF)"
    and un: "unat (a + 0xFFF) = unat a + 4095"
    using a by (simp_all add: u_add_ok u_sub_ok unat_add_ok word_le_nat_alt)
  let ?e = "(a + 0xFFF) AND NOT 0xFFF"
  have e: "unat ?e = (unat a + 4095) - (unat a + 4095) mod 4096"
    using align_down_page [of "a + 0xFFF"] by (simp add: align_down_def un)
  have "page_aligned ?e"
    unfolding e by (rule dvd_minus_mod)
  moreover have "unat a \<le> unat ?e" "unat ?e < unat a + 4096"
    unfolding e using mod_less_divisor [of 4096 "unat a + 4095"] by linarith+
  moreover from this have "unat ?e \<le> 2 ^ m"
    using assms(1) by linarith
  ultimately show thesis
    using m by (intro that [of ?e]) (simp_all add: boot_align_up_def Let_def add low_half_def word_le_nat_alt)
qed

lemma hhdm_vp:
  assumes "k < 2 ^ 34"
  shows "vp (hhdm_no + k) = 0x888000000 + k"
proof -
  have "hhdm_no + k = (0x888000000 + k) + 65535 * 2 ^ 36"
    by (simp add: hhdm_no_eq)
  then have "vp (hhdm_no + k) = (0x888000000 + k) mod 2 ^ 36"
    by (simp only: vp_def mod_mult_self1)
  then show ?thesis
    using assms by simp
qed

text \<open>The translation of every page the loader can reach, and that the construction succeeds.\<close>

definition exec_pages :: "u64 \<Rightarrow> u64 \<Rightarrow> u64 \<Rightarrow> nat \<Rightarrow> nat \<Rightarrow> nat \<Rightarrow> u64 option" where
  "exec_pages load_base mn mx ie pm v =
     (if 0x888000000 \<le> v \<and> v < 0x888000000 + pm then Some (same_page (v - 0x888000000))
      else with_ident (max 512 ie) (page_no mn) (page_no mx) (offset_page (uint load_base - uint mn)) 1 v)"

definition exec_supply :: "u64 \<Rightarrow> u64 \<Rightarrow> nat \<Rightarrow> nat \<Rightarrow> nat" where
  "exec_supply mn mx ie pm = 3073 + 3 * (page_no mx - page_no mn) + 3 * ie + 5 * pm"

lemma hhdm_step:
  assumes low: "low_half mx" "low_half e" and pm: "hhdm_bounds pm" and av: "5 * page_no pm \<le> length (avail st)"
    and sp: "space c st (with_ident (max 512 (page_no e)) (page_no mn) (page_no mx) (offset_page (uint load_base - uint mn)) 1)"
  obtains x st' where "map_hhdm_huge dbg c pm st = Ok (Some (x, st'))"
    "\<And>v. v < 2 ^ 36 \<Longrightarrow> xlate c st' v = exec_pages load_base mn mx (page_no e) (page_no pm) v"
proof -
  let ?f = "with_ident (max 512 (page_no e)) (page_no mn) (page_no mx) (offset_page (uint load_base - uint mn)) 1"
  have small: "page_no pm \<le> 2 ^ 34"
    using pm by (auto simp: hhdm_bounds_def page_no_def)
  have high: "?f v = None" if "2 ^ 35 \<le> v" for v
    using low_page_no [OF low(1)] low_page_no [OF low(2)] that by (simp add: with_ident_def max_def)
  have inv: "pt_inv c st" and xl: "\<And>v. v < 2 ^ 36 \<Longrightarrow> xlate c st v = ?f v"
    using sp by (simp_all add: space_def)
  have "hhdm_free c 0 (page_no pm) st"
    unfolding hhdm_free_def
  proof (intro allI impI)
    fix k assume "k < page_no pm"
    then have "2 ^ 35 \<le> vp (hhdm_no + k)"
      using small hhdm_vp [of k] by simp
    then show "xlate c st (vp (hhdm_no + k)) = None"
      using xl [OF vp_less] high by simp
  qed
  then obtain x st' where st': "map_hhdm_huge dbg c pm st = Ok (Some (x, st'))" "hhdm_done c 0 (page_no pm) st st'"
    by (rule map_hhdm_huge_ok [OF pm inv _ av])
  have "xlate c st' v = exec_pages load_base mn mx (page_no e) (page_no pm) v" if v: "v < 2 ^ 36" for v
  proof (cases "0x888000000 \<le> v \<and> v < 0x888000000 + page_no pm")
    case True
    then obtain k where k: "v = 0x888000000 + k" "k < page_no pm"
      by (metis le_Suc_ex nat_add_left_cancel_less)
    then have "xlate c st' (vp (hhdm_no + k)) = Some (same_page k)"
      using st'(2) unfolding hhdm_done_def by blast
    then show ?thesis
      using k small hhdm_vp [of k] by (simp add: exec_pages_def)
  next
    case False
    have "v \<notin> (\<lambda>k. vp (hhdm_no + k)) ` {0..<page_no pm}"
      using False small hhdm_vp by auto
    then have "xlate c st' v = ?f v"
      using st'(2) v xl unfolding hhdm_done_def by auto
    then show ?thesis
      using False unfolding exec_pages_def by presburger
  qed
  with st'(1) show thesis
    by (rule that)
qed

lemma build_pages:
  assumes free: "supply_ok (avail st)" "exec_supply mn mx (page_no ie) (page_no pm) \<le> length (avail st)"
    and low: "low_half mn" "low_half mx" "mn < mx" "low_half ie" and pm: "hhdm_bounds pm"
    and up: "boot_align_up dbg ident_bytes 0x1000 = Ok ie" "boot_align_up dbg phys_max 0x1000 = Ok pm"
  obtains c st' where "build_pagetables_exec dbg load_base mn mx ident_bytes phys_max st = Ok (Some (c, st'))"
    "\<And>v. v < 2 ^ 36 \<Longrightarrow> xlate c st' v = exec_pages load_base mn mx (page_no ie) (page_no pm) v"
proof -
  let ?d = "uint load_base - uint mn"
  note need = free(2) [unfolded exec_supply_def]
  have "avail st \<noteq> []"
    using need by auto
  then obtain c st1 where 1: "alloc_zero_page_low st = Ok (Some (c, st1))" "space c st1 (\<lambda>_. None)"
    "length (avail st) = Suc (length (avail st1))"
    by (rule first_table [OF free(1)])
  have "3 * (page_no mx - page_no mn) \<le> length (avail st1)"
    using need 1(3) by linarith
  then obtain x2 st2 where 2: "(if mn < 0x200000 then map_4k_offset dbg c mn (min mx 0x200000) ?d st1
      else Ok (Some ((), st1))) = Ok (Some (x2, st2))"
    "outcome c (upd (page_no mn) (page_no mx) (\<lambda>_. True) (offset_page ?d) (\<lambda>_. None)) (3 * (page_no mx - page_no mn)) st1
      (map_4k_offset dbg c (max 0x200000 mn) mx ?d st2)"
    by (rule kernel_step [OF low(1-3) 1(2)])
  from 2(2) obtain x3 st3 where 3: "map_4k_offset dbg c (max 0x200000 mn) mx ?d st2 = Ok (Some (x3, st3))"
    "space c st3 (upd (page_no mn) (page_no mx) (\<lambda>_. True) (offset_page ?d) (\<lambda>_. None))"
    "length (avail st1) \<le> 3 * (page_no mx - page_no mn) + length (avail st3)"
    by (rule outcomeE)
  have "3072 \<le> length (avail st3)"
    using need 1(3) 3(3) by linarith
  then obtain x4 st4 where 4: "(if 0 < min mn 0x200000 then map_4k_ident dbg c 0x1000 (min mn 0x200000) st3
      else Ok (Some ((), st3))) = Ok (Some (x4, st4))"
    "outcome c (with_ident 512 (page_no mn) (page_no mx) (offset_page ?d) 1) 3072 st3
      (if mx < 0x200000 then map_4k_ident dbg c mx 0x200000 st4 else Ok (Some ((), st4)))"
    by (rule low_ident_step [OF low(1-3) 3(2)])
  from 4(2) obtain x5 st5 where 5: "(if mx < 0x200000 then map_4k_ident dbg c mx 0x200000 st4 else Ok (Some ((), st4))) =
      Ok (Some (x5, st5))" "space c st5 (with_ident 512 (page_no mn) (page_no mx) (offset_page ?d) 1)"
    "length (avail st3) \<le> 3072 + length (avail st5)"
    by (rule outcomeE)
  have "3 * page_no ie \<le> length (avail st5)"
    using need 1(3) 3(3) 5(3) by linarith
  from high_ident_step [OF low(1,2,4) 5(2) this, of dbg]
  obtain x6 st6 where 6: "ident_loop dbg c mn mx ie (max 0x200000 0) st5 = Ok (Some (x6, st6))"
    "space c st6 (with_ident (max 512 (page_no ie)) (page_no mn) (page_no mx) (offset_page ?d) 1)"
    "length (avail st5) \<le> 3 * page_no ie + length (avail st6)"
    by (rule outcomeE)
  have "5 * page_no pm \<le> length (avail st6)"
    using need 1(3) 3(3) 5(3) 6(3) by linarith
  then obtain x7 st7 where 7: "map_hhdm_huge dbg c pm st6 = Ok (Some (x7, st7))"
    "\<And>v. v < 2 ^ 36 \<Longrightarrow> xlate c st7 v = exec_pages load_base mn mx (page_no ie) (page_no pm) v"
    by (rule hhdm_step [OF low(2,4) pm _ 6(2)]) (rule that)
  have "build_pagetables_exec dbg load_base mn mx ident_bytes phys_max st = Ok (Some (c, st7))"
    unfolding build_pagetables_exec_def Let_def 1(1) tbind_Ok 2(1) 3(1) 4(1) 5(1) up rbind.simps 6(1) 7(1) by (rule refl)
  with 7(2) show thesis
    using that by blast
qed

section \<open>Byte addresses\<close>

text \<open>The hardware walk of a virtual address: the page of its translation and the offset in it.\<close>

definition walk :: "u64 \<Rightarrow> PtState \<Rightarrow> u64 \<Rightarrow> u64 option" where
  "walk c st va = map_option (\<lambda>b. b + (va AND 0xFFF)) (xlate c st (vpn va))"

lemma page_offset: "va AND 0xFFF = of_nat (unat va mod 4096)"
proof -
  have "va AND 0xFFF = take_bit 12 va"
    by (simp add: take_bit_eq_mask mask_eq_exp_minus_1)
  then have "unat va mod 4096 = unat (va AND 0xFFF)"
    using unat_take_bit [of 12 va] by simp
  then show ?thesis
    by (simp only:) simp
qed

lemma page_split: "of_nat (page_no va * 4096) + (va AND 0xFFF) = va"
proof -
  have "of_nat (page_no va * 4096) + of_nat (unat va mod 4096) = (of_nat (page_no va * 4096 + unat va mod 4096) :: u64)"
    by (simp only: of_nat_add)
  also have "page_no va * 4096 + unat va mod 4096 = unat va"
    by (simp add: page_no_def)
  finally show ?thesis
    by (simp add: page_offset)
qed

lemma walk_same:
  assumes "xlate c st (vpn va) = Some (same_page (page_no p))" "page_no p < 2 ^ 40" "unat va mod 4096 = unat p mod 4096"
  shows "walk c st va = Some p"
  using assms page_split [of p] by (simp add: walk_def same_page_eq page_offset)

lemma offset_page_eq:
  assumes "page_aligned mn" "page_aligned lb" "page_no mn \<le> k" "unat lb + (k - page_no mn) * 4096 < 2 ^ 52"
  shows "offset_page (uint lb - uint mn) k = lb + of_nat ((k - page_no mn) * 4096)"
proof -
  let ?p = "lb + of_nat ((k - page_no mn) * 4096)"
  have "unat (of_nat ((k - page_no mn) * 4096) :: u64) = (k - page_no mn) * 4096"
    using assms(4) by (intro unat_of_nat_64) simp
  then have un: "unat ?p = unat lb + (k - page_no mn) * 4096"
    using assms(4) by (subst unat_add_ok) simp_all
  have "int k * 4096 + (uint lb - uint mn) = uint lb + int ((k - page_no mn) * 4096)"
    using assms(3) by (simp add: uint_page [OF assms(1)] of_nat_diff algebra_simps)
  then have "word_of_int (int k * 4096 + (uint lb - uint mn)) = ?p"
    by (simp only: of_int_add of_int_of_nat_eq word_of_int_uint)
  moreover have "?p AND ADDR_MASK = ?p"
    using assms(2,4) by (intro table_addr_mask) (simp_all only: un, simp_all)
  ultimately show ?thesis
    unfolding offset_page_def by (simp only:)
qed

lemma walk_kernel:
  assumes xl: "xlate c st (vpn va) = Some (offset_page (uint lb - uint mn) (page_no va))"
    and al: "page_aligned mn" "page_aligned lb" and va: "mn \<le> va" "unat lb + (unat va - unat mn) < 2 ^ 52"
  shows "walk c st va = Some (lb + (va - mn))"
proof -
  have mn: "unat mn = page_no mn * 4096"
    using al(1) by (simp add: page_no_def)
  have split: "unat va = page_no va * 4096 + unat va mod 4096"
    by (simp add: page_no_def)
  have le: "page_no mn \<le> page_no va" "unat mn \<le> unat va"
    using va(1) by (simp_all add: page_no_def word_le_nat_alt div_le_mono)
  have diff: "unat va - unat mn = (page_no va - page_no mn) * 4096 + unat va mod 4096"
    using split mn le by (simp add: diff_mult_distrib)
  have page: "offset_page (uint lb - uint mn) (page_no va) = lb + of_nat ((page_no va - page_no mn) * 4096)"
    using va(2) diff by (intro offset_page_eq [OF al le(1)]) linarith
  have "va - mn = of_nat (unat va - unat mn)"
    using le(2) by (simp add: of_nat_diff)
  also have "\<dots> = of_nat ((page_no va - page_no mn) * 4096) + (va AND 0xFFF)"
    unfolding diff page_offset by (rule of_nat_add)
  finally show ?thesis
    by (simp add: walk_def xl page add.assoc)
qed

section \<open>Properties\<close>

text \<open>
  What the loader passes: a page-aligned kernel image in the lower half at an aligned load
  address, an identity range and a physical memory size that leave the halves apart.
\<close>

definition exec_layout :: "u64 \<Rightarrow> u64 \<Rightarrow> u64 \<Rightarrow> u64 \<Rightarrow> u64 \<Rightarrow> bool" where
  "exec_layout load_base mn mx ident_bytes phys_max \<longleftrightarrow>
     low_half mn \<and> low_half mx \<and> mn < mx \<and> page_aligned load_base \<and>
     unat load_base + (unat mx - unat mn) \<le> 2 ^ 52 \<and>
     unat ident_bytes + 4096 \<le> 2 ^ 47 \<and> unat phys_max + 4096 \<le> 2 ^ 46"

definition enough_pages :: "u64 \<Rightarrow> u64 \<Rightarrow> u64 \<Rightarrow> u64 \<Rightarrow> PtState \<Rightarrow> bool" where
  "enough_pages mn mx ident_bytes phys_max st \<longleftrightarrow> supply_ok (avail st) \<and>
     exec_supply mn mx (Suc (page_no ident_bytes)) (Suc (page_no phys_max)) \<le> length (avail st)"

lemma page_no_round:
  assumes "page_aligned e" "a \<le> e" "unat e < unat a + 4096"
  shows "page_no e \<le> Suc (page_no a)" "va < a \<Longrightarrow> page_no va < page_no e"
proof -
  have "unat e div 4096 \<le> (unat a + 4096) div 4096"
    using assms(3) by (intro div_le_mono) simp
  then show "page_no e \<le> Suc (page_no a)"
    by (simp add: page_no_def)
  show "page_no va < page_no e" if "va < a"
  proof -
    have "unat va < unat e"
      using that assms(2) by (simp add: word_less_nat_alt word_le_nat_alt)
    then show ?thesis
      using assms(1) by (auto simp: page_no_def less_mult_imp_div_less mult.commute elim!: dvdE)
  qed
qed

text \<open>The two rounded bounds and the tables, for any layout the loader passes.\<close>

lemma build_layout:
  assumes lay: "exec_layout load_base mn mx ident_bytes phys_max" and sup: "enough_pages mn mx ident_bytes phys_max st"
  obtains c st' ie pm where "build_pagetables_exec dbg load_base mn mx ident_bytes phys_max st = Ok (Some (c, st'))"
    "\<And>v. v < 2 ^ 36 \<Longrightarrow> xlate c st' v = exec_pages load_base mn mx ie pm v"
    "\<And>va. va < ident_bytes \<Longrightarrow> page_no va < ie" "\<And>p. p < phys_max \<Longrightarrow> page_no p < pm" "pm \<le> 2 ^ 34" "ie \<le> 2 ^ 35"
proof -
  note l = lay [unfolded exec_layout_def]
  obtain ie where ie: "boot_align_up dbg ident_bytes 0x1000 = Ok ie" "page_aligned ie" "ident_bytes \<le> ie" "low_half ie"
    "unat ie < unat ident_bytes + 4096"
    by (rule boot_align_up_round [of ident_bytes 47 dbg]) (use l in auto)
  obtain pm where pm: "boot_align_up dbg phys_max 0x1000 = Ok pm" "page_aligned pm" "unat pm \<le> 2 ^ 46" "phys_max \<le> pm"
    "unat pm < unat phys_max + 4096"
    by (rule boot_align_up_round [of phys_max 46 dbg]) (use l in auto)
  note ri = page_no_round [OF ie(2,3,5)] and rp = page_no_round [OF pm(2,4,5)]
  have av: "supply_ok (avail st)" "exec_supply mn mx (page_no ie) (page_no pm) \<le> length (avail st)"
    using sup ri(1) rp(1) unfolding enough_pages_def exec_supply_def by auto
  have hb: "hhdm_bounds pm"
    using pm by (simp add: hhdm_bounds_def)
  have low: "low_half mn" "low_half mx" "mn < mx"
    using l by simp_all
  obtain c st' where "build_pagetables_exec dbg load_base mn mx ident_bytes phys_max st = Ok (Some (c, st'))"
    "\<And>v. v < 2 ^ 36 \<Longrightarrow> xlate c st' v = exec_pages load_base mn mx (page_no ie) (page_no pm) v"
    by (rule build_pages [OF av low ie(4) hb ie(1) pm(1)]) (rule that)
  then show thesis
    using that [of c st' "page_no ie" "page_no pm"] ri(2) rp(2) hb low_page_no [OF ie(4)]
    by (auto simp: hhdm_bounds_def page_no_def)
qed

lemma kernel_pages:
  assumes "page_aligned mn" "page_aligned mx"
  shows "mn \<le> va \<and> va < mx \<longleftrightarrow> page_no mn \<le> page_no va \<and> page_no va < page_no mx"
proof -
  have "mn \<le> va \<longleftrightarrow> page_no mn \<le> page_no va" "va < mx \<longleftrightarrow> page_no va < page_no mx"
    using assms by (auto simp: word_le_nat_alt word_less_nat_alt page_no_def div_less_iff_less_mult
        less_eq_div_iff_mult_less_eq mult.commute elim!: dvdE)
  then show ?thesis
    by simp
qed

lemma low_vpn: "page_no va < 2 ^ 36 \<Longrightarrow> vpn va = page_no va"
  by (simp add: vpn_page_no vp_small)

lemma exec_page:
  assumes lay: "exec_layout lb mn mx ident_bytes phys_max" and small: "pm \<le> 2 ^ 34" "ie \<le> 2 ^ 35"
    and all: "\<forall>v < 2 ^ 36. xlate c st v = exec_pages lb mn mx ie pm v"
  shows "\<lbrakk>mn \<le> va; va < mx\<rbrakk> \<Longrightarrow> xlate c st (vpn va) = Some (offset_page (uint lb - uint mn) (page_no va))"
    and "\<lbrakk>0x1000 \<le> va; \<not> (mn \<le> va \<and> va < mx); page_no va < max 512 ie\<rbrakk> \<Longrightarrow>
      xlate c st (vpn va) = Some (same_page (page_no va))"
    and "page_no p < pm \<Longrightarrow> xlate c st (vp (hhdm_no + page_no p)) = Some (same_page (page_no p))"
    and "\<lbrakk>va < 0x1000; 0x1000 \<le> mn\<rbrakk> \<Longrightarrow> xlate c st (vpn va) = None"
proof -
  have al: "page_aligned mn" "page_aligned mx" "page_no mx \<le> 2 ^ 35"
    using lay low_page_no [of mx] by (auto simp: exec_layout_def low_half_def)
  note xl = all [rule_format]
  note k = kernel_pages [OF al(1,2), of va]
  show "xlate c st (vpn va) = Some (offset_page (uint lb - uint mn) (page_no va))" if "mn \<le> va" "va < mx"
    using that k al(3) xl [of "page_no va"] by (simp add: low_vpn exec_pages_def with_ident_def)
  show "xlate c st (vpn va) = Some (same_page (page_no va))"
    if "0x1000 \<le> va" "\<not> (mn \<le> va \<and> va < mx)" "page_no va < max 512 ie"
  proof -
    have "1 \<le> page_no va" "page_no va < 2 ^ 36" "page_no va < 0x888000000"
      using that(1,3) small(2) div_le_mono [of 4096 "unat va" 4096] by (auto simp: page_no_def word_le_nat_alt max_def split: if_splits)
    then show ?thesis
      using that k xl [of "page_no va"] by (auto simp: low_vpn exec_pages_def with_ident_def)
  qed
  show "xlate c st (vp (hhdm_no + page_no p)) = Some (same_page (page_no p))" if "page_no p < pm"
    using that small(1) xl [OF vp_less, of "hhdm_no + page_no p"] hhdm_vp [of "page_no p"] by (simp add: exec_pages_def)
  show "xlate c st (vpn va) = None" if "va < 0x1000" "0x1000 \<le> mn"
  proof -
    have "page_no va = 0" "1 \<le> page_no mn"
      using that div_le_mono [of 4096 "unat mn" 4096] by (simp_all add: page_no_def word_less_nat_alt word_le_nat_alt)
    then show ?thesis
      using xl [of 0] by (simp add: low_vpn exec_pages_def with_ident_def)
  qed
qed

lemma exec_high:
  assumes "exec_layout lb mn mx ident_bytes phys_max" "p < phys_max"
  shows "vpn (HHDM_BASE + p) = vp (hhdm_no + page_no p)" "unat (HHDM_BASE + p) mod 4096 = unat p mod 4096"
proof -
  have "unat HHDM_BASE + unat p < 2 ^ 64"
    using assms by (simp add: exec_layout_def HHDM_BASE_def word_less_nat_alt)
  note h = hhdm_add [OF this]
  show "vpn (HHDM_BASE + p) = vp (hhdm_no + page_no p)"
    by (simp add: vpn_page_no h)
  have "unat HHDM_BASE = 4096 * 0xffff888000000"
    by (simp add: HHDM_BASE_def)
  then show "unat (HHDM_BASE + p) mod 4096 = unat p mod 4096"
    unfolding h(2) by (simp only: add.commute [of "4096 * _"] mod_mult_self2)
qed

text \<open>What the finished tables translate, by byte address.\<close>

definition address_space :: "u64 \<Rightarrow> PtState \<Rightarrow> u64 \<Rightarrow> u64 \<Rightarrow> u64 \<Rightarrow> u64 \<Rightarrow> u64 \<Rightarrow> bool" where
  "address_space c st load_base mn mx ident_bytes phys_max \<longleftrightarrow>
     (\<forall>va. mn \<le> va \<longrightarrow> va < mx \<longrightarrow> walk c st va = Some (load_base + (va - mn))) \<and>
     (\<forall>va. 0x1000 \<le> va \<longrightarrow> va < max 0x200000 ident_bytes \<longrightarrow> \<not> (mn \<le> va \<and> va < mx) \<longrightarrow> walk c st va = Some va) \<and>
     (\<forall>p. p < phys_max \<longrightarrow> walk c st (HHDM_BASE + p) = Some p) \<and>
     (\<forall>va. va < 0x1000 \<longrightarrow> 0x1000 \<le> mn \<longrightarrow> walk c st va = None)"

lemma build_space:
  assumes lay: "exec_layout load_base min_vaddr max_vaddr ident_bytes phys_max"
    and sup: "enough_pages min_vaddr max_vaddr ident_bytes phys_max st"
  shows "\<exists>pml4 st'. build_pagetables_exec dbg load_base min_vaddr max_vaddr ident_bytes phys_max st = Ok (Some (pml4, st')) \<and>
    address_space pml4 st' load_base min_vaddr max_vaddr ident_bytes phys_max"
proof -
  let ?mn = min_vaddr and ?mx = max_vaddr
  note l = lay [unfolded exec_layout_def]
  obtain c st' ie pm where st': "build_pagetables_exec dbg load_base ?mn ?mx ident_bytes phys_max st = Ok (Some (c, st'))"
    "\<And>v. v < 2 ^ 36 \<Longrightarrow> xlate c st' v = exec_pages load_base ?mn ?mx ie pm v"
    and bounds: "\<And>va. va < ident_bytes \<Longrightarrow> page_no va < ie" "\<And>p. p < phys_max \<Longrightarrow> page_no p < pm" "pm \<le> 2 ^ 34" "ie \<le> 2 ^ 35"
    by (rule build_layout [OF lay sup]) (rule that; assumption)
  have "\<forall>v < 2 ^ 36. xlate c st' v = exec_pages load_base ?mn ?mx ie pm v"
    using st'(2) by blast
  note page = exec_page [OF lay bounds(3,4) this]
  show ?thesis
    unfolding address_space_def
  proof (intro exI [of _ c] exI [of _ st'] conjI allI impI)
    show "build_pagetables_exec dbg load_base ?mn ?mx ident_bytes phys_max st = Ok (Some (c, st'))"
      by (rule st'(1))
  next
    fix va assume va: "?mn \<le> va" "va < ?mx"
    then show "walk c st' va = Some (load_base + (va - ?mn))"
      using page(1) [OF va] l by (intro walk_kernel) (auto simp: word_le_nat_alt word_less_nat_alt low_half_def)
  next
    fix va assume va: "0x1000 \<le> va" "va < max 0x200000 ident_bytes" "\<not> (?mn \<le> va \<and> va < ?mx)"
    have "page_no va < max 512 ie"
      using va(2) bounds(1) [of va] page_no_round(2) [of "0x200000" "0x200000" va] page_no_2m(1) by (auto simp: max_def split: if_splits)
    then show "walk c st' va = Some va"
      using page(2) [OF va(1,3)] bounds(4) by (intro walk_same) auto
  next
    fix p assume p: "p < phys_max"
    show "walk c st' (HHDM_BASE + p) = Some p"
      using page(3) [OF bounds(2) [OF p]] bounds(2) [OF p] bounds(3) exec_high [OF lay p] by (intro walk_same) simp_all
  next
    fix va :: u64 assume "va < 0x1000" "0x1000 \<le> ?mn"
    then show "walk c st' va = None"
      using page(4) by (simp add: walk_def)
  qed
qed


definition page_list :: "nat \<Rightarrow> u64 list" where
  "page_list n = map (\<lambda>i. of_nat (i * 4096)) [256..<n]"

lemma page_list_supply:
  assumes "n \<le> 2 ^ 40"
  shows "supply_ok (page_list n)"
proof -
  have un: "unat (of_nat (i * 4096) :: u64) = i * 4096" if "i < n" for i
    using that assms by (intro unat_of_nat_64) simp
  have "inj_on (\<lambda>i. of_nat (i * 4096) :: u64) (set [256..<n])"
  proof (rule inj_onI)
    fix i j assume "i \<in> set [256..<n]" "j \<in> set [256..<n]" "of_nat (i * 4096) = (of_nat (j * 4096) :: u64)"
    then show "i = j"
      using un [of i] un [of j] by (metis atLeastLessThan_iff mult_right_cancel set_upt zero_neq_numeral)
  qed
  moreover have "page_aligned p \<and> unat p < 2 ^ 52" if mem: "p \<in> set (page_list n)" for p
  proof -
    obtain i where "p = of_nat (i * 4096)" "i < n"
      using mem unfolding page_list_def set_map set_upt by (elim imageE) (simp only: atLeastLessThan_iff)
    then show ?thesis
      using un [of i] assms by (simp only:) simp
  qed
  ultimately show ?thesis
    by (simp only: supply_ok_def page_list_def distinct_map distinct_upt) simp
qed

definition example_tables :: PtState where
  "example_tables = \<lparr>pmem = (\<lambda>_ _. 0), avail = page_list 9000\<rparr>"

lemma example_supply: "enough_pages 0x100000 0x180000 0x200000 0x40000 example_tables"
  using page_list_supply [of 9000]
  by (simp add: enough_pages_def exec_supply_def page_no_def example_tables_def) (simp add: page_list_def del: upt_rec_numeral)


end
