(* ===== verification/Boot_Image.thy ===== *)
theory Boot_Image
  imports Boot_Loader Boot_Exec
begin

unbundle bit_operations_syntax

text \<open>
  The kernel image: where \<open>main\<close> of the loader puts it, that it fits the allocated block, and
  what the copied segments leave in memory.
\<close>

section \<open>Rounding to an arbitrary alignment\<close>

lemma and_not_bounds:
  fixes x m :: u64
  shows "unat (x AND NOT m) \<le> unat x" "unat x \<le> unat (x AND NOT m) + unat m"
proof -
  have "x = (x AND NOT m) + (x AND m)"
    by (subst disjunctive_add) (auto simp: bit_eq_iff bit_simps intro!: bit_word_eqI)
  then have "unat x \<le> unat (x AND NOT m) + unat (x AND m)"
    by (metis unat_word_ariths(1) mod_less_eq_dividend)
  moreover have "x AND m \<le> m" "x AND NOT m \<le> x"
    by (simp_all add: word_and_le1 word_and_le2)
  ultimately show "unat (x AND NOT m) \<le> unat x" "unat x \<le> unat (x AND NOT m) + unat m"
    by (simp_all add: word_le_nat_alt)
qed

lemma boot_align_up_any:
  assumes "0 < unat al" "unat x + unat al < 2 ^ 64"
  obtains y where "boot_align_up dbg x al = Ok y" "y = (x + al - 1) AND NOT (al - 1)" "x \<le> y" "unat y < unat x + unat al"
proof -
  let ?s = "x + al - 1"
  have "1 \<le> al" "1 \<le> x + al"
    using assms by (simp_all add: word_le_nat_alt unat_add_ok)
  then have al: "max al 1 = al" "1 \<le> al" "1 \<le> x + al"
    by simp_all
  have un: "unat ?s = unat x + unat al - 1" "unat (al - 1) = unat al - 1"
    using assms al by (simp_all add: unat_sub unat_add_ok word_le_nat_alt)
  have "boot_align_up dbg x al = Ok (?s AND NOT (al - 1))"
    using assms al by (simp add: boot_align_up_def Let_def u_add_ok u_sub_ok)
  then show thesis
    using and_not_bounds [of ?s "al - 1"] un assms by (intro that) (auto simp: word_le_nat_alt)
qed

lemma boot_align_up_pow2:
  assumes "12 \<le> k" "k < 64" "unat x + 2 ^ k < 2 ^ 64"
  obtains y where "boot_align_up dbg x (2 ^ k) = Ok y" "page_aligned y" "x \<le> y" "unat y < unat x + 2 ^ k"
proof -
  have k: "unat (2 ^ k :: u64) = 2 ^ k"
    using assms unat_of_nat_64 [of "2 ^ k"] by (simp add: power_strict_increasing)
  obtain y where y: "boot_align_up dbg x (2 ^ k) = Ok y" "y = (x + 2 ^ k - 1) AND NOT (2 ^ k - 1)" "x \<le> y"
    "unat y < unat x + 2 ^ k"
    by (rule boot_align_up_any [of "2 ^ k" x dbg]) (use assms k in auto)
  have "unat y = unat (x + 2 ^ k - 1) - unat (x + 2 ^ k - 1) mod 2 ^ k"
    unfolding y(2) not_pow2_minus_1 by (rule unat_and_not_mask)
  then have "2 ^ k dvd unat y"
    by (simp add: dvd_minus_mod)
  moreover have "(4096 :: nat) dvd 2 ^ k"
    using assms(1) le_imp_power_dvd [of 12 k "2 :: nat"] by simp
  ultimately show thesis
    using y by (intro that) (auto intro: dvd_trans)
qed

section \<open>The layout of the segments\<close>

definition loadable :: "ProgramHeader \<Rightarrow> bool" where
  "loadable ph \<longleftrightarrow> ph_load ph \<and> ph_memsz ph \<noteq> 0"

definition img_min :: "ProgramHeader list \<Rightarrow> u64" where
  "img_min phs = fold (\<lambda>ph a. min a (ph_vaddr ph)) (filter loadable phs) (- 1)"

definition img_max :: "ProgramHeader list \<Rightarrow> u64" where
  "img_max phs = fold (\<lambda>ph a. max a ((ph_vaddr ph + ph_memsz ph + 0xFFF) AND NOT 0xFFF)) (filter loadable phs) 0"

definition img_align :: "ProgramHeader list \<Rightarrow> u64" where
  "img_align phs = fold (\<lambda>ph a. max a (max (ph_align ph) 0x1000)) (filter loadable phs) 0"

text \<open>A segment of a well-formed file: below the canonical hole, no larger in the file than in memory.\<close>

definition seg_ok :: "u8 list \<Rightarrow> ProgramHeader \<Rightarrow> bool" where
  "seg_ok bytes ph \<longleftrightarrow> unat (ph_vaddr ph) + unat (ph_memsz ph) + 4096 \<le> 2 ^ 46 \<and> ph_filesz ph \<le> ph_memsz ph \<and>
     unat (ph_offset ph) + unat (ph_filesz ph) \<le> length bytes \<and>
     ph_align ph \<in> set (0 # map (\<lambda>k. 2 ^ k) [0..<31])"

definition segs_apart :: "ProgramHeader \<Rightarrow> ProgramHeader \<Rightarrow> bool" where
  "segs_apart p q \<longleftrightarrow> unat (ph_vaddr p) + unat (ph_memsz p) \<le> unat (ph_vaddr q) \<or>
     unat (ph_vaddr q) + unat (ph_memsz q) \<le> unat (ph_vaddr p)"

definition kernel_elf :: "ElfFile \<Rightarrow> bool" where
  "kernel_elf elf \<longleftrightarrow> elf_header_ok elf \<and> filter loadable (elf_phdrs elf) \<noteq> [] \<and> length (elf_bytes elf) < 2 ^ 64 \<and>
     list_all (seg_ok (elf_bytes elf)) (filter loadable (elf_phdrs elf)) \<and>
     sorted_wrt segs_apart (filter loadable (elf_phdrs elf)) \<and> page_aligned (img_min (elf_phdrs elf))"

lemma seg_end:
  assumes "seg_ok bytes ph"
  obtains "u_add dbg (ph_vaddr ph) (ph_memsz ph) = Ok (ph_vaddr ph + ph_memsz ph)"
    "boot_align_up dbg (ph_vaddr ph + ph_memsz ph) 0x1000 = Ok ((ph_vaddr ph + ph_memsz ph + 0xFFF) AND NOT 0xFFF)"
    "page_aligned ((ph_vaddr ph + ph_memsz ph + 0xFFF) AND NOT 0xFFF)"
    "unat (ph_vaddr ph) + unat (ph_memsz ph) \<le> unat ((ph_vaddr ph + ph_memsz ph + 0xFFF) AND NOT 0xFFF)"
    "unat ((ph_vaddr ph + ph_memsz ph + 0xFFF) AND NOT 0xFFF) \<le> 2 ^ 46"
proof -
  let ?e = "ph_vaddr ph + ph_memsz ph"
  have le: "unat (ph_vaddr ph) + unat (ph_memsz ph) + 4096 \<le> 2 ^ 46"
    using assms by (simp add: seg_ok_def)
  then have un: "unat ?e = unat (ph_vaddr ph) + unat (ph_memsz ph)"
    by (intro unat_add_ok) simp
  obtain y where y: "boot_align_up dbg ?e 0x1000 = Ok y" "y = (?e + 0x1000 - 1) AND NOT (0x1000 - 1)" "?e \<le> y" "unat y < unat ?e + 4096"
    by (rule boot_align_up_any [of "0x1000" ?e dbg]) (use le un in auto)
  have "?e + 0x1000 - 1 = ?e + 0xFFF" "0x1000 - 1 = (0xFFF :: u64)"
    by simp_all
  then have y2: "y = (?e + 0xFFF) AND NOT 0xFFF"
    using y(2) by (simp only:)
  have "page_aligned y"
    using align_down_mod [of "?e + 0xFFF"] unfolding y2 align_down_def by simp
  then show thesis
    using y(1,3,4) le un unfolding y2 by (intro that) (auto simp: u_add_ok word_le_nat_alt)
qed

lemma layout_loop_eq:
  assumes "list_all (seg_ok bytes) (filter loadable phs)"
  shows "layout_loop dbg phs (a, b, c) =
    Ok (fold (\<lambda>ph a. min a (ph_vaddr ph)) (filter loadable phs) a,
        fold (\<lambda>ph a. max a ((ph_vaddr ph + ph_memsz ph + 0xFFF) AND NOT 0xFFF)) (filter loadable phs) b,
        fold (\<lambda>ph a. max a (max (ph_align ph) 0x1000)) (filter loadable phs) c)"
  using assms
proof (induction phs arbitrary: a b c)
  case (Cons ph phs)
  show ?case
  proof (cases "loadable ph")
    case True
    then have "seg_ok bytes ph"
      using Cons.prems by simp
    then show ?thesis
      by (rule seg_end [of _ _ dbg]) (use True Cons in \<open>simp add: loadable_def\<close>)
  next
    case False
    then show ?thesis
      using Cons by (auto simp: loadable_def)
  qed
qed simp

lemma fold_max_bounds:
  fixes f :: "'a \<Rightarrow> 'b::linorder"
  shows "a \<le> fold (\<lambda>x a. max a (f x)) xs a" "x \<in> set xs \<Longrightarrow> f x \<le> fold (\<lambda>x a. max a (f x)) xs a"
    "fold (\<lambda>x a. max a (f x)) xs a \<in> insert a (f ` set xs)"
proof -
  have step: "b \<le> fold (\<lambda>x a. max a (f x)) ys b" for ys b
    by (induction ys arbitrary: b) (auto intro: order_trans [OF max.cobounded1])
  then show "a \<le> fold (\<lambda>x a. max a (f x)) xs a" .
  show "x \<in> set xs \<Longrightarrow> f x \<le> fold (\<lambda>x a. max a (f x)) xs a"
    by (induction xs arbitrary: a) (auto intro: order_trans [OF max.cobounded2 step])
  show "fold (\<lambda>x a. max a (f x)) xs a \<in> insert a (f ` set xs)"
  proof (induction xs arbitrary: a)
    case (Cons y ys)
    then show ?case
      using Cons [of "max a (f y)"] by (auto simp: max_def split: if_splits)
  qed simp
qed

lemma fold_min_bounds:
  fixes f :: "'a \<Rightarrow> 'b::linorder"
  shows "x \<in> set xs \<Longrightarrow> fold (\<lambda>x a. min a (f x)) xs a \<le> f x"
    "fold (\<lambda>x a. min a (f x)) xs a \<in> insert a (f ` set xs)"
proof -
  have step: "fold (\<lambda>x a. min a (f x)) ys b \<le> b" for ys b
    by (induction ys arbitrary: b) (auto intro: order_trans [OF _ min.cobounded1])
  show "x \<in> set xs \<Longrightarrow> fold (\<lambda>x a. min a (f x)) xs a \<le> f x"
    by (induction xs arbitrary: a) (auto intro: order_trans [OF step min.cobounded2])
  show "fold (\<lambda>x a. min a (f x)) xs a \<in> insert a (f ` set xs)"
  proof (induction xs arbitrary: a)
    case (Cons y ys)
    then show ?case
      using Cons [of "min a (f y)"] by (auto simp: min_def split: if_splits)
  qed simp
qed

lemma kernel_elf_seg:
  "kernel_elf elf \<Longrightarrow> ph \<in> set (elf_phdrs elf) \<Longrightarrow> loadable ph \<Longrightarrow> seg_ok (elf_bytes elf) ph"
  by (simp add: kernel_elf_def list_all_iff)

lemma kernel_elf_some:
  assumes "kernel_elf elf"
  obtains ph where "ph \<in> set (elf_phdrs elf)" "loadable ph"
  using assms by (auto simp: kernel_elf_def filter_empty_conv)

lemma img_min_le: "ph \<in> set phs \<Longrightarrow> loadable ph \<Longrightarrow> img_min phs \<le> ph_vaddr ph"
  unfolding img_min_def by (rule fold_min_bounds(1)) simp

lemma img_max_ge:
  assumes "kernel_elf elf" "ph \<in> set (elf_phdrs elf)" "loadable ph"
  shows "unat (ph_vaddr ph) + unat (ph_memsz ph) \<le> unat (img_max (elf_phdrs elf))"
proof -
  have "(ph_vaddr ph + ph_memsz ph + 0xFFF) AND NOT 0xFFF \<le> img_max (elf_phdrs elf)"
    unfolding img_max_def by (rule fold_max_bounds(2)) (use assms in simp)
  then show ?thesis
    using seg_end [OF kernel_elf_seg [OF assms]] by (fastforce simp: word_le_nat_alt)
qed

lemma img_max_bound:
  assumes "kernel_elf elf"
  shows "page_aligned (img_max (elf_phdrs elf)) \<and> unat (img_max (elf_phdrs elf)) \<le> 2 ^ 46"
proof -
  let ?f = "\<lambda>ph. (ph_vaddr ph + ph_memsz ph + 0xFFF) AND NOT 0xFFF"
  have "img_max (elf_phdrs elf) \<in> insert 0 (?f ` set (filter loadable (elf_phdrs elf)))"
    unfolding img_max_def by (rule fold_max_bounds(3))
  moreover have "page_aligned (?f ph) \<and> unat (?f ph) \<le> 2 ^ 46" if "ph \<in> set (filter loadable (elf_phdrs elf))" for ph
    by (rule seg_end [OF kernel_elf_seg [OF assms, of ph]]) (use that in auto)
  ultimately show ?thesis
    by auto
qed

lemma img_align_pow2:
  assumes "kernel_elf elf"
  obtains k where "12 \<le> k" "k \<le> 30" "img_align (elf_phdrs elf) = 2 ^ k"
proof -
  let ?f = "\<lambda>ph. max (ph_align ph) (0x1000 :: u64)"
  have "img_align (elf_phdrs elf) \<in> insert 0 (?f ` set (filter loadable (elf_phdrs elf)))"
    unfolding img_align_def by (rule fold_max_bounds(3))
  moreover obtain ph where "ph \<in> set (elf_phdrs elf)" "loadable ph"
    by (rule kernel_elf_some [OF assms])
  then have "?f ph \<le> img_align (elf_phdrs elf)"
    unfolding img_align_def by (intro fold_max_bounds(2)) simp
  then have "img_align (elf_phdrs elf) \<noteq> 0"
    by (auto simp: max_def word_le_nat_alt split: if_splits)
  ultimately obtain q where q: "q \<in> set (elf_phdrs elf)" "loadable q" "img_align (elf_phdrs elf) = ?f q"
    by auto
  have "ph_align q = 0 \<or> (\<exists>k<31. ph_align q = 2 ^ k)"
    using kernel_elf_seg [OF assms q(1,2)] by (auto simp: seg_ok_def)
  then show thesis
  proof
    assume "ph_align q = 0"
    then show thesis
      using q(3) by (intro that [of 12]) (auto simp: max_def)
  next
    assume "\<exists>k<31. ph_align q = 2 ^ k"
    then obtain k where k: "k < 31" "ph_align q = 2 ^ k" by blast
    have un: "unat (2 ^ k :: u64) = 2 ^ k"
      using k(1) unat_of_nat_64 [of "2 ^ k"] power_strict_increasing [of k 64 "2 :: nat"] by simp
    show thesis
    proof (cases "12 \<le> k")
      case True
      then have "(4096 :: nat) \<le> 2 ^ k"
        using power_increasing [of 12 k "2 :: nat"] by simp
      then have "(0x1000 :: u64) \<le> 2 ^ k"
        using un by (simp add: word_le_nat_alt)
      then show thesis
        using q(3) k True by (intro that [of k]) (auto simp: max.absorb1)
    next
      case False
      then have "(2 :: nat) ^ k \<le> 2 ^ 12"
        by (intro power_increasing) simp_all
      then have "(2 ^ k :: u64) \<le> 0x1000"
        using un by (simp add: word_le_nat_alt)
      then show thesis
        using q(3) k by (intro that [of 12]) (auto simp: max.absorb2)
    qed
  qed
qed

lemma img_nonempty:
  assumes "kernel_elf elf"
  shows "img_min (elf_phdrs elf) < img_max (elf_phdrs elf)"
proof -
  obtain ph where ph: "ph \<in> set (elf_phdrs elf)" "loadable ph"
    by (rule kernel_elf_some [OF assms])
  have "0 < unat (ph_memsz ph)"
    using ph(2) by (simp add: loadable_def unat_gt_0)
  then show ?thesis
    using img_min_le [OF ph] img_max_ge [OF assms ph] by (simp add: word_le_nat_alt word_less_nat_alt)
qed

lemma layout_loads_eq:
  assumes "kernel_elf elf"
  shows "layout_loads dbg (elf_phdrs elf) = Ok (img_min (elf_phdrs elf), img_max (elf_phdrs elf), img_align (elf_phdrs elf))"
proof -
  have "img_min (elf_phdrs elf) \<noteq> - 1"
    using img_nonempty [OF assms] by (metis word_n1_ge not_le)
  moreover have "layout_loop dbg (elf_phdrs elf) (- 1, 0, 0) = Ok (img_min (elf_phdrs elf), img_max (elf_phdrs elf), img_align (elf_phdrs elf))"
    unfolding img_min_def img_max_def img_align_def
    by (rule layout_loop_eq [of "elf_bytes elf"]) (use assms in \<open>simp add: kernel_elf_def\<close>)
  ultimately show ?thesis
    by (simp add: layout_loads_def)
qed

section \<open>Copying the segments\<close>

definition seg_byte :: "u8 list \<Rightarrow> ProgramHeader \<Rightarrow> nat \<Rightarrow> u8" where
  "seg_byte bytes ph i = (if i < unat (ph_filesz ph) then bytes ! (unat (ph_offset ph) + i) else 0)"

lemma sub_less_iff:
  fixes w v :: u64
  assumes "unat v + n \<le> 2 ^ 64"
  shows "unat (w - v) < n \<longleftrightarrow> unat v \<le> unat w \<and> unat w < unat v + n"
proof (cases "v \<le> w")
  case True
  then show ?thesis
    by (auto simp: unat_sub word_le_nat_alt)
next
  case False
  then have "unat (w - v) = 2 ^ 64 + unat w - unat v"
    by (simp add: unat_sub_if' word_le_nat_alt)
  then show ?thesis
    using False assms by (simp add: word_le_nat_alt)
qed

lemma copy_segment_read:
  assumes seg: "seg_ok bytes ph" and ld: "loadable ph" and mn: "mn \<le> ph_vaddr ph"
    and lb: "unat lb + (unat (ph_vaddr ph) - unat mn) < 2 ^ 64" and len: "length bytes < 2 ^ 64"
  obtains m' where "copy_segment dbg lb mn bytes ph m = Ok m'"
    "\<And>w. m' (lb + (w - mn)) =
       (if unat (w - ph_vaddr ph) < unat (ph_memsz ph) then seg_byte bytes ph (unat (w - ph_vaddr ph)) else m (lb + (w - mn)))"
proof -
  let ?rel = "ph_vaddr ph - mn" and ?fs = "ph_filesz ph" and ?ms = "ph_memsz ph" and ?off = "ph_offset ph"
  let ?dst = "lb + ?rel"
  note sg = seg [unfolded seg_ok_def]
  have fsum: "u_add dbg ?off ?fs = Ok (?off + ?fs)" "unat (?off + ?fs) = unat ?off + unat ?fs"
    using sg len by (simp_all add: u_add_ok unat_add_ok)
  have dst: "u_sub dbg (ph_vaddr ph) mn = Ok ?rel" "u_add dbg lb ?rel = Ok ?dst"
    using mn lb by (simp_all add: u_add_ok u_sub_ok unat_sub)
  let ?src = "take (unat ?fs) (drop (unat ?off) bytes)"
  have src: "slice bytes (unat ?off) (unat (?off + ?fs)) = Ok ?src" "length ?src = unat ?fs"
    using sg fsum(2) by (auto simp: slice_def)
  define m1 where "m1 = (if 0 < ?fs then copy_bytes ?dst ?src m else m)"
  let ?m' = "if ?fs < ?ms then write_bytes (?dst + ?fs) 0 (unat (?ms - ?fs)) m1 else m1"
  have run: "copy_segment dbg lb mn bytes ph m = Ok ?m'"
    using ld by (simp add: copy_segment_def loadable_def dst fsum(1) src(1) m1_def)
  have read: "?m' a = (if unat (a - ?dst) < unat ?ms then seg_byte bytes ph (unat (a - ?dst)) else m a)" for a
  proof -
    let ?d = "a - ?dst"
    have shift: "a - (?dst + ?fs) = ?d - ?fs"
      by simp
    have le: "unat ?fs \<le> unat ?ms"
      using sg by (simp add: word_le_nat_alt)
    have m1: "m1 a = (if unat ?d < unat ?fs then seg_byte bytes ph (unat ?d) else m a)"
      using src(2) sg by (auto simp: m1_def copy_bytes_def seg_byte_def word_less_nat_alt)
    have tail: "unat (?d - ?fs) < unat (?ms - ?fs) \<longleftrightarrow> unat ?fs \<le> unat ?d \<and> unat ?d < unat ?ms"
      using le unat_le_64 [of ?ms] by (subst sub_less_iff) (auto simp: unat_sub word_le_nat_alt)
    show ?thesis
      using le by (auto simp: write_bytes_def shift tail m1 seg_byte_def word_less_nat_alt)
  qed
  have "lb + (w - mn) - ?dst = w - ph_vaddr ph" for w
    by simp
  with run read show thesis
    by (intro that [of ?m']) (simp_all only:)
qed

text \<open>What copying the segments leaves, addressed by the virtual address \<open>w\<close> of each byte.\<close>

definition copied :: "u64 \<Rightarrow> u64 \<Rightarrow> u8 list \<Rightarrow> ProgramHeader list \<Rightarrow> (u64 \<Rightarrow> u8) \<Rightarrow> (u64 \<Rightarrow> u8) \<Rightarrow> bool" where
  "copied lb mn bytes segs m m' \<longleftrightarrow>
     (\<forall>ph \<in> set segs. \<forall>w. unat (w - ph_vaddr ph) < unat (ph_memsz ph) \<longrightarrow>
        m' (lb + (w - mn)) = seg_byte bytes ph (unat (w - ph_vaddr ph))) \<and>
     (\<forall>w. (\<forall>ph \<in> set segs. \<not> unat (w - ph_vaddr ph) < unat (ph_memsz ph)) \<longrightarrow> m' (lb + (w - mn)) = m (lb + (w - mn)))"

lemma copied_Cons:
  assumes head: "\<forall>w. m1 (lb + (w - mn)) = (if unat (w - ph_vaddr ph) < unat (ph_memsz ph)
      then seg_byte bytes ph (unat (w - ph_vaddr ph)) else m (lb + (w - mn)))"
    and tail: "copied lb mn bytes segs m1 m'"
    and ap: "\<forall>q \<in> set segs. \<forall>w. unat (w - ph_vaddr ph) < unat (ph_memsz ph) \<longrightarrow> \<not> unat (w - ph_vaddr q) < unat (ph_memsz q)"
  shows "copied lb mn bytes (ph # segs) m m'"
  unfolding copied_def
proof (intro conjI ballI allI impI)
  fix q w assume q: "q \<in> set (ph # segs)" "unat (w - ph_vaddr q) < unat (ph_memsz q)"
  show "m' (lb + (w - mn)) = seg_byte bytes q (unat (w - ph_vaddr q))"
  proof (cases "q \<in> set segs")
    case True
    then show ?thesis
      using tail q(2) unfolding copied_def by blast
  next
    case False
    with q have [simp]: "q = ph"
      by simp
    have "m' (lb + (w - mn)) = m1 (lb + (w - mn))"
      using tail ap q(2) unfolding copied_def \<open>q = ph\<close> by blast
    then show ?thesis
      using head q(2) by simp
  qed
next
  fix w assume w: "\<forall>q \<in> set (ph # segs). \<not> unat (w - ph_vaddr q) < unat (ph_memsz q)"
  then have "m' (lb + (w - mn)) = m1 (lb + (w - mn))"
    using tail unfolding copied_def by (meson list.set_intros(2))
  then show "m' (lb + (w - mn)) = m (lb + (w - mn))"
    using head w by simp
qed

lemma apart_disjoint:
  assumes "segs_apart p q" "seg_ok bytes p" "seg_ok bytes q" "unat (w - ph_vaddr p) < unat (ph_memsz p)"
  shows "\<not> unat (w - ph_vaddr q) < unat (ph_memsz q)"
proof -
  have no_wrap: "unat (ph_vaddr p) + unat (ph_memsz p) \<le> 2 ^ 64" "unat (ph_vaddr q) + unat (ph_memsz q) \<le> 2 ^ 64"
    using assms(2,3) by (simp_all add: seg_ok_def)
  show ?thesis
    using assms(1,4) unfolding sub_less_iff [OF no_wrap(1)] sub_less_iff [OF no_wrap(2)] segs_apart_def by linarith
qed

lemma copy_segments_read:
  assumes "list_all (seg_ok bytes) (filter loadable phs)" "sorted_wrt segs_apart (filter loadable phs)" "length bytes < 2 ^ 64"
    "\<forall>ph \<in> set (filter loadable phs). mn \<le> ph_vaddr ph \<and> unat lb + (unat (ph_vaddr ph) - unat mn) < 2 ^ 64"
  shows "\<exists>m'. copy_segments dbg lb mn bytes phs m = Ok m' \<and> copied lb mn bytes (filter loadable phs) m m'"
  using assms
proof (induction phs arbitrary: m)
  case Nil
  then show ?case by (simp add: copied_def)
next
  case (Cons ph phs)
  show ?case
  proof (cases "loadable ph")
    case False
    have "copy_segments dbg lb mn bytes (ph # phs) m = copy_segments dbg lb mn bytes phs m"
      using False by (auto simp: loadable_def copy_segment_def)
    then show ?thesis
      using Cons.IH [of m] Cons.prems False by simp
  next
    case True
    obtain m1 where m1: "copy_segment dbg lb mn bytes ph m = Ok m1"
      "\<And>w. m1 (lb + (w - mn)) = (if unat (w - ph_vaddr ph) < unat (ph_memsz ph) then seg_byte bytes ph (unat (w - ph_vaddr ph)) else m (lb + (w - mn)))"
      by (rule copy_segment_read [of bytes ph mn lb dbg m]) (use Cons.prems True in auto)
    obtain m' where m': "copy_segments dbg lb mn bytes phs m1 = Ok m'" "copied lb mn bytes (filter loadable phs) m1 m'"
      using Cons.IH [of m1] Cons.prems True by auto
    have "\<forall>q \<in> set (filter loadable phs). segs_apart ph q \<and> seg_ok bytes q" "seg_ok bytes ph"
      using Cons.prems(1,2) True by (auto simp: list_all_iff)
    then have "copied lb mn bytes (ph # filter loadable phs) m m'"
      using apart_disjoint by (intro copied_Cons [OF _ m'(2)]) (simp_all only: m1(2) simp_thms, blast)
    then show ?thesis
      using m1(1) m'(1) True by simp
  qed
qed

end
