(* ===== verification/Boot_Handoff.thy ===== *)
theory Boot_Handoff
  imports Boot_Image
begin

unbundle bit_operations_syntax

text \<open>
  The whole run of the loader's \<open>main\<close>: for a well-formed kernel file and firmware that answers
  every request, it reaches the jump to the kernel with the image, the tables and the boot
  record in place.
\<close>

section \<open>The memory map\<close>

definition region_of :: "MemoryDescriptor \<Rightarrow> MemoryRegion" where
  "region_of d = \<lparr>phys_start = md_phys_start d, virt_start = 0, mr_len = md_page_count d * 4096,
     mr_typ = uefi_type_to_kernel (md_ty d), mr_attr = md_att d\<rparr>"

definition desc_ok :: "u64 \<Rightarrow> MemoryDescriptor \<Rightarrow> bool" where
  "desc_ok lim d \<longleftrightarrow> unat (md_phys_start d) + unat (md_page_count d) * 4096 \<le> unat lim"

lemma build_memory_regions_eq:
  "list_all (desc_ok lim) ds \<Longrightarrow> build_memory_regions_vec dbg ds = Ok (map region_of ds)"
proof (induction ds)
  case (Cons d ds)
  have "unat (md_page_count d) * 4096 < 2 ^ 64"
    using Cons.prems unat_le_64 [of lim] by (simp add: desc_ok_def)
  then have "u_mul dbg (md_page_count d) 4096 = Ok (md_page_count d * 4096)"
    by (intro u_mul_ok) simp
  then show ?case
    using Cons by (simp add: region_of_def)
qed simp

lemma region_end:
  assumes "desc_ok lim d"
  shows "unat (saturating_add (phys_start (region_of d)) (mr_len (region_of d))) =
    unat (md_phys_start d) + unat (md_page_count d) * 4096"
proof -
  have le: "unat (md_phys_start d) + unat (md_page_count d) * 4096 < 2 ^ 64"
    using assms unat_le_64 [of lim] by (simp add: desc_ok_def)
  then have len: "unat (md_page_count d * 4096) = unat (md_page_count d) * 4096"
    by (simp add: unat_word_ariths(2))
  have "unat (md_phys_start d + md_page_count d * 4096) = unat (md_phys_start d) + unat (md_page_count d) * 4096"
    using le len by (simp add: unat_add_ok)
  then show ?thesis
    using le len by (simp add: saturating_add_def region_of_def)
qed

lemma phys_max_bounds:
  assumes "list_all (desc_ok lim) ds"
  shows "phys_max_of (map region_of ds) \<le> lim"
    "d \<in> set ds \<Longrightarrow> unat (md_phys_start d) + unat (md_page_count d) * 4096 \<le> unat (phys_max_of (map region_of ds))"
proof -
  let ?e = "\<lambda>r. saturating_add (phys_start r) (mr_len r)"
  have ok: "desc_ok lim d" if "d \<in> set ds" for d
    using assms that by (simp add: list_all_iff)
  have "phys_max_of (map region_of ds) \<in> insert 0 (?e ` set (map region_of ds))"
    unfolding phys_max_of_def by (rule fold_max_bounds(3))
  moreover have "?e (region_of d) \<le> lim" if "d \<in> set ds" for d
    using region_end [OF ok [OF that]] ok [OF that] by (simp add: word_le_nat_alt desc_ok_def)
  ultimately show "phys_max_of (map region_of ds) \<le> lim"
    by auto
  assume d: "d \<in> set ds"
  then have "?e (region_of d) \<le> phys_max_of (map region_of ds)"
    unfolding phys_max_of_def by (intro fold_max_bounds(2)) simp
  then show "unat (md_phys_start d) + unat (md_page_count d) * 4096 \<le> unat (phys_max_of (map region_of ds))"
    using region_end [OF ok [OF d]] by (simp add: word_le_nat_alt)
qed

section \<open>The identity bound\<close>

lemma ident_hi_bounds:
  assumes "\<forall>e \<in> set ends. e \<le> lim" "0xFEE01000 \<le> lim"
  shows "ident_hi_of ends \<le> lim" "e \<in> set ends \<Longrightarrow> e \<le> ident_hi_of ends" "0xFEE01000 \<le> ident_hi_of ends"
proof -
  have "list_max ends \<in> insert 0 ((\<lambda>x. x) ` set ends)"
    unfolding list_max_def using fold_max_bounds(3) [of "\<lambda>x. x" ends 0] by simp
  then have "list_max ends \<le> lim"
    using assms(1) by auto
  moreover have "(2 :: u64) ^ 30 \<le> lim" "0xFEC01000 \<le> lim"
    using assms(2) by (simp_all add: word_le_nat_alt)
  ultimately show "ident_hi_of ends \<le> lim"
    using assms(2) by (simp add: ident_hi_of_def Let_def)
  have "e \<le> list_max ends" if "e \<in> set ends"
    using fold_max_bounds(2) [of e ends "\<lambda>x. x" 0] that by (simp add: list_max_def)
  moreover have "list_max ends \<le> ident_hi_of ends"
    by (auto simp: ident_hi_of_def Let_def le_max_iff_disj)
  ultimately show "e \<in> set ends \<Longrightarrow> e \<le> ident_hi_of ends"
    by (rule order_trans)
  show "0xFEE01000 \<le> ident_hi_of ends"
    by (simp add: ident_hi_of_def Let_def)
qed

section \<open>The firmware\<close>

definition block :: "u64 \<Rightarrow> u64 \<Rightarrow> nat \<Rightarrow> bool" where
  "block lim a n \<longleftrightarrow> unat a + n \<le> unat lim"

definition gop_ok :: "u64 \<Rightarrow> GopMode \<Rightarrow> bool" where
  "gop_ok lim g \<longleftrightarrow> unat (gop_stride g) * 4 < 2 ^ 32 \<and> unat (gop_height g) < 2 ^ 32 \<and>
     block lim (gop_base g) (unat (gop_stride g) * 4 * unat (gop_height g))"

definition img_len :: "ElfFile \<Rightarrow> u64" where
  "img_len elf = img_max (elf_phdrs elf) - img_min (elf_phdrs elf)"

text \<open>Pages of the image block and of the copied memory map.\<close>

definition img_pages :: "ElfFile \<Rightarrow> nat" where
  "img_pages elf = (unat (img_len elf) + unat (img_align (elf_phdrs elf)) + 0x1FFF) div 4096"

definition map_pages :: "MemoryDescriptor list \<Rightarrow> nat" where
  "map_pages ds = (40 * length ds + 0xFFF) div 4096"

text \<open>
  Firmware that answers every request with memory below \<open>lim\<close>, the block of the image apart
  from the trampoline page, and enough pages for the tables.
\<close>

definition firmware_ok :: "u64 \<Rightarrow> ElfFile \<Rightarrow> UefiAnswers \<Rightarrow> u64 \<Rightarrow> u64 \<Rightarrow> u64 \<Rightarrow> u64 \<Rightarrow> u64 \<Rightarrow> u64 \<Rightarrow> u64 \<Rightarrow> GopMode \<Rightarrow> bool" where
  "firmware_ok lim elf ua raw low32 bi tramp stack heap memmap g \<longleftrightarrow>
     ua_raw_base ua = Some raw \<and> ua_low32 ua = Some low32 \<and> ua_bi_page ua = Some bi \<and> ua_tramp_page ua = Some tramp \<and>
     ua_stack ua = Some stack \<and> ua_early_heap ua = Some heap \<and> ua_memmap_pages ua = Some memmap \<and> ua_gop ua = Some g \<and>
     0xFEE01000 \<le> lim \<and> unat lim + 4096 \<le> 2 ^ 46 \<and>
     block lim raw (img_pages elf * 4096) \<and> block lim bi 4096 \<and> block lim tramp 4096 \<and> block lim stack 65536 \<and>
     page_aligned stack \<and> block lim heap 0x4000000 \<and> block lim memmap (map_pages (ua_map ua) * 4096) \<and> gop_ok lim g \<and>
     length (ua_map ua) < 2 ^ 32 \<and> list_all (desc_ok lim) (ua_map ua) \<and>
     (unat tramp + 4096 \<le> unat raw \<or> unat raw + img_pages elf * 4096 \<le> unat tramp) \<and>
     enough_pages (img_min (elf_phdrs elf)) (img_max (elf_phdrs elf)) lim lim (ua_tables ua)"

lemma get_framebuffer_ok:
  assumes "gop_ok lim g"
  obtains fb where "get_framebuffer dbg (Some g) = Ok fb" "fb_addr fb = gop_base g"
    "unat (fb_pitch fb) = unat (gop_stride g) * 4" "unat (fb_height fb) = unat (gop_height g)"
proof -
  have s: "unat (gop_stride g) * 4 < 2 ^ 32" "unat (gop_height g) < 2 ^ 32"
    using assms by (simp_all add: gop_ok_def)
  then have un: "unat (ucast (gop_stride g) :: u32) = unat (gop_stride g)" "unat (ucast (gop_height g) :: u32) = unat (gop_height g)"
    by (simp_all add: unsigned_ucast_eq take_bit_nat_eq_self)
  then have mul: "u_mul dbg (ucast (gop_stride g) :: u32) 4 = Ok (ucast (gop_stride g) * 4)"
    using s by (intro u_mul_ok) simp
  have "unat (ucast (gop_stride g) * 4 :: u32) = unat (gop_stride g) * 4"
    using s un(1) by (simp add: unat_word_ariths(2))
  then show thesis
    using mul un by (intro that [of "\<lparr>fb_addr = gop_base g, fb_width = ucast (gop_width g), fb_height = ucast (gop_height g),
        fb_pitch = ucast (gop_stride g) * 4, fb_bpp = 32, fb_pixel_format = pixel_format_code (gop_format g)\<rparr>"])
      (simp_all add: get_framebuffer_def)
qed

lemma image_placed:
  assumes elf: "kernel_elf elf" and blk: "block lim raw (img_pages elf * 4096)" and lim: "unat lim + 4096 \<le> 2 ^ 46"
  obtains pages lb where "u_sub dbg (img_max (elf_phdrs elf)) (img_min (elf_phdrs elf)) = Ok (img_len elf)"
    "image_pages dbg (img_len elf) (img_align (elf_phdrs elf)) = Ok pages" "unat pages = img_pages elf"
    "boot_align_up dbg raw (img_align (elf_phdrs elf)) = Ok lb" "page_aligned lb" "raw \<le> lb"
    "unat lb + unat (img_len elf) \<le> unat raw + img_pages elf * 4096"
proof -
  let ?mn = "img_min (elf_phdrs elf)" and ?mx = "img_max (elf_phdrs elf)"
  obtain k where k: "12 \<le> k" "k \<le> 30" "img_align (elf_phdrs elf) = 2 ^ k"
    by (rule img_align_pow2 [OF elf])
  have k64: "(2 :: nat) ^ k \<le> 2 ^ 30"
    using k(2) by (intro power_increasing) simp_all
  then have al: "unat (img_align (elf_phdrs elf)) = 2 ^ k"
    using k(3) unat_of_nat_64 [of "2 ^ k"] by simp
  have le: "?mn \<le> ?mx"
    using img_nonempty [OF elf] by simp
  have len: "unat (img_len elf) \<le> 2 ^ 46"
    using conjunct2 [OF img_max_bound [OF elf]] le unfolding img_len_def by (subst unat_sub) linarith+
  let ?s = "img_len elf + 2 ^ k + 0x1000 + 0xFFF"
  have un: "unat (img_len elf + 2 ^ k) = unat (img_len elf) + 2 ^ k"
    "unat (img_len elf + 2 ^ k + 0x1000) = unat (img_len elf) + 2 ^ k + 0x1000" "unat ?s = unat (img_len elf) + 2 ^ k + 0x1FFF"
    using len k64 al k(3) by (simp_all add: unat_add_ok)
  have pages: "image_pages dbg (img_len elf) (img_align (elf_phdrs elf)) = Ok (?s div 0x1000)"
    unfolding image_pages_def k(3) using len k64 al k(3) un by (subst u_add_ok; simp)+
  have "unat (?s div 0x1000) = img_pages elf"
    unfolding unat_div un(3) img_pages_def al by simp
  moreover obtain lb where lb: "boot_align_up dbg raw (2 ^ k) = Ok lb" "page_aligned lb" "raw \<le> lb" "unat lb < unat raw + 2 ^ k"
    using blk lim k64 by (rule_tac boot_align_up_pow2 [of k raw dbg]) (use k in \<open>auto simp: block_def\<close>)
  moreover have "unat (img_len elf) + 2 ^ k \<le> img_pages elf * 4096"
    unfolding img_pages_def al by linarith
  moreover from this lb(4) have "unat lb + unat (img_len elf) \<le> unat raw + img_pages elf * 4096"
    by linarith
  moreover have "u_sub dbg ?mx ?mn = Ok (img_len elf)"
    using le by (simp add: u_sub_ok img_len_def)
  ultimately show thesis
    using pages by (intro that [of "?s div 0x1000" lb]) (simp_all only: k(3))
qed

lemma block_end:
  assumes "block lim a n" "n = unat b"
  shows "u_add dbg a b = Ok (a + b)" "unat (a + b) = unat a + n" "a + b \<le> lim"
  using assms unat_le_64 [of lim] by (auto simp: block_def u_add_ok unat_add_ok word_le_nat_alt)

lemma ident_ends_ok:
  assumes "block lim tramp 4096" "block lim bi 4096" "block lim stack 65536" "page_aligned stack"
    "block lim load_base (unat len)" "block lim memmap (unat mp * 4096)" "heap_end \<le> lim"
    "block lim (fb_addr fb) (unat (fb_pitch fb) * unat (fb_height fb))"
  obtains ends where "ident_ends dbg tramp bi (stack + 65536) load_base len heap_end memmap mp fb = Ok ends"
    "\<forall>e \<in> set ends. e \<le> lim" "{tramp + 4096, bi + 4096, stack + 65536, load_base + len, heap_end, memmap + mp * 4096} \<subseteq> set ends"
proof -
  have mul: "unat mp * 4096 < 2 ^ 64" "unat (fb_pitch fb) * unat (fb_height fb) < 2 ^ 64"
    using assms(6,8) unat_le_64 [of lim] by (simp_all add: block_def)
  let ?p = "ucast (fb_pitch fb) :: u64" and ?h = "ucast (fb_height fb) :: u64"
  have cast: "unat ?p = unat (fb_pitch fb)" "unat ?h = unat (fb_height fb)"
    by (simp_all add: unsigned_ucast_eq take_bit_nat_eq_self order_less_trans [OF unat_less_32])
  have m: "u_mul dbg mp 4096 = Ok (mp * 4096)" "u_mul dbg ?p ?h = Ok (?p * ?h)"
    using mul cast by (simp_all add: u_mul_ok)
  have un: "unat mp * 4096 = unat (mp * 4096)" "unat (fb_pitch fb) * unat (fb_height fb) = unat (?p * ?h)"
    using mul cast by (simp_all add: unat_word_ariths(2))
  have "(16 :: nat) dvd unat (stack + 65536)"
    using assms(4) block_end(2) [OF assms(3), of "65536"] by (auto elim!: dvdE intro!: dvd_add)
  then have st: "(stack + 65536) AND NOT 0xF = stack + 65536"
    using and_not_mask_add [of "stack + 65536" 4] unat_take_bit [of 4 "stack + 65536"]
    by (simp add: mask_eq_exp_minus_1 unat_eq_0)
  note e = block_end [OF assms(1), of "4096"] block_end [OF assms(2), of "4096"] block_end [OF assms(3), of "65536"]
    block_end [OF assms(5) refl] block_end [OF assms(6) un(1)] block_end [OF assms(8) un(2)]
  let ?ends = "[tramp + 4096, bi + 4096, stack + 65536, load_base + len, heap_end, memmap + mp * 4096, fb_addr fb + ?p * ?h]"
  have "ident_ends dbg tramp bi (stack + 65536) load_base len heap_end memmap mp fb = Ok ?ends"
    unfolding ident_ends_def st by (simp add: e m)
  then show thesis
    by (rule that) (simp_all add: e assms(7))
qed

section \<open>The run\<close>

lemma enough_pages_mono:
  assumes "enough_pages mn mx lim lim st" "hi \<le> lim" "pm \<le> lim"
  shows "enough_pages mn mx hi pm st"
proof -
  have "page_no hi \<le> page_no lim" "page_no pm \<le> page_no lim"
    using assms(2,3) by (simp_all add: page_no_def word_le_nat_alt div_le_mono)
  then show ?thesis
    using assms(1) by (auto simp: enough_pages_def exec_supply_def)
qed

lemma map_bytes_ok:
  assumes "n < 2 ^ 32"
  obtains mb where "u_mul dbg 40 (of_nat n :: u64) = Ok (40 * of_nat n)" "u_add dbg (40 * of_nat n :: u64) 0xFFF = Ok mb"
    "unat (mb div 0x1000) = (40 * n + 0xFFF) div 4096"
proof -
  have n: "unat (of_nat n :: u64) = n"
    using assms by (intro unat_of_nat_64) simp
  then have mul: "u_mul dbg 40 (of_nat n :: u64) = Ok (40 * of_nat n)" "unat (40 * of_nat n :: u64) = 40 * n"
    using assms by (simp_all add: u_mul_ok unat_word_ariths(2))
  then have "u_add dbg (40 * of_nat n :: u64) 0xFFF = Ok (40 * of_nat n + 0xFFF)" "unat (40 * of_nat n + 0xFFF :: u64) = 40 * n + 0xFFF"
    using assms by (simp_all add: u_add_ok unat_add_ok)
  moreover from this(2) have "unat ((40 * of_nat n + 0xFFF :: u64) div 0x1000) = (40 * n + 0xFFF) div 4096"
    by (simp only: unat_div) simp
  ultimately show thesis
    using mul(1) by (intro that)
qed

lemma kernel_layout:
  assumes elf: "kernel_elf elf" and lb: "page_aligned lb" "block lim lb (unat (img_len elf))"
    and bnd: "unat lim + 4096 \<le> 2 ^ 46" "hi \<le> lim" "pm \<le> lim"
  shows "exec_layout lb (img_min (elf_phdrs elf)) (img_max (elf_phdrs elf)) hi pm"
proof -
  let ?mn = "img_min (elf_phdrs elf)" and ?mx = "img_max (elf_phdrs elf)"
  have "?mn < ?mx" "page_aligned ?mn" "page_aligned ?mx" "unat ?mx \<le> 2 ^ 46"
    using img_nonempty [OF elf] img_max_bound [OF elf] elf by (simp_all add: kernel_elf_def)
  moreover from this have "unat ?mn \<le> 2 ^ 46" "unat (img_len elf) = unat ?mx - unat ?mn"
    unfolding img_len_def by (subst unat_sub | simp add: word_less_nat_alt word_le_nat_alt)+
  ultimately show ?thesis
    using lb bnd by (auto simp: exec_layout_def low_half_def block_def word_le_nat_alt)
qed

lemma segments_copied:
  assumes elf: "kernel_elf elf" and lb: "block lim lb (unat (img_len elf))"
  shows "\<exists>m1. copy_segments dbg lb (img_min (elf_phdrs elf)) (elf_bytes elf) (elf_phdrs elf) m = Ok m1 \<and>
    copied lb (img_min (elf_phdrs elf)) (elf_bytes elf) (filter loadable (elf_phdrs elf)) m m1"
proof (rule copy_segments_read)
  let ?mn = "img_min (elf_phdrs elf)"
  show "\<forall>ph \<in> set (filter loadable (elf_phdrs elf)). ?mn \<le> ph_vaddr ph \<and> unat lb + (unat (ph_vaddr ph) - unat ?mn) < 2 ^ 64"
  proof
    fix ph assume "ph \<in> set (filter loadable (elf_phdrs elf))"
    then have ph: "ph \<in> set (elf_phdrs elf)" "loadable ph"
      by simp_all
    have "unat (img_len elf) = unat (img_max (elf_phdrs elf)) - unat ?mn"
      using img_nonempty [OF elf] by (simp add: img_len_def unat_sub)
    then show "?mn \<le> ph_vaddr ph \<and> unat lb + (unat (ph_vaddr ph) - unat ?mn) < 2 ^ 64"
      using img_min_le [OF ph] img_max_ge [OF elf ph] lb unat_le_64 [of lim] by (simp add: block_def)
  qed
qed (use elf in \<open>simp_all add: kernel_elf_def\<close>)

text \<open>The boot record of a run.\<close>

definition boot_record :: "ElfFile \<Rightarrow> UefiAnswers \<Rightarrow> u64 \<Rightarrow> u64 \<Rightarrow> u64 \<Rightarrow> Framebuffer \<Rightarrow> BootInfo" where
  "boot_record elf ua lb low32 heap fb =
     \<lparr>rsdp_addr = find_rsdp (ua_config ua), memory_map = map region_of (ua_map ua), framebuffer = fb,
      kernel_phys_base = lb, kernel_virt_base = img_min (elf_phdrs elf), early_heap_paddr = heap,
      early_heap_len = 0x4000000, hhdm_base = HHDM_BASE, low32_pool_paddr = low32, low32_pool_len = 0x200000\<rparr>"

lemma loader_run:
  assumes elf: "kernel_elf elf" and fw: "firmware_ok lim elf ua raw low32 bi tramp stack heap memmap g"
  obtains lb m1 ends fb pml4 st where
    "loader_main dbg elf ua m0 = Ok \<lparr>ho_boot = boot_record elf ua lb low32 heap fb, ho_pml4 = pml4, ho_tables = st,
       ho_stack = ((stack + 65536) AND NOT 0xF) - 8, ho_entry = elf_entry elf, ho_mem = copy_bytes tramp TRAMP_CODE m1\<rparr>"
    "raw \<le> lb" "unat lb + unat (img_len elf) \<le> unat raw + img_pages elf * 4096"
    "copied lb (img_min (elf_phdrs elf)) (elf_bytes elf) (filter loadable (elf_phdrs elf)) (write_bytes lb 0 (unat (img_len elf)) m0) m1"
    "{tramp + 4096, bi + 4096, stack + 65536, heap + 0x4000000, memmap + of_nat (map_pages (ua_map ua)) * 4096} \<subseteq> set ends"
    "\<forall>e \<in> set ends. e \<le> lim" "get_framebuffer dbg (Some g) = Ok fb"
    "address_space pml4 st lb (img_min (elf_phdrs elf)) (img_max (elf_phdrs elf)) (ident_hi_of ends) (phys_max_of (map region_of (ua_map ua)))"
proof -
  let ?mn = "img_min (elf_phdrs elf)" and ?mx = "img_max (elf_phdrs elf)" and ?al = "img_align (elf_phdrs elf)"
  note f = fw [unfolded firmware_ok_def]
  obtain pages lb where img: "u_sub dbg ?mx ?mn = Ok (img_len elf)" "image_pages dbg (img_len elf) ?al = Ok pages"
    "boot_align_up dbg raw ?al = Ok lb" "page_aligned lb" "raw \<le> lb" "unat lb + unat (img_len elf) \<le> unat raw + img_pages elf * 4096"
    by (rule image_placed [OF elf, of lim raw dbg]) (use f in blast)+
  have lb: "block lim lb (unat (img_len elf))"
    using f img(6) by (simp add: block_def)
  obtain m1 where m1: "copy_segments dbg lb ?mn (elf_bytes elf) (elf_phdrs elf) (write_bytes lb 0 (unat (img_len elf)) m0) = Ok m1"
    "copied lb ?mn (elf_bytes elf) (filter loadable (elf_phdrs elf)) (write_bytes lb 0 (unat (img_len elf)) m0) m1"
    using segments_copied [OF elf lb] by blast
  obtain fb where fb: "get_framebuffer dbg (Some g) = Ok fb" "fb_addr fb = gop_base g"
    "unat (fb_pitch fb) = unat (gop_stride g) * 4" "unat (fb_height fb) = unat (gop_height g)"
    by (rule get_framebuffer_ok [of lim g dbg]) (use f in blast)+
  obtain mb where mb: "u_mul dbg 40 (of_nat (length (ua_map ua)) :: u64) = Ok (40 * of_nat (length (ua_map ua)))"
    "u_add dbg (40 * of_nat (length (ua_map ua)) :: u64) 0xFFF = Ok mb" "unat (mb div 0x1000) = map_pages (ua_map ua)"
    by (rule map_bytes_ok [of "length (ua_map ua)" dbg]) (use f in \<open>auto simp: map_pages_def\<close>)
  have he: "u_add dbg heap 0x4000000 = Ok (heap + 0x4000000)" "heap + 0x4000000 \<le> lim" "u_add dbg stack 65536 = Ok (stack + 65536)"
    using f by (auto intro!: block_end [of lim])
  obtain ends where ends: "ident_ends dbg tramp bi (stack + 65536) lb (img_len elf) (heap + 0x4000000) memmap (mb div 0x1000) fb = Ok ends"
    "\<forall>e \<in> set ends. e \<le> lim"
    "{tramp + 4096, bi + 4096, stack + 65536, lb + img_len elf, heap + 0x4000000, memmap + (mb div 0x1000) * 4096} \<subseteq> set ends"
    by (rule ident_ends_ok [of lim tramp bi stack lb "img_len elf" memmap "mb div 0x1000" "heap + 0x4000000" fb dbg])
      (use f lb fb mb(3) he in \<open>simp_all add: gop_ok_def\<close>)
  note hi = ident_hi_bounds(1) [OF ends(2)] and pm = phys_max_bounds(1) [of lim "ua_map ua"]
  have "exec_layout lb ?mn ?mx (ident_hi_of ends) (phys_max_of (map region_of (ua_map ua)))"
    "enough_pages ?mn ?mx (ident_hi_of ends) (phys_max_of (map region_of (ua_map ua))) (ua_tables ua)"
    using f hi pm by (auto intro!: kernel_layout [OF elf img(4) lb] enough_pages_mono [of _ _ lim])
  then obtain pml4 st where pt: "build_pagetables_exec dbg lb ?mn ?mx (ident_hi_of ends) (phys_max_of (map region_of (ua_map ua))) (ua_tables ua) = Ok (Some (pml4, st))"
    "address_space pml4 st lb ?mn ?mx (ident_hi_of ends) (phys_max_of (map region_of (ua_map ua)))"
    using build_space by blast
  show thesis
  proof (rule that [OF _ img(5,6) m1(2) _ ends(2) fb(1) pt(2)])
    show "loader_main dbg elf ua m0 = Ok \<lparr>ho_boot = boot_record elf ua lb low32 heap fb, ho_pml4 = pml4, ho_tables = st,
       ho_stack = ((stack + 65536) AND NOT 0xF) - 8, ho_entry = elf_entry elf, ho_mem = copy_bytes tramp TRAMP_CODE m1\<rparr>"
      using f elf build_memory_regions_eq [of lim "ua_map ua" dbg]
      by (simp add: loader_main_def load_image_def prepare_handoff_def layout_loads_eq img m1(1) fb(1) mb he ends(1) pt(1) must_def EARLY_HEAP_PAGES_def boot_record_def kernel_elf_def)
    show "{tramp + 4096, bi + 4096, stack + 65536, heap + 0x4000000, memmap + of_nat (map_pages (ua_map ua)) * 4096} \<subseteq> set ends"
      using ends(3) unfolding mb(3) [symmetric] by simp
  qed
qed

text \<open>The trampoline code leaves the image as copied.\<close>

lemma tramp_outside_image:
  assumes "raw \<le> lb" "unat lb + n \<le> unat raw + len" "unat raw + len \<le> 2 ^ 46" "unat tramp + 4096 \<le> 2 ^ 46"
    "unat tramp + 4096 \<le> unat raw \<or> unat raw + len \<le> unat tramp" "unat off < n"
  shows "copy_bytes tramp TRAMP_CODE m (lb + off) = m (lb + off)"
proof -
  have "unat (lb + off) = unat lb + unat off"
    using assms by (intro unat_add_ok) simp
  then have "\<not> unat (lb + off - tramp) < 4096"
    using assms by (subst sub_less_iff) (auto simp: word_le_nat_alt)
  then show ?thesis
    by (simp add: copy_bytes_def TRAMP_CODE_def)
qed

lemma image_byte:
  assumes elf: "kernel_elf elf" and sp: "address_space c st lb (img_min (elf_phdrs elf)) (img_max (elf_phdrs elf)) hi pm"
    and m1: "copied lb (img_min (elf_phdrs elf)) (elf_bytes elf) (filter loadable (elf_phdrs elf)) m m1"
    and ph: "ph \<in> set (elf_phdrs elf)" "loadable ph" "i < unat (ph_memsz ph)"
    and lb: "raw \<le> lb" "unat lb + unat (img_len elf) \<le> unat raw + len" "unat raw + len \<le> 2 ^ 46" "unat tramp + 4096 \<le> 2 ^ 46"
      "unat tramp + 4096 \<le> unat raw \<or> unat raw + len \<le> unat tramp"
  shows "walk c st (ph_vaddr ph + of_nat i) = Some (lb + (ph_vaddr ph + of_nat i - img_min (elf_phdrs elf)))"
    "copy_bytes tramp TRAMP_CODE m1 (lb + (ph_vaddr ph + of_nat i - img_min (elf_phdrs elf))) = seg_byte (elf_bytes elf) ph i"
proof -
  let ?mn = "img_min (elf_phdrs elf)" and ?mx = "img_max (elf_phdrs elf)" and ?w = "ph_vaddr ph + of_nat i"
  have i: "unat (of_nat i :: u64) = i"
    using ph(3) unat_le_64 [of "ph_memsz ph"] by (intro unat_of_nat_64) simp
  have w: "unat ?w = unat (ph_vaddr ph) + i"
    using kernel_elf_seg [OF elf ph(1,2)] ph(3) i by (subst unat_add_ok) (auto simp: seg_ok_def)
  have le: "?mn \<le> ?w" "?w < ?mx"
    using img_min_le [OF ph(1,2)] img_max_ge [OF elf ph(1,2)] ph(3) w by (simp_all add: word_le_nat_alt word_less_nat_alt)
  then show "walk c st ?w = Some (lb + (?w - ?mn))"
    using sp unfolding address_space_def by blast
  have d: "unat (?w - ph_vaddr ph) = i"
    using i by simp
  have "\<forall>w. unat (w - ph_vaddr ph) < unat (ph_memsz ph) \<longrightarrow> m1 (lb + (w - ?mn)) = seg_byte (elf_bytes elf) ph (unat (w - ph_vaddr ph))"
    using m1 ph(1,2) unfolding copied_def by simp
  from this [rule_format, of ?w] have "m1 (lb + (?w - ?mn)) = seg_byte (elf_bytes elf) ph i"
    unfolding d using ph(3) .
  moreover have "unat (?w - ?mn) < unat (img_len elf)"
    using le by (simp add: img_len_def unat_sub word_le_nat_alt word_less_nat_alt)
  ultimately show "copy_bytes tramp TRAMP_CODE m1 (lb + (?w - ?mn)) = seg_byte (elf_bytes elf) ph i"
    using tramp_outside_image [OF lb] by simp
qed

lemma direct_byte:
  assumes sp: "address_space c st lb mn mx hi (phys_max_of (map region_of ds))" and ok: "list_all (desc_ok lim) ds"
    and d: "d \<in> set ds" "i < unat (md_page_count d) * 4096"
  shows "walk c st (HHDM_BASE + (md_phys_start d + of_nat i)) = Some (md_phys_start d + of_nat i)"
proof -
  have le: "unat (md_phys_start d) + unat (md_page_count d) * 4096 \<le> unat (phys_max_of (map region_of ds))"
    by (rule phys_max_bounds(2) [OF ok d(1)])
  have i: "unat (of_nat i :: u64) = i"
    using le d(2) unat_le_64 [of "phys_max_of (map region_of ds)"] by (intro unat_of_nat_64) simp
  then have "unat (md_phys_start d + of_nat i) = unat (md_phys_start d) + i"
    using le d(2) unat_le_64 [of "phys_max_of (map region_of ds)"] by (subst unat_add_ok) simp_all
  then have "md_phys_start d + of_nat i < phys_max_of (map region_of ds)"
    using le d(2) by (simp add: word_less_nat_alt)
  then show ?thesis
    using sp unfolding address_space_def by blast
qed

lemma block_identity:
  assumes sp: "address_space c st lb mn mx hi pm" and e: "a + of_nat n \<le> hi" "unat (a + of_nat n) = unat a + n"
    and x: "a \<le> x" "unat x < unat a + n" "0x1000 \<le> x" "\<not> (mn \<le> x \<and> x < mx)"
  shows "walk c st x = Some x"
proof -
  have "x < hi"
    using e x(2) by (simp add: word_less_nat_alt word_le_nat_alt)
  then have "x < max 0x200000 hi"
    by (simp add: less_max_iff_disj)
  then show ?thesis
    using sp x(3,4) unfolding address_space_def by blast
qed

section \<open>Properties\<close>


text \<open>A two-segment kernel linked at 1 MiB and a firmware with 8 GiB of memory.\<close>

definition example_kernel :: ElfFile where
  "example_kernel = \<lparr>elf_bytes = [1, 2, 3, 4, 5, 6], elf_header_ok = True,
     elf_phdrs = [\<lparr>ph_load = True, ph_vaddr = 0x100000, ph_memsz = 0x800, ph_filesz = 4, ph_offset = 0, ph_align = 0x1000\<rparr>,
       \<lparr>ph_load = False, ph_vaddr = 0, ph_memsz = 0, ph_filesz = 0, ph_offset = 0, ph_align = 0\<rparr>,
       \<lparr>ph_load = True, ph_vaddr = 0x101004, ph_memsz = 0x10, ph_filesz = 2, ph_offset = 4, ph_align = 0x1000\<rparr>],
     elf_entry = 0x100000\<rparr>"

definition example_firmware :: UefiAnswers where
  "example_firmware = \<lparr>ua_raw_base = Some 0x3000000, ua_low32 = Some 0x2000000, ua_bi_page = Some 0x2300000,
     ua_tramp_page = Some 0x2301000, ua_stack = Some 0x2310000, ua_early_heap = Some 0x4000000,
     ua_map = [\<lparr>md_ty = CONVENTIONAL, md_phys_start = 0, md_page_count = 0x100000, md_att = 0xF\<rparr>],
     ua_memmap_pages = Some 0x2302000,
     ua_gop = Some \<lparr>gop_base = 0x80000000, gop_width = 1024, gop_height = 768, gop_stride = 1024, gop_format = Bgr\<rparr>,
     ua_config = [\<lparr>ce_guid = OtherGuid, ce_address = 1\<rparr>, \<lparr>ce_guid = ACPI2_GUID, ce_address = 0xE0000\<rparr>],
     ua_tables = \<lparr>pmem = (\<lambda>_ _. 0), avail = page_list 0x1100000\<rparr>\<rparr>"

lemma example_kernel_ok: "kernel_elf example_kernel"
proof -
  have "(0x1000 :: u64) \<in> set (0 # map (\<lambda>k. 2 ^ k) [0..<31])"
    by (simp add: image_iff) (rule bexI [of _ 12], simp_all)
  then show ?thesis
    by (simp add: kernel_elf_def example_kernel_def seg_ok_def loadable_def segs_apart_def img_min_def)
qed

lemma example_image:
  "img_min (elf_phdrs example_kernel) = 0x100000" "img_max (elf_phdrs example_kernel) = 0x102000"
  "img_align (elf_phdrs example_kernel) = 0x1000" "img_pages example_kernel = 4"
  by (simp_all add: example_kernel_def img_min_def img_max_def img_align_def img_len_def img_pages_def loadable_def)

lemma example_firmware_ok:
  "firmware_ok 0x200000000 example_kernel example_firmware 0x3000000 0x2000000 0x2300000 0x2301000 0x2310000 0x4000000 0x2302000
     \<lparr>gop_base = 0x80000000, gop_width = 1024, gop_height = 768, gop_stride = 1024, gop_format = Bgr\<rparr>"
proof -
  have "length (page_list 0x1100000) = 0x1100000 - 256"
    unfolding page_list_def length_map by (rule length_upt)
  then have "enough_pages 0x100000 0x102000 0x200000000 0x200000000 (ua_tables example_firmware)"
    using page_list_supply [of "0x1100000"] by (simp add: enough_pages_def exec_supply_def page_no_def example_firmware_def)
  then show ?thesis
    unfolding firmware_ok_def example_image by (simp add: example_firmware_def block_def gop_ok_def desc_ok_def map_pages_def)
qed


end
