(* ===== verification/Reserved.thy ===== *)
theory Reserved
  imports Bootinfo
begin

unbundle bit_operations_syntax

text \<open>
  The table of reserved physical ranges (\<^verbatim>\<open>mem/reserved.rs\<close>): its entries, the operations
  that fill and query it, and its initialisation from the boot record. The abstract view of a
  table is the set of 4 KiB pages it keeps from the frame allocators.
\<close>

section \<open>State and operations\<close>

datatype ResvKind =
    Firmware u32
  | Kernel
  | FramebufferMem
  | Mmio
  | Trampoline
  | Other u32

record Resv =
  resv_start :: u64
  resv_end :: u64
  resv_kind :: ResvKind

definition MAX_RESV :: nat where
  "MAX_RESV = 128"

definition reset :: "Resv list" where
  "reset = []"

definition reserve_range ::
  "Resv hvec_ops \<Rightarrow> bool \<Rightarrow> Resv list \<Rightarrow> u64 \<Rightarrow> u64 \<Rightarrow> ResvKind \<Rightarrow> (bool \<times> Resv list) res" where
  "reserve_range hv dbg v start len kind =
     (if len = 0 then Ok (True, v)
      else let s = align_down start 0x1000 in
        rbind (u_add dbg start len) (\<lambda>t.
        rbind (align_up dbg t 0x1000) (\<lambda>e.
          case hv_push hv v \<lparr>resv_start = s, resv_end = e, resv_kind = kind\<rparr> of
            Some v' \<Rightarrow> Ok (True, v')
          | None \<Rightarrow> Ok (False, v))))"

definition is_reserved_range :: "bool \<Rightarrow> Resv list \<Rightarrow> u64 \<Rightarrow> u64 \<Rightarrow> bool res" where
  "is_reserved_range dbg v phys len =
     (if len = 0 then Ok False
      else let s = align_down phys 0x1000 in
        rbind (u_add dbg phys len) (\<lambda>t.
        rbind (align_up dbg t 0x1000) (\<lambda>e.
          Ok (list_ex (\<lambda>r. s < resv_end r \<and> resv_start r < e) v))))"

definition is_reserved_page :: "bool \<Rightarrow> Resv list \<Rightarrow> u64 \<Rightarrow> bool res" where
  "is_reserved_page dbg v phys = is_reserved_range dbg v phys 0x1000"

text \<open>A call whose result is dropped (\<open>let _ = reserve_range(..)\<close>).\<close>

definition reserve_ignoring ::
  "Resv hvec_ops \<Rightarrow> bool \<Rightarrow> u64 \<Rightarrow> u64 \<Rightarrow> ResvKind \<Rightarrow> Resv list \<Rightarrow> Resv list res" where
  "reserve_ignoring hv dbg start len kind v =
     rbind (reserve_range hv dbg v start len kind) (\<lambda>(_, v'). Ok v')"

fun reserve_regions ::
  "Resv hvec_ops \<Rightarrow> bool \<Rightarrow> u64 \<Rightarrow> u64 \<Rightarrow> MemoryRegion list \<Rightarrow> Resv list \<Rightarrow> Resv list res" where
  "reserve_regions hv dbg l32_lo l32_hi [] v = Ok v"
| "reserve_regions hv dbg l32_lo l32_hi (mr # mm) v =
     (let mr_lo = phys_start mr;
          mr_hi = saturating_add (phys_start mr) (mr_len mr);
          overlaps_low32 = (\<not> (mr_hi \<le> l32_lo \<or> l32_hi \<le> mr_lo))
      in rbind (if mr_typ mr \<noteq> 1 \<and> \<not> overlaps_low32
                then reserve_ignoring hv dbg (phys_start mr) (mr_len mr) (Firmware (mr_typ mr)) v
                else Ok v)
           (reserve_regions hv dbg l32_lo l32_hi mm))"

definition RESV_TRAMP_PHYS :: u64 where
  "RESV_TRAMP_PHYS = 0x8000"

text \<open>
  \<open>k_start\<close> and \<open>k_end\<close> are the addresses of the linker symbols \<open>__kernel_start\<close> and
  \<open>__kernel_end\<close>.
\<close>

definition init :: "Resv hvec_ops \<Rightarrow> bool \<Rightarrow> u64 \<Rightarrow> u64 \<Rightarrow> BootInfo \<Rightarrow> Resv list res" where
  "init hv dbg k_start k_end boot =
     (let l32_lo = low32_pool_paddr boot; fb = framebuffer boot in
      rbind (u_add dbg l32_lo (low32_pool_len boot)) (\<lambda>l32_hi.
      rbind (reserve_regions hv dbg l32_lo l32_hi (memory_map boot) reset) (\<lambda>v.
      rbind (if fb_addr fb \<noteq> 0 \<and> fb_pitch fb \<noteq> 0
             then rbind (u_mul dbg (ucast (fb_pitch fb)) (ucast (fb_height fb))) (\<lambda>fb_len.
                    reserve_ignoring hv dbg (fb_addr fb) fb_len FramebufferMem v)
             else Ok v) (\<lambda>v.
      rbind (reserve_ignoring hv dbg 0 (low32_pool_paddr boot) (Firmware 0) v) (\<lambda>v.
      rbind (u_add dbg (early_heap_paddr boot) (early_heap_len boot)) (\<lambda>heap_end.
      rbind (reserve_ignoring hv dbg heap_end 0x100000 (Firmware 0) v) (\<lambda>v.
      rbind (reserve_ignoring hv dbg RESV_TRAMP_PHYS 0x1000 Trampoline v) (\<lambda>v.
      rbind (reserve_ignoring hv dbg 0xFEE00000 0x1000 Mmio v) (\<lambda>v.
      rbind (reserve_ignoring hv dbg 0xFEC00000 0x1000 Mmio v) (\<lambda>v.
      rbind (u_sub dbg k_end k_start) (\<lambda>k_size.
        reserve_ignoring hv dbg (kernel_phys_base boot) k_size Kernel v)))))))))))"

section \<open>The abstract view: the set of reserved pages\<close>

text \<open>
  \<open>covers a l\<close> is the set of page addresses (multiples of 4096) of the pages that meet the
  byte range \<open>[a, a + l)\<close>; \<open>resv_pages v\<close> is the set of pages some entry of the table meets.
\<close>

definition covers :: "nat \<Rightarrow> nat \<Rightarrow> nat set" where
  "covers a l = {p. 4096 dvd p \<and> 0 < l \<and> p < a + l \<and> a < p + 4096}"

definition resv_pages :: "Resv list \<Rightarrow> nat set" where
  "resv_pages v =
     {p. 4096 dvd p \<and> (\<exists>r \<in> set v. unat (resv_start r) \<le> p \<and> p < unat (resv_end r))}"

definition resv_wf :: "Resv list \<Rightarrow> bool" where
  "resv_wf v \<longleftrightarrow> length v \<le> MAX_RESV \<and> (\<forall>r \<in> set v. page_aligned (resv_start r) \<and> page_aligned (resv_end r))"

text \<open>
  What the kernel means to keep from the allocators, read off the boot record: every non-usable
  region that does not overlap the low pool, the framebuffer, the memory below the low pool, the
  mebibyte after the early heap, the SIPI page, the two APIC pages and the kernel image.
\<close>

definition firmware_region :: "nat \<Rightarrow> nat \<Rightarrow> MemoryRegion \<Rightarrow> bool" where
  "firmware_region lo hi mr \<longleftrightarrow> mr_typ mr \<noteq> 1 \<and>
     (unat (phys_start mr) + unat (mr_len mr) \<le> lo \<or> hi \<le> unat (phys_start mr))"

definition firmware_pages :: "nat \<Rightarrow> nat \<Rightarrow> MemoryRegion list \<Rightarrow> nat set" where
  "firmware_pages lo hi mm =
     (\<Union>mr \<in> {mr \<in> set mm. firmware_region lo hi mr}. covers (unat (phys_start mr)) (unat (mr_len mr)))"

definition boot_reserved_pages :: "u64 \<Rightarrow> u64 \<Rightarrow> BootInfo \<Rightarrow> nat set" where
  "boot_reserved_pages k_start k_end boot =
     firmware_pages (unat (low32_pool_paddr boot))
       (unat (low32_pool_paddr boot) + unat (low32_pool_len boot)) (memory_map boot) \<union>
     (if fb_addr (framebuffer boot) \<noteq> 0
      then covers (unat (fb_addr (framebuffer boot)))
             (unat (fb_pitch (framebuffer boot)) * unat (fb_height (framebuffer boot)))
      else {}) \<union>
     covers 0 (unat (low32_pool_paddr boot)) \<union>
     covers (unat (early_heap_paddr boot) + unat (early_heap_len boot)) 0x100000 \<union>
     covers 0x8000 0x1000 \<union> covers 0xFEE00000 0x1000 \<union> covers 0xFEC00000 0x1000 \<union>
     covers (unat (kernel_phys_base boot)) (unat k_end - unat k_start)"

text \<open>No range of the boot record wraps around the address space, and the table has room.\<close>

definition boot_fits :: "u64 \<Rightarrow> u64 \<Rightarrow> BootInfo \<Rightarrow> bool" where
  "boot_fits k_start k_end boot \<longleftrightarrow>
     length (memory_map boot) + 7 \<le> MAX_RESV \<and>
     (\<forall>mr \<in> set (memory_map boot). unat (phys_start mr) + unat (mr_len mr) + 4095 < 2 ^ 64) \<and>
     unat (fb_addr (framebuffer boot)) +
       unat (fb_pitch (framebuffer boot)) * unat (fb_height (framebuffer boot)) + 4095 < 2 ^ 64 \<and>
     unat (low32_pool_paddr boot) + unat (low32_pool_len boot) < 2 ^ 64 \<and>
     unat (low32_pool_paddr boot) + 4095 < 2 ^ 64 \<and>
     unat (early_heap_paddr boot) + unat (early_heap_len boot) + 0x100000 + 4095 < 2 ^ 64 \<and>
     k_start \<le> k_end \<and>
     unat (kernel_phys_base boot) + (unat k_end - unat k_start) + 4095 < 2 ^ 64"

section \<open>Queries\<close>

lemma page_interval_meets:
  fixes p s e :: nat
  assumes "4096 dvd p" "4096 dvd s" "4096 dvd e"
  shows "p < e \<and> s < p + 4096 \<longleftrightarrow> s \<le> p \<and> p < e"
  using assms page_multiple_less by auto

lemma align_up_next_page:
  assumes "page_aligned p" "unat p + 8192 \<le> 2 ^ 64"
  shows "rbind (u_add dbg p 0x1000) (\<lambda>t. align_up dbg t 0x1000) = Ok (p + 0x1000)"
    and "unat (p + 0x1000) = unat p + 4096"
proof -
  show un: "unat (p + 0x1000) = unat p + 4096"
    using assms by (simp add: unat_add_ok)
  obtain y where "align_up dbg (p + 0x1000) 0x1000 = Ok y"
    and "unat y = (unat (p + 0x1000) + 4095) - (unat (p + 0x1000) + 4095) mod 4096"
    by (rule align_up_page [of "p + 0x1000" dbg]) (use assms un in auto)
  moreover from this(2) have "unat y = unat (p + 0x1000)"
    using assms(1) un round_up_page [of "unat p + 4096"] by simp
  ultimately show "rbind (u_add dbg p 0x1000) (\<lambda>t. align_up dbg t 0x1000) = Ok (p + 0x1000)"
    using assms by (simp add: u_add_ok word_unat_eq_iff)
qed

lemma is_reserved_page_iff:
  assumes "resv_wf v" "page_aligned p" "unat p + 8192 \<le> 2 ^ 64"
  shows "is_reserved_page dbg v p = Ok (unat p \<in> resv_pages v)"
proof -
  note next_page = align_up_next_page [OF assms(2,3)]
  have "is_reserved_page dbg v p = rbind (rbind (u_add dbg p 0x1000) (\<lambda>t. align_up dbg t 0x1000))
      (\<lambda>e. Ok (list_ex (\<lambda>r. p < resv_end r \<and> resv_start r < e) v))"
    by (simp add: is_reserved_page_def is_reserved_range_def align_down_id [OF assms(2)] rbind_assoc)
  also have "\<dots> = Ok (list_ex (\<lambda>r. p < resv_end r \<and> resv_start r < p + 0x1000) v)"
    by (simp add: next_page(1))
  also have "list_ex (\<lambda>r. p < resv_end r \<and> resv_start r < p + 0x1000) v \<longleftrightarrow> unat p \<in> resv_pages v"
    using assms page_interval_meets [of "unat p"]
    by (auto simp: list_ex_iff resv_pages_def resv_wf_def word_less_nat_alt next_page(2))
  finally show ?thesis .
qed

section \<open>Insertion\<close>

lemma covers_rounded:
  fixes a l p :: nat
  assumes "0 < l" "4096 dvd p"
  shows "a - a mod 4096 \<le> p \<and> p < (a + l + 4095) - (a + l + 4095) mod 4096 \<longleftrightarrow> p \<in> covers a l"
proof -
  define b where "b = a + l + 4095"
  have a: "a mod 4096 < 4096" "4096 dvd (a - a mod 4096)"
    and b: "b mod 4096 < 4096" "4096 dvd (b - b mod 4096)"
    by (simp_all add: dvd_minus_mod)
  have "a - a mod 4096 \<le> p \<longleftrightarrow> a - a mod 4096 < p + 4096"
    using page_multiple_less [OF assms(2) a(2)] by simp
  moreover have "a - a mod 4096 < p + 4096 \<longleftrightarrow> a < p + 4096"
  proof
    assume "a - a mod 4096 < p + 4096"
    with page_multiple_less [OF assms(2) a(2)] show "a < p + 4096"
      using a(1) by linarith
  qed simp
  moreover have "p < b - b mod 4096 \<longleftrightarrow> p + 4096 \<le> b - b mod 4096"
    using page_multiple_less [OF assms(2) b(2)] by linarith
  moreover have "p + 4096 \<le> b - b mod 4096 \<longleftrightarrow> p + 4096 \<le> b"
  proof
    assume "p + 4096 \<le> b"
    then have "p + 4096 < b - b mod 4096 + 4096"
      using b(1) by linarith
    moreover have "4096 dvd p + 4096"
      using assms(2) by simp
    ultimately show "p + 4096 \<le> b - b mod 4096"
      using page_multiple_less [OF b(2)] by blast
  qed linarith
  ultimately show ?thesis
    using assms unfolding covers_def b_def by auto
qed

lemma covers_eq:
  fixes a l :: nat
  assumes "0 < l"
  shows "{p. 4096 dvd p \<and> a - a mod 4096 \<le> p \<and>
           p < (a + l + 4095) - (a + l + 4095) mod 4096} = covers a l"
  using covers_rounded [OF assms, of _ a] by (auto simp: covers_def)

lemma resv_pages_snoc:
  "resv_pages (v @ [r]) =
     resv_pages v \<union> {p. 4096 dvd p \<and> unat (resv_start r) \<le> p \<and> p < unat (resv_end r)}"
  by (auto simp: resv_pages_def)

lemma reserve_range_entry:
  assumes "hvec_api MAX_RESV hv" "len \<noteq> 0" "unat start + unat len + 4095 < 2 ^ 64"
  obtains e where "unat e = (unat start + unat len + 4095) - (unat start + unat len + 4095) mod 4096"
    and "reserve_range hv dbg v start len kind =
      (if length v < MAX_RESV
       then Ok (True, v @ [\<lparr>resv_start = align_down start 0x1000, resv_end = e, resv_kind = kind\<rparr>])
       else Ok (False, v))"
proof -
  have add: "u_add dbg start len = Ok (start + len)" "unat (start + len) = unat start + unat len"
    using assms(3) by (simp_all add: u_add_ok unat_add_ok)
  obtain e where "align_up dbg (start + len) 0x1000 = Ok e"
    and "unat e = (unat (start + len) + 4095) - (unat (start + len) + 4095) mod 4096"
    by (rule align_up_page [of "start + len" dbg]) (use assms add in auto)
  with assms(1,2) add show thesis
    by (intro that [of e]) (simp_all add: reserve_range_def hvec_push)
qed

lemma reserve_range_ok:
  assumes "hvec_api MAX_RESV hv" "resv_wf v" "length v < MAX_RESV"
    and "unat start + unat len + 4095 < 2 ^ 64"
  shows "\<exists>v'. reserve_range hv dbg v start len kind = Ok (True, v') \<and> resv_wf v' \<and>
    length v' \<le> Suc (length v) \<and> resv_pages v' = resv_pages v \<union> covers (unat start) (unat len)"
proof (cases "len = 0")
  case True
  with assms show ?thesis
    by (simp add: reserve_range_def covers_def)
next
  case False
  then obtain e where e: "unat e = (unat start + unat len + 4095) - (unat start + unat len + 4095) mod 4096"
    and r: "reserve_range hv dbg v start len kind =
      (if length v < MAX_RESV
       then Ok (True, v @ [\<lparr>resv_start = align_down start 0x1000, resv_end = e, resv_kind = kind\<rparr>])
       else Ok (False, v))"
    by (rule reserve_range_entry [OF assms(1) _ assms(4)])
  have "page_aligned e"
    by (simp add: e dvd_minus_mod)
  moreover have "0 < unat len"
    using False by (simp add: unat_gt_0)
  ultimately show ?thesis
    using assms(2,3) r
    by (simp add: resv_wf_def resv_pages_snoc align_down_mod align_down_page e covers_eq)
qed

lemma reserve_range_full:
  assumes "hvec_api MAX_RESV hv" "length v = MAX_RESV" "len \<noteq> 0"
    and "unat start + unat len + 4095 < 2 ^ 64"
  shows "reserve_range hv dbg v start len kind = Ok (False, v)"
proof -
  obtain e where "reserve_range hv dbg v start len kind =
      (if length v < MAX_RESV
       then Ok (True, v @ [\<lparr>resv_start = align_down start 0x1000, resv_end = e, resv_kind = kind\<rparr>])
       else Ok (False, v))"
    by (rule reserve_range_entry [OF assms(1,3,4)])
  then show ?thesis
    using assms(2) by simp
qed

lemma reserve_ignoring_ok:
  assumes "hvec_api MAX_RESV hv" "resv_wf v" "length v < MAX_RESV"
    and "unat start + unat len + 4095 < 2 ^ 64"
  obtains v' where "reserve_ignoring hv dbg start len kind v = Ok v'" "resv_wf v'"
    "length v' \<le> Suc (length v)" "resv_pages v' = resv_pages v \<union> covers (unat start) (unat len)"
  using reserve_range_ok [OF assms, of dbg kind] by (auto simp: reserve_ignoring_def)

lemma reserve_if_ok:
  assumes "hvec_api MAX_RESV hv" "resv_wf v" "length v < MAX_RESV"
    and "unat start + unat len + 4095 < 2 ^ 64"
  obtains v' where "(if b then reserve_ignoring hv dbg start len kind v else Ok v) = Ok v'" "resv_wf v'"
    "length v' \<le> Suc (length v)"
    "resv_pages v' = resv_pages v \<union> (if b then covers (unat start) (unat len) else {})"
proof (cases b)
  case True
  obtain v' where "reserve_ignoring hv dbg start len kind v = Ok v'" "resv_wf v'"
    "length v' \<le> Suc (length v)" "resv_pages v' = resv_pages v \<union> covers (unat start) (unat len)"
    by (rule reserve_ignoring_ok [OF assms])
  with True show thesis
    by (intro that [of v']) simp_all
next
  case False
  with assms(2) show thesis
    by (intro that [of v]) simp_all
qed

section \<open>Initialisation\<close>

lemma firmware_pages_Nil: "firmware_pages lo hi [] = {}"
  by (simp add: firmware_pages_def)

lemma firmware_pages_Cons:
  "firmware_pages lo hi (mr # mm) =
     (if firmware_region lo hi mr then covers (unat (phys_start mr)) (unat (mr_len mr)) else {}) \<union>
     firmware_pages lo hi mm"
  by (auto simp: firmware_pages_def)

lemma reserve_regions_Cons:
  assumes "unat (phys_start mr) + unat (mr_len mr) + 4095 < 2 ^ 64"
  shows "reserve_regions hv dbg lo hi (mr # mm) v =
    rbind (if firmware_region (unat lo) (unat hi) mr
           then reserve_ignoring hv dbg (phys_start mr) (mr_len mr) (Firmware (mr_typ mr)) v
           else Ok v) (reserve_regions hv dbg lo hi mm)"
proof -
  have "saturating_add (phys_start mr) (mr_len mr) = phys_start mr + mr_len mr"
    "unat (phys_start mr + mr_len mr) = unat (phys_start mr) + unat (mr_len mr)"
    using assms by (simp_all add: saturating_add_def unat_add_ok)
  then show ?thesis
    by (simp add: Let_def word_le_nat_alt firmware_region_def)
qed

lemma reserve_regions_ok:
  assumes "hvec_api MAX_RESV hv" "resv_wf v" "length v + length mm \<le> MAX_RESV"
    and "\<forall>mr \<in> set mm. unat (phys_start mr) + unat (mr_len mr) + 4095 < 2 ^ 64"
  shows "\<exists>v'. reserve_regions hv dbg lo hi mm v = Ok v' \<and> resv_wf v' \<and>
    length v' \<le> length v + length mm \<and>
    resv_pages v' = resv_pages v \<union> firmware_pages (unat lo) (unat hi) mm"
  using assms(2-)
proof (induction mm arbitrary: v)
  case Nil
  then show ?case by (simp add: firmware_pages_Nil)
next
  case (Cons mr mm)
  let ?fw = "firmware_region (unat lo) (unat hi) mr"
  let ?cov = "if ?fw then covers (unat (phys_start mr)) (unat (mr_len mr)) else {}"
  have fits: "unat (phys_start mr) + unat (mr_len mr) + 4095 < 2 ^ 64" "length v < MAX_RESV"
    using Cons.prems(2,3) by simp_all
  obtain v1 where v1: "(if ?fw then reserve_ignoring hv dbg (phys_start mr) (mr_len mr) (Firmware (mr_typ mr)) v
      else Ok v) = Ok v1" "resv_wf v1" "length v1 \<le> Suc (length v)" "resv_pages v1 = resv_pages v \<union> ?cov"
    by (rule reserve_if_ok [OF assms(1) Cons.prems(1) fits(2,1)])
  have "length v1 + length mm \<le> MAX_RESV"
    using v1(3) Cons.prems(2) by simp
  from Cons.IH [OF v1(2) this] Cons.prems(3)
  obtain v2 where "reserve_regions hv dbg lo hi mm v1 = Ok v2" "resv_wf v2"
    "length v2 \<le> length v1 + length mm"
    "resv_pages v2 = resv_pages v1 \<union> firmware_pages (unat lo) (unat hi) mm"
    by auto
  with v1 show ?case
    by (intro exI [of _ v2])
      (simp add: reserve_regions_Cons [OF fits(1)] firmware_pages_Cons Un_assoc del: reserve_regions.simps)
qed

lemma framebuffer_len:
  "u_mul dbg (ucast (p :: u32)) (ucast (h :: u32)) = Ok (ucast p * ucast h :: u64)"
  "unat (ucast p * ucast h :: u64) = unat p * unat h"
proof -
  have "unat p \<le> 4294967295" "unat h \<le> 4294967295"
    using unat_less_32 [of p] unat_less_32 [of h] by linarith+
  then have "unat p * unat h \<le> 4294967295 * 4294967295"
    by (rule mult_le_mono)
  also have "\<dots> < (2 :: nat) ^ 64"
    by simp
  finally have small: "unat p * unat h < 2 ^ 64" .
  have up: "unat (ucast p :: u64) = unat p" "unat (ucast h :: u64) = unat h"
    by (simp_all add: unsigned_ucast_eq take_bit_nat_eq_self_iff order.strict_trans [OF unsigned_less])
  show "u_mul dbg (ucast p) (ucast h) = Ok (ucast p * ucast h :: u64)"
    using small by (simp add: u_mul_ok up)
  show "unat (ucast p * ucast h :: u64) = unat p * unat h"
    using small by (simp add: unat_mult_lem [THEN iffD1] up)
qed

text \<open>
  \<open>holds n S m\<close>: the computation \<open>m\<close> returns a well-formed table of at most \<open>n\<close> entries that
  reserves exactly the pages \<open>S\<close>. Each reservation adds its pages and one entry.
\<close>

definition holds :: "nat \<Rightarrow> nat set \<Rightarrow> Resv list res \<Rightarrow> bool" where
  "holds n S m \<longleftrightarrow> (\<exists>v. m = Ok v \<and> resv_wf v \<and> length v \<le> n \<and> resv_pages v = S)"

lemma holds_reserve_if:
  assumes "hvec_api MAX_RESV hv" "holds n S m" "n < MAX_RESV" "unat start + unat len + 4095 < 2 ^ 64"
  shows "holds (Suc n) (S \<union> (if b then covers (unat start) (unat len) else {}))
    (rbind m (\<lambda>v. if b then reserve_ignoring hv dbg start len kind v else Ok v))"
proof -
  obtain v where v: "m = Ok v" "resv_wf v" "length v \<le> n" "resv_pages v = S"
    using assms(2) by (auto simp: holds_def)
  obtain v' where "(if b then reserve_ignoring hv dbg start len kind v else Ok v) = Ok v'" "resv_wf v'"
    "length v' \<le> Suc (length v)"
    "resv_pages v' = resv_pages v \<union> (if b then covers (unat start) (unat len) else {})"
    by (rule reserve_if_ok [OF assms(1) v(2) _ assms(4)]) (use v(3) assms(3) in linarith)
  with v show ?thesis
    by (simp add: holds_def)
qed

lemmas holds_reserve = holds_reserve_if [where b = True, simplified if_True]

lemma holds_regions:
  assumes "hvec_api MAX_RESV hv" "length mm \<le> MAX_RESV"
    and "\<forall>mr \<in> set mm. unat (phys_start mr) + unat (mr_len mr) + 4095 < 2 ^ 64"
  shows "holds (length mm) (firmware_pages (unat lo) (unat hi) mm) (reserve_regions hv dbg lo hi mm reset)"
proof -
  have "resv_wf reset" "length reset = 0" "resv_pages reset = {}"
    by (simp_all add: resv_wf_def reset_def resv_pages_def)
  with reserve_regions_ok [OF assms(1), of reset mm dbg lo hi] assms(2,3) show ?thesis
    by (auto simp: holds_def)
qed

lemma init_holds:
  assumes api: "hvec_api MAX_RESV hv" and fits: "boot_fits k_start k_end boot"
  shows "holds (length (memory_map boot) + 7) (boot_reserved_pages k_start k_end boot)
    (init hv dbg k_start k_end boot)"
proof -
  let ?lo = "low32_pool_paddr boot" and ?fb = "framebuffer boot"
  let ?hi = "?lo + low32_pool_len boot" and ?heap = "early_heap_paddr boot + early_heap_len boot"
  let ?fb_len = "ucast (fb_pitch ?fb) * ucast (fb_height ?fb) :: u64"
  note f = fits [unfolded boot_fits_def]
  have low: "u_add dbg ?lo (low32_pool_len boot) = Ok ?hi" "unat ?hi = unat ?lo + unat (low32_pool_len boot)"
    using f by (simp_all add: u_add_ok unat_add_ok)
  have heap: "u_add dbg (early_heap_paddr boot) (early_heap_len boot) = Ok ?heap"
    "unat ?heap = unat (early_heap_paddr boot) + unat (early_heap_len boot)"
    using f by (simp_all add: u_add_ok unat_add_ok)
  have ksize: "u_sub dbg k_end k_start = Ok (k_end - k_start)" "unat (k_end - k_start) = unat k_end - unat k_start"
    using f by (simp_all add: u_sub_ok unat_sub)
  let ?res = "reserve_ignoring hv dbg"
  have "init hv dbg k_start k_end boot =
    rbind (rbind (rbind (rbind (rbind (rbind (rbind (reserve_regions hv dbg ?lo ?hi (memory_map boot) reset)
      (\<lambda>v. if fb_addr ?fb \<noteq> 0 \<and> fb_pitch ?fb \<noteq> 0 then ?res (fb_addr ?fb) ?fb_len FramebufferMem v else Ok v))
      (?res 0 ?lo (Firmware 0))) (?res ?heap 0x100000 (Firmware 0))) (?res RESV_TRAMP_PHYS 0x1000 Trampoline))
      (?res 0xFEE00000 0x1000 Mmio)) (?res 0xFEC00000 0x1000 Mmio))
      (?res (kernel_phys_base boot) (k_end - k_start) Kernel)"
    by (simp add: init_def Let_def low(1) heap(1) ksize(1) framebuffer_len(1) rbind_assoc cong: if_cong)
  moreover have "boot_reserved_pages k_start k_end boot =
    firmware_pages (unat ?lo) (unat ?hi) (memory_map boot) \<union>
      (if fb_addr ?fb \<noteq> 0 \<and> fb_pitch ?fb \<noteq> 0 then covers (unat (fb_addr ?fb)) (unat ?fb_len) else {}) \<union>
      covers (unat (0 :: u64)) (unat ?lo) \<union> covers (unat ?heap) (unat (0x100000 :: u64)) \<union>
      covers (unat RESV_TRAMP_PHYS) (unat (0x1000 :: u64)) \<union> covers (unat (0xFEE00000 :: u64)) (unat (0x1000 :: u64)) \<union>
      covers (unat (0xFEC00000 :: u64)) (unat (0x1000 :: u64)) \<union>
      covers (unat (kernel_phys_base boot)) (unat (k_end - k_start))"
    by (auto simp: boot_reserved_pages_def low heap ksize framebuffer_len RESV_TRAMP_PHYS_def covers_def)
  moreover have "length (memory_map boot) + 7 = Suc (Suc (Suc (Suc (Suc (Suc (Suc (length (memory_map boot))))))))"
    by simp
  ultimately show ?thesis
    by (simp only:) (intro holds_reserve holds_reserve_if holds_regions api; use f heap ksize in
      \<open>simp add: framebuffer_len RESV_TRAMP_PHYS_def\<close>)
qed

section \<open>Properties\<close>

text \<open>
  C5: Once \<open>init\<close> has run on a memory map that fits the table and the address space, a page query
  answers \<open>true\<close> exactly for the pages that overlap a firmware region outside the low pool, the
  framebuffer, the memory below the low pool, the megabyte after the early heap, the trampoline
  page, the two APIC pages or the kernel image: nothing is forgotten and nothing else is
  withheld, in both build profiles.
\<close>

theorem reserved_init_exact:
  assumes "hvec_api MAX_RESV hv" "boot_fits k_start k_end boot"
    and "page_aligned p" "unat p + 8192 \<le> 2 ^ 64"
  shows "rbind (init hv dbg k_start k_end boot) (\<lambda>v. is_reserved_page dbg v p) =
    Ok (unat p \<in> boot_reserved_pages k_start k_end boot)"
  using init_holds [OF assms(1,2), of dbg] is_reserved_page_iff [OF _ assms(3,4)]
  by (auto simp: holds_def)

definition example_boot :: BootInfo where
  "example_boot = \<lparr>rsdp_addr = 0xE0000,
     memory_map = [\<lparr>phys_start = 0x100000, virt_start = 0, mr_len = 0x4000000, mr_typ = 1, mr_attr = 0\<rparr>,
       \<lparr>phys_start = 0x4100000, virt_start = 0, mr_len = 0x3000, mr_typ = 3, mr_attr = 0\<rparr>],
     framebuffer = \<lparr>fb_addr = 0xC0000000, fb_width = 640, fb_height = 480, fb_pitch = 2560, fb_bpp = 32,
       fb_pixel_format = 0\<rparr>,
     kernel_phys_base = 0x200000, kernel_virt_base = 0xFFFFFFFF80000000,
     early_heap_paddr = 0x4100000, early_heap_len = 0x3000, hhdm_base = 0xFFFF880000000000,
     low32_pool_paddr = 0x9000, low32_pool_len = 0x1000\<rparr>"

lemma example_boot_fits: "boot_fits 0 0x5000 example_boot"
  by (simp add: boot_fits_def example_boot_def MAX_RESV_def)

theorem reserved_init_exact_witness:
  "rbind (init (list_hvec MAX_RESV) True 0 0x5000 example_boot) (\<lambda>v. is_reserved_page True v 0x204000) =
    Ok (unat (0x204000 :: u64) \<in> boot_reserved_pages 0 0x5000 example_boot)"
  by (rule reserved_init_exact [OF list_hvec_api example_boot_fits]) simp_all



end
