(* ===== verification/Frame_Alloc.thy ===== *)
theory Frame_Alloc
  imports Reserved
begin

unbundle bit_operations_syntax

text \<open>
  The physical frame allocators: the bump allocator \<open>TinyBump\<close> (\<^verbatim>\<open>mem/simple_alloc.rs\<close>), the
  list of usable ranges seeded from the boot memory map and taken from as a fallback, and
  \<open>TinyAllocGuard\<close>, which tries the first and then the second (\<^verbatim>\<open>mem/mod.rs\<close>). The locale
  \<open>frame_source\<close> is the contract all three keep: a frame is taken from a set of free
  pages, once.

  The parameter \<open>phys_frame\<close> is \<open>PhysFrame::containing_address(PhysAddr::new(a))\<close> of the
  \<^verbatim>\<open>x86_64\<close> crate, as the start address of the frame.
\<close>

section \<open>State and operations\<close>

record TinyBump =
  bump_next :: u64
  bump_end :: u64

definition TinyBump_new :: "u64 \<Rightarrow> u64 \<Rightarrow> TinyBump" where
  "TinyBump_new start e = \<lparr>bump_next = start, bump_end = e\<rparr>"

text \<open>
  The loop of \<open>allocate_frame\<close>. In the release profile the counter saturates at the top of the
  address space; a reserved candidate there would be tried for ever, which is the value
  \<open>CounterWrapped\<close>.
\<close>

function TinyBump_allocate_frame ::
  "(u64 \<Rightarrow> u64 res) \<Rightarrow> bool \<Rightarrow> Resv list \<Rightarrow> TinyBump \<Rightarrow> (u64 option \<times> TinyBump) res" where
  "TinyBump_allocate_frame phys_frame dbg resv b =
     rbind (u_add dbg (bump_next b) 0x1000) (\<lambda>n.
       if n \<le> bump_end b then
         let cand = bump_next b; b' = b\<lparr>bump_next := saturating_add (bump_next b) 0x1000\<rparr> in
         rbind (is_reserved_page dbg resv cand) (\<lambda>r.
           if r then
             (if bump_next b' = cand then Panic CounterWrapped
              else TinyBump_allocate_frame phys_frame dbg resv b')
           else rbind (phys_frame cand) (\<lambda>f. Ok (Some f, b')))
       else Ok (None, b))"
  by pat_completeness auto
termination
  by (relation "measure (\<lambda>(phys_frame, dbg, resv, b). 2 ^ 64 - unat (bump_next b))")
    (auto simp del: power_numeral intro!: word_to_top_less saturating_add_neq)

type_synonym usable_list = "(u64 \<times> u64) list"

definition MAX_USABLE :: nat where
  "MAX_USABLE = 256"

fun seed_loop :: "(u64 \<times> u64) hvec_ops \<Rightarrow> bool \<Rightarrow> MemoryRegion list \<Rightarrow> usable_list \<Rightarrow> usable_list res" where
  "seed_loop hv dbg [] v = Ok v"
| "seed_loop hv dbg (mr # mm) v =
     (if mr_typ mr \<noteq> 1 then seed_loop hv dbg mm v
      else rbind (u_add dbg (phys_start mr) 0xFFF) (\<lambda>a.
           rbind (u_add dbg (phys_start mr) (mr_len mr)) (\<lambda>b.
             let s = a AND NOT 0xFFF; e = b AND NOT 0xFFF in
             if e \<le> s then seed_loop hv dbg mm v
             else seed_loop hv dbg mm (case hv_push hv v (s, e) of Some v' \<Rightarrow> v' | None \<Rightarrow> v))))"

definition seed_usable_from_mmap :: "(u64 \<times> u64) hvec_ops \<Rightarrow> bool \<Rightarrow> BootInfo \<Rightarrow> usable_list res" where
  "seed_usable_from_mmap hv dbg boot = seed_loop hv dbg (memory_map boot) []"

text \<open>
  The inner loop of \<open>fallback_take_frame\<close>: the first page of \<open>[s, e)\<close> that is not reserved and
  the rest of the range after it.
\<close>

function fallback_scan :: "bool \<Rightarrow> Resv list \<Rightarrow> u64 \<Rightarrow> u64 \<Rightarrow> (u64 \<times> u64) option res" where
  "fallback_scan dbg resv s e =
     rbind (u_add dbg s 0x1000) (\<lambda>n.
       if n \<le> e then
         rbind (is_reserved_page dbg resv s) (\<lambda>r.
           if \<not> r then Ok (Some (s, n))
           else if n \<le> s then Panic CounterWrapped
           else fallback_scan dbg resv n e)
       else Ok None)"
  by pat_completeness auto
termination
  by (relation "measure (\<lambda>(dbg, resv, s, e). 2 ^ 64 - unat s)")
    (auto simp: not_le word_less_nat_alt intro!: diff_less_mono2)

text \<open>
  The outer loop. That \<open>pop\<close> shortens the vector is part of \<open>hvec_api\<close>; the test keeps the
  recursion well-founded for an arbitrary parameter.
\<close>

function fallback_take_frame ::
  "(u64 \<times> u64) hvec_ops \<Rightarrow> (u64 \<Rightarrow> u64 res) \<Rightarrow> bool \<Rightarrow> Resv list \<Rightarrow> usable_list \<Rightarrow>
     (u64 option \<times> usable_list) res" where
  "fallback_take_frame hv phys_frame dbg resv v =
     (case hv_pop hv v of
        None \<Rightarrow> Ok (None, v)
      | Some (se, v') \<Rightarrow>
          rbind (fallback_scan dbg resv (fst se) (snd se)) (\<lambda>found.
            case found of
              Some (cand, s) \<Rightarrow>
                let v'' = (if s < snd se
                           then (case hv_push hv v' (s, snd se) of Some w \<Rightarrow> w | None \<Rightarrow> v') else v')
                in rbind (phys_frame cand) (\<lambda>f. Ok (Some f, v''))
            | None \<Rightarrow>
                if length v' < length v then fallback_take_frame hv phys_frame dbg resv v'
                else Panic CounterWrapped))"
  by pat_completeness auto
termination
  by (relation "measure (\<lambda>(hv, phys_frame, dbg, resv, v). length v)") auto

declare TinyBump_allocate_frame.simps [simp del] fallback_scan.simps [simp del]
  fallback_take_frame.simps [simp del]

record FrameState =
  frame_alloc :: "TinyBump option"
  usable :: usable_list

definition TinyAllocGuard_new :: "FrameState \<Rightarrow> FrameState option" where
  "TinyAllocGuard_new st = (if frame_alloc st \<noteq> None then Some st else None)"

definition TinyAllocGuard_allocate_frame ::
  "(u64 \<times> u64) hvec_ops \<Rightarrow> (u64 \<Rightarrow> u64 res) \<Rightarrow> bool \<Rightarrow> Resv list \<Rightarrow> FrameState \<Rightarrow>
     (u64 option \<times> FrameState) res" where
  "TinyAllocGuard_allocate_frame hv phys_frame dbg resv st =
     (let fallback = (\<lambda>st'. rbind (fallback_take_frame hv phys_frame dbg resv (usable st')) (\<lambda>(r, v).
                        Ok (r, st'\<lparr>usable := v\<rparr>)))
      in case frame_alloc st of
           Some a \<Rightarrow>
             rbind (TinyBump_allocate_frame phys_frame dbg resv a) (\<lambda>(r, a').
               case r of
                 Some f \<Rightarrow> Ok (Some f, st\<lparr>frame_alloc := Some a'\<rparr>)
               | None \<Rightarrow> fallback (st\<lparr>frame_alloc := Some a'\<rparr>))
         | None \<Rightarrow> fallback st)"

section \<open>Free pages\<close>

text \<open>
  What the source relies on from \<open>PhysAddr::new\<close> and \<open>containing_address\<close>: an address of the
  52-bit physical address space gives the frame that starts at its page.
\<close>

definition phys_frame_api :: "(u64 \<Rightarrow> u64 res) \<Rightarrow> bool" where
  "phys_frame_api phys_frame \<longleftrightarrow> (\<forall>a. unat a < 2 ^ 52 \<longrightarrow> phys_frame a = Ok (align_down a 0x1000))"

text \<open>The whole pages of \<open>[lo, hi)\<close> that the table does not reserve.\<close>

definition free_pages :: "Resv list \<Rightarrow> nat \<Rightarrow> nat \<Rightarrow> nat set" where
  "free_pages resv lo hi = {p. 4096 dvd p \<and> lo \<le> p \<and> p + 4096 \<le> hi \<and> p \<notin> resv_pages resv}"

definition bump_pool :: "Resv list \<Rightarrow> TinyBump \<Rightarrow> nat set" where
  "bump_pool resv b = free_pages resv (unat (bump_next b)) (unat (bump_end b))"

definition bump_inv :: "(u64 \<Rightarrow> u64 res) \<Rightarrow> Resv list \<Rightarrow> TinyBump \<Rightarrow> bool" where
  "bump_inv phys_frame resv b \<longleftrightarrow>
     phys_frame_api phys_frame \<and> resv_wf resv \<and>
     page_aligned (bump_next b) \<and> unat (bump_next b) \<le> 2 ^ 52 \<and> unat (bump_end b) \<le> 2 ^ 52"

definition range_ok :: "u64 \<times> u64 \<Rightarrow> bool" where
  "range_ok se \<longleftrightarrow> page_aligned (fst se) \<and> fst se \<le> snd se \<and> unat (snd se) \<le> 2 ^ 52"

definition apart :: "u64 \<times> u64 \<Rightarrow> u64 \<times> u64 \<Rightarrow> bool" where
  "apart x y \<longleftrightarrow> snd x \<le> fst y \<or> snd y \<le> fst x"

definition usable_pool :: "Resv list \<Rightarrow> usable_list \<Rightarrow> nat set" where
  "usable_pool resv v = (\<Union>se \<in> set v. free_pages resv (unat (fst se)) (unat (snd se)))"

definition usable_inv ::
  "(u64 \<times> u64) hvec_ops \<Rightarrow> (u64 \<Rightarrow> u64 res) \<Rightarrow> Resv list \<Rightarrow> usable_list \<Rightarrow> bool" where
  "usable_inv hv phys_frame resv v \<longleftrightarrow>
     hvec_api MAX_USABLE hv \<and> phys_frame_api phys_frame \<and> resv_wf resv \<and>
     length v \<le> MAX_USABLE \<and> list_all range_ok v \<and> sorted_wrt apart v"

definition guard_pool :: "Resv list \<Rightarrow> FrameState \<Rightarrow> nat set" where
  "guard_pool resv st =
     (case frame_alloc st of Some b \<Rightarrow> bump_pool resv b | None \<Rightarrow> {}) \<union> usable_pool resv (usable st)"

definition guard_inv ::
  "(u64 \<times> u64) hvec_ops \<Rightarrow> (u64 \<Rightarrow> u64 res) \<Rightarrow> Resv list \<Rightarrow> FrameState \<Rightarrow> bool" where
  "guard_inv hv phys_frame resv st \<longleftrightarrow>
     usable_inv hv phys_frame resv (usable st) \<and>
     (case frame_alloc st of
        Some b \<Rightarrow> bump_inv phys_frame resv b \<and>
          (\<forall>se \<in> set (usable st). bump_end b \<le> fst se \<or> snd se \<le> bump_next b)
      | None \<Rightarrow> True)"

section \<open>The contract of a frame source\<close>

text \<open>
  \<open>pool s\<close> is the set of page addresses the source can still hand out. An allocation never
  panics; it returns nothing exactly when the pool is empty, and otherwise one page of the
  pool, which it takes out.
\<close>

definition alloc_post :: "('s \<Rightarrow> bool) \<Rightarrow> ('s \<Rightarrow> nat set) \<Rightarrow> 's \<Rightarrow> (u64 option \<times> 's) res \<Rightarrow> bool" where
  "alloc_post invar pool s r = (case r of
      Ok (None, s') \<Rightarrow> invar s' \<and> pool s = {} \<and> pool s' = {}
    | Ok (Some f, s') \<Rightarrow> invar s' \<and> unat f \<in> pool s \<and> pool s' = pool s - {unat f}
    | Panic p \<Rightarrow> False)"

locale frame_source =
  fixes alloc :: "'s \<Rightarrow> (u64 option \<times> 's) res"
    and pool :: "'s \<Rightarrow> nat set"
    and invar :: "'s \<Rightarrow> bool"
  assumes alloc_law: "invar s \<Longrightarrow> alloc_post invar pool s (alloc s)"

text \<open>A client that asks for up to \<open>n\<close> frames in a row and stops when the source is empty.\<close>

primrec take_frames :: "('s \<Rightarrow> (u64 option \<times> 's) res) \<Rightarrow> nat \<Rightarrow> 's \<Rightarrow> (u64 list \<times> 's) res" where
  "take_frames alloc 0 s = Ok ([], s)"
| "take_frames alloc (Suc n) s =
     rbind (alloc s) (\<lambda>(r, s').
       case r of
         None \<Rightarrow> Ok ([], s')
       | Some f \<Rightarrow> rbind (take_frames alloc n s') (\<lambda>(fs, s''). Ok (f # fs, s'')))"

context frame_source
begin

lemma alloc_cases:
  assumes "invar s"
  obtains (empty) s' where "alloc s = Ok (None, s')" "invar s'" "pool s = {}" "pool s' = {}"
    | (frame) f s' where "alloc s = Ok (Some f, s')" "invar s'" "unat f \<in> pool s" "pool s' = pool s - {unat f}"
  using alloc_law [OF assms] unfolding alloc_post_def by (auto split: res.splits option.splits)

lemma alloc_empty:
  assumes "invar s" "pool s = {}"
  shows "\<exists>s'. alloc s = Ok (None, s')"
  using assms(1) by (cases rule: alloc_cases) (use assms(2) in auto)

lemma take_frames_spec:
  assumes "invar s" "finite (pool s)"
  shows "\<exists>fs s'. take_frames alloc n s = Ok (fs, s') \<and> invar s' \<and> distinct fs \<and>
    unat ` set fs \<subseteq> pool s \<and> pool s' = pool s - unat ` set fs \<and> length fs = min n (card (pool s))"
  using assms
proof (induction n arbitrary: s)
  case 0
  then show ?case by simp
next
  case (Suc n)
  from Suc.prems(1) show ?case
  proof (cases rule: alloc_cases)
    case (empty s1)
    then show ?thesis
      by auto
  next
    case s1: (frame f s1)
    obtain fs s2 where s2: "take_frames alloc n s1 = Ok (fs, s2)" "invar s2" "distinct fs"
      "unat ` set fs \<subseteq> pool s1" "pool s2 = pool s1 - unat ` set fs" "length fs = min n (card (pool s1))"
      using Suc.IH [of s1] s1(2,4) Suc.prems(2) by auto
    have "f \<notin> set fs"
      using s2(4) s1(4) by blast
    moreover have "Suc (card (pool s1)) = card (pool s)"
      unfolding s1(4) by (rule card_Suc_Diff1 [OF Suc.prems(2) s1(3)])
    moreover have "take_frames alloc (Suc n) s = Ok (f # fs, s2)"
      by (simp add: s1(1) s2(1))
    moreover have "unat ` set (f # fs) \<subseteq> pool s" "pool s2 = pool s - unat ` set (f # fs)"
      using s1(3,4) s2(4,5) by auto
    ultimately show ?thesis
      using s2(2,3,6) by (intro exI [of _ "f # fs"] exI [of _ s2]) simp
  qed
qed

end

section \<open>The bump allocator\<close>

lemma free_pages_step:
  assumes "4096 dvd lo" "lo + 4096 \<le> hi"
  shows "free_pages resv lo hi =
    (if lo \<in> resv_pages resv then {} else {lo}) \<union> free_pages resv (lo + 4096) hi"
proof -
  have "lo \<le> p \<longleftrightarrow> p = lo \<or> lo + 4096 \<le> p" if "4096 dvd p" for p
    using page_multiple_less [OF assms(1) that] by linarith
  then show ?thesis
    using assms by (auto simp: free_pages_def)
qed

lemma free_pages_empty: "hi < lo + 4096 \<Longrightarrow> free_pages resv lo hi = {}"
  by (auto simp: free_pages_def)

lemma free_pages_above: "lo < lo' \<Longrightarrow> lo \<notin> free_pages resv lo' hi"
  by (simp add: free_pages_def)

lemma finite_free_pages [simp]: "finite (free_pages resv lo hi)"
  by (rule finite_subset [of _ "{..hi}"]) (auto simp: free_pages_def)

text \<open>A page-aligned physical address and the one after it, in the words of the allocators.\<close>

lemma next_page_word:
  assumes "page_aligned a" "unat a \<le> 2 ^ 52"
  shows "u_add dbg a 0x1000 = Ok (a + 0x1000)" "saturating_add a 0x1000 = a + 0x1000"
    "unat (a + 0x1000) = unat a + 4096" "page_aligned (a + 0x1000)"
proof -
  have "unat a + unat (0x1000 :: u64) < 2 ^ LENGTH(64)"
    using assms(2) by simp
  then show "u_add dbg a 0x1000 = Ok (a + 0x1000)" "saturating_add a 0x1000 = a + 0x1000"
    and un: "unat (a + 0x1000) = unat a + 4096"
    by (simp_all add: u_add_def saturating_add_def unat_add_ok)
  show "page_aligned (a + 0x1000)"
    using assms(1) by (simp add: un)
qed

lemma page_query:
  assumes "resv_wf resv" "page_aligned a" "unat a \<le> 2 ^ 52"
  shows "is_reserved_page dbg resv a = Ok (unat a \<in> resv_pages resv)"
  by (rule is_reserved_page_iff) (use assms in auto)

lemma phys_frame_page:
  assumes "phys_frame_api phys_frame" "page_aligned a" "unat a < 2 ^ 52"
  shows "phys_frame a = Ok a"
  using assms by (simp add: phys_frame_api_def align_down_id)

text \<open>What every allocation keeps of the bump allocator's range.\<close>

definition bump_keeps :: "TinyBump \<Rightarrow> (u64 option \<times> TinyBump) res \<Rightarrow> bool" where
  "bump_keeps b r = (case r of
      Ok (_, b') \<Rightarrow> bump_next b \<le> bump_next b' \<and> bump_end b' = bump_end b
    | Panic p \<Rightarrow> False)"

lemma TinyBump_allocate_frame_step:
  assumes "bump_inv phys_frame resv b"
  defines "b' \<equiv> b\<lparr>bump_next := bump_next b + 0x1000\<rparr>"
  shows "TinyBump_allocate_frame phys_frame dbg resv b =
      (if bump_end b < bump_next b' then Ok (None, b)
       else if unat (bump_next b) \<in> resv_pages resv then TinyBump_allocate_frame phys_frame dbg resv b'
       else Ok (Some (bump_next b), b'))"
    and "bump_end b < bump_next b' \<Longrightarrow> bump_pool resv b = {}"
    and "\<not> bump_end b < bump_next b' \<Longrightarrow> bump_inv phys_frame resv b' \<and> bump_next b < bump_next b' \<and>
      unat (bump_next b) \<notin> bump_pool resv b' \<and>
      bump_pool resv b = (if unat (bump_next b) \<in> resv_pages resv then {} else {unat (bump_next b)}) \<union>
        bump_pool resv b'"
proof -
  note inv = assms(1) [unfolded bump_inv_def]
  have np: "u_add dbg (bump_next b) 0x1000 = Ok (bump_next b')"
    "saturating_add (bump_next b) 0x1000 = bump_next b'"
    "unat (bump_next b') = unat (bump_next b) + 4096" "page_aligned (bump_next b')"
    using inv next_page_word [of "bump_next b"] by (auto simp: b'_def)
  have query: "is_reserved_page dbg resv (bump_next b) = Ok (unat (bump_next b) \<in> resv_pages resv)"
    using inv by (intro page_query) auto
  have ends: "bump_end b' = bump_end b"
    by (simp add: b'_def)
  have less: "bump_next b < bump_next b'"
    by (simp add: word_less_nat_alt np(3))
  have frame: "phys_frame (bump_next b) = Ok (bump_next b)" if "\<not> bump_end b < bump_next b'"
    using inv that by (intro phys_frame_page) (auto simp: word_less_nat_alt np(3))
  have upd: "b\<lparr>bump_next := bump_next b'\<rparr> = b'"
    by (simp add: b'_def)
  show "TinyBump_allocate_frame phys_frame dbg resv b =
      (if bump_end b < bump_next b' then Ok (None, b)
       else if unat (bump_next b) \<in> resv_pages resv then TinyBump_allocate_frame phys_frame dbg resv b'
       else Ok (Some (bump_next b), b'))"
    using less frame
    by (subst TinyBump_allocate_frame.simps) (auto simp: np(1,2) query Let_def upd not_le [symmetric])
  show "bump_end b < bump_next b' \<Longrightarrow> bump_pool resv b = {}"
    by (simp add: bump_pool_def free_pages_empty word_less_nat_alt np(3))
  show "\<not> bump_end b < bump_next b' \<Longrightarrow> bump_inv phys_frame resv b' \<and> bump_next b < bump_next b' \<and>
      unat (bump_next b) \<notin> bump_pool resv b' \<and>
      bump_pool resv b = (if unat (bump_next b) \<in> resv_pages resv then {} else {unat (bump_next b)}) \<union>
        bump_pool resv b'"
    using inv np less free_pages_step [of "unat (bump_next b)" "unat (bump_end b)" resv]
    by (simp add: bump_inv_def bump_pool_def ends free_pages_above word_less_nat_alt not_less)
qed

lemma TinyBump_allocate_frame_spec:
  assumes "bump_inv phys_frame resv b"
  shows "alloc_post (bump_inv phys_frame resv) (bump_pool resv) b (TinyBump_allocate_frame phys_frame dbg resv b) \<and>
    bump_keeps b (TinyBump_allocate_frame phys_frame dbg resv b)"
  using assms
proof (induction "2 ^ 64 - unat (bump_next b)" arbitrary: b rule: less_induct)
  case less
  let ?b = "b\<lparr>bump_next := bump_next b + 0x1000\<rparr>"
  note step = TinyBump_allocate_frame_step [OF less.prems]
  show ?case
  proof (cases "bump_end b < bump_next ?b")
    case True
    then show ?thesis
      using step(1,2) less.prems by (simp add: alloc_post_def bump_keeps_def)
  next
    case False
    then have inv': "bump_inv phys_frame resv ?b" and up: "bump_next b < bump_next ?b"
      using step(3) by blast+
    note IH = less.hyps [OF word_to_top_less [OF up] inv']
    show ?thesis
    proof (cases "unat (bump_next b) \<in> resv_pages resv")
      case True
      then have "bump_pool resv b = bump_pool resv ?b"
        using step(3) False by simp
      then show ?thesis
        using IH step(1) False True up
        by (auto simp: alloc_post_def bump_keeps_def split: res.splits option.splits)
    next
      case free: False
      then show ?thesis
        using step False by (auto simp: alloc_post_def bump_keeps_def)
    qed
  qed
qed

interpretation bump: frame_source "TinyBump_allocate_frame phys_frame dbg resv" "bump_pool resv"
  "bump_inv phys_frame resv"
  by unfold_locales (simp add: TinyBump_allocate_frame_spec)

section \<open>The fallback list\<close>

definition scan_post :: "Resv list \<Rightarrow> u64 \<Rightarrow> u64 \<Rightarrow> (u64 \<times> u64) option res \<Rightarrow> bool" where
  "scan_post resv s e r = (case r of
      Ok None \<Rightarrow> free_pages resv (unat s) (unat e) = {}
    | Ok (Some (c, s')) \<Rightarrow> s \<le> c \<and> page_aligned c \<and> page_aligned s' \<and> unat s' = unat c + 4096 \<and> s' \<le> e \<and>
        unat c \<in> free_pages resv (unat s) (unat e) \<and>
        free_pages resv (unat s') (unat e) = free_pages resv (unat s) (unat e) - {unat c}
    | Panic p \<Rightarrow> False)"

lemma scan_post_skip:
  assumes "scan_post resv n e r" "s \<le> n" "free_pages resv (unat s) (unat e) = free_pages resv (unat n) (unat e)"
  shows "scan_post resv s e r"
  using assms by (auto simp: scan_post_def split: res.splits option.splits)

lemma fallback_scan_spec:
  assumes "resv_wf resv" "page_aligned s" "unat s \<le> 2 ^ 52" "unat e \<le> 2 ^ 52"
  shows "scan_post resv s e (fallback_scan dbg resv s e)"
  using assms
proof (induction dbg resv s e rule: fallback_scan.induct)
  case (1 dbg resv s e)
  let ?n = "s + 0x1000"
  note np = next_page_word [OF 1(3,4)]
  have query: "is_reserved_page dbg resv s = Ok (unat s \<in> resv_pages resv)"
    by (rule page_query [OF 1(2,3,4)])
  have mono: "s \<le> ?n" "\<not> ?n \<le> s"
    by (simp_all add: word_le_nat_alt np(3))
  show ?case
  proof (cases "?n \<le> e")
    case False
    then show ?thesis
      by (subst fallback_scan.simps) (simp add: scan_post_def np(1,3) free_pages_empty word_le_nat_alt)
  next
    case True
    then have le: "unat s + 4096 \<le> unat e"
      by (simp add: word_le_nat_alt np(3))
    have pool: "free_pages resv (unat s) (unat e) =
        (if unat s \<in> resv_pages resv then {} else {unat s}) \<union> free_pages resv (unat ?n) (unat e)"
      using free_pages_step [OF 1(3) le, of resv] by (simp add: np(3))
    show ?thesis
    proof (cases "unat s \<in> resv_pages resv")
      case reserved: True
      have "fallback_scan dbg resv s e = fallback_scan dbg resv ?n e"
        using True reserved mono by (subst fallback_scan.simps) (simp add: np(1) query)
      moreover have "unat ?n \<le> 2 ^ 52"
        using le 1(5) by (simp add: np(3))
      ultimately show ?thesis
        using scan_post_skip [OF _ mono(1)] 1(1) [OF np(1) True query] reserved mono(2) 1(2,5) np(4) pool
        by simp
    next
      case free: False
      have "fallback_scan dbg resv s e = Ok (Some (s, ?n))"
        using True free by (subst fallback_scan.simps) (simp add: np(1) query)
      then show ?thesis
        using pool free True 1(3) np by (simp add: scan_post_def free_pages_above)
    qed
  qed
qed

lemma usable_pool_simps:
  "usable_pool resv [] = {}"
  "usable_pool resv (xs @ [se]) = usable_pool resv xs \<union> free_pages resv (unat (fst se)) (unat (snd se))"
  by (auto simp: usable_pool_def)

lemma apart_free_pages:
  assumes "\<forall>se \<in> set xs. apart se x" "p \<in> free_pages resv (unat (fst x)) (unat (snd x))"
  shows "p \<notin> usable_pool resv xs"
  using assms by (fastforce simp: usable_pool_def free_pages_def apart_def word_le_nat_alt)

lemma usable_inv_snoc:
  "usable_inv hv phys_frame resv (xs @ [se]) \<longleftrightarrow>
     usable_inv hv phys_frame resv xs \<and> length xs < MAX_USABLE \<and> range_ok se \<and> (\<forall>x \<in> set xs. apart x se)"
  by (auto simp: usable_inv_def sorted_wrt_append)

text \<open>Every range left in the list is the end of one that was there.\<close>

definition usable_keeps :: "usable_list \<Rightarrow> (u64 option \<times> usable_list) res \<Rightarrow> bool" where
  "usable_keeps v r = (case r of
      Ok (_, v') \<Rightarrow> \<forall>x' \<in> set v'. \<exists>x \<in> set v. fst x \<le> fst x' \<and> snd x' = snd x
    | Panic p \<Rightarrow> False)"

lemma fallback_take_frame_nil:
  assumes "usable_inv hv phys_frame resv []"
  shows "fallback_take_frame hv phys_frame dbg resv [] = Ok (None, [])"
  using assms hvec_pop_Nil [of MAX_USABLE hv]
  by (subst fallback_take_frame.simps) (simp add: usable_inv_def)

text \<open>One turn of the outer loop, on the range at the end of the list.\<close>

lemma fallback_take_frame_snoc:
  assumes inv: "usable_inv hv phys_frame resv (xs @ [se])"
  shows "fallback_take_frame hv phys_frame dbg resv (xs @ [se]) =
    (case fallback_scan dbg resv (fst se) (snd se) of
       Ok (Some (c, s)) \<Rightarrow> Ok (Some c, if s < snd se then xs @ [(s, snd se)] else xs)
     | Ok None \<Rightarrow> fallback_take_frame hv phys_frame dbg resv xs
     | Panic p \<Rightarrow> Panic p)"
proof -
  have api: "hvec_api MAX_USABLE hv" "length xs < MAX_USABLE" "phys_frame_api phys_frame" "resv_wf resv"
    and rng: "page_aligned (fst se)" "fst se \<le> snd se" "unat (snd se) \<le> 2 ^ 52"
    using inv by (auto simp: usable_inv_def range_ok_def)
  then have post: "scan_post resv (fst se) (snd se) (fallback_scan dbg resv (fst se) (snd se))"
    by (intro fallback_scan_spec) (auto simp: word_le_nat_alt)
  have frame: "phys_frame c = Ok c" if "fallback_scan dbg resv (fst se) (snd se) = Ok (Some (c, s))" for c s
    using post that rng(3) by (intro phys_frame_page [OF api(3)]) (auto simp: scan_post_def word_le_nat_alt)
  show ?thesis
    using frame
    by (subst fallback_take_frame.simps)
      (simp add: hvec_pop_snoc [OF api(1)] hvec_push [OF api(1)] api(2) split: res.split option.split)
qed

lemma range_ok_rest:
  assumes "range_ok se" "scan_post resv (fst se) (snd se) (Ok (Some (c, s)))"
  shows "range_ok (s, snd se)" "fst se \<le> s"
  using assms by (auto simp: range_ok_def scan_post_def word_le_nat_alt)

lemma fallback_take_frame_found:
  assumes inv: "usable_inv hv phys_frame resv (xs @ [se])"
    and post: "scan_post resv (fst se) (snd se) (Ok (Some (c, s)))"
  defines "v' \<equiv> if s < snd se then xs @ [(s, snd se)] else xs"
  shows "alloc_post (usable_inv hv phys_frame resv) (usable_pool resv) (xs @ [se]) (Ok (Some c, v')) \<and>
    usable_keeps (xs @ [se]) (Ok (Some c, v'))"
proof -
  have rng: "range_ok (s, snd se)" "fst se \<le> s"
    using range_ok_rest [OF _ post] inv by (simp_all add: usable_inv_snoc)
  have apart: "\<forall>x \<in> set xs. apart x (s, snd se)"
    using inv rng(2) by (fastforce simp: usable_inv_snoc apart_def)
  have c: "unat c \<in> free_pages resv (unat (fst se)) (unat (snd se))"
    and rest: "free_pages resv (unat s) (unat (snd se)) =
      free_pages resv (unat (fst se)) (unat (snd se)) - {unat c}"
    using post unfolding scan_post_def res.case option.case prod.case by blast+
  have new: "unat c \<notin> usable_pool resv xs"
    using inv c by (intro apart_free_pages) (auto simp: usable_inv_snoc)
  have inv': "usable_inv hv phys_frame resv v'"
    using inv rng apart by (simp add: v'_def usable_inv_snoc)
  have pool': "usable_pool resv v' = usable_pool resv xs \<union> free_pages resv (unat s) (unat (snd se))"
    using free_pages_empty [of "unat (snd se)" "unat s" resv]
    by (simp add: v'_def usable_pool_simps word_less_nat_alt)
  have "usable_pool resv v' = usable_pool resv (xs @ [se]) - {unat c}"
    using new c by (auto simp: pool' rest usable_pool_simps)
  then show ?thesis
    using inv' c rng(2) by (auto simp: alloc_post_def usable_keeps_def usable_pool_simps v'_def)
qed

lemma fallback_take_frame_spec:
  assumes "usable_inv hv phys_frame resv v"
  shows "alloc_post (usable_inv hv phys_frame resv) (usable_pool resv) v
      (fallback_take_frame hv phys_frame dbg resv v) \<and>
    usable_keeps v (fallback_take_frame hv phys_frame dbg resv v)"
  using assms
proof (induction v rule: rev_induct)
  case Nil
  then show ?case
    by (simp add: fallback_take_frame_nil alloc_post_def usable_keeps_def usable_pool_simps)
next
  case (snoc se xs)
  note inv = snoc.prems [unfolded usable_inv_snoc]
  have post: "scan_post resv (fst se) (snd se) (fallback_scan dbg resv (fst se) (snd se))"
    using inv by (intro fallback_scan_spec) (auto simp: usable_inv_def range_ok_def word_le_nat_alt)
  then consider (found) c s where "fallback_scan dbg resv (fst se) (snd se) = Ok (Some (c, s))"
    | (none) "fallback_scan dbg resv (fst se) (snd se) = Ok None"
    by (auto simp: scan_post_def split: res.splits option.splits)
  then show ?case
  proof cases
    case found
    then show ?thesis
      using fallback_take_frame_found [OF snoc.prems post [unfolded found]]
      by (simp add: fallback_take_frame_snoc [OF snoc.prems])
  next
    case none
    then have "usable_pool resv (xs @ [se]) = usable_pool resv xs"
      using post by (simp add: scan_post_def usable_pool_simps)
    then show ?thesis
      using snoc.IH inv none
      by (fastforce simp: fallback_take_frame_snoc [OF snoc.prems] alloc_post_def usable_keeps_def
          split: res.splits option.splits)
  qed
qed

interpretation fallback: frame_source "fallback_take_frame hv phys_frame dbg resv" "usable_pool resv"
  "usable_inv hv phys_frame resv"
  by unfold_locales (simp add: fallback_take_frame_spec)

section \<open>The guard: bump allocator first, list second\<close>

lemma bump_usable_disjoint:
  assumes "\<forall>se \<in> set v. bump_end b \<le> fst se \<or> snd se \<le> bump_next b" "p \<in> bump_pool resv b"
  shows "p \<notin> usable_pool resv v"
  using assms by (fastforce simp: bump_pool_def usable_pool_def free_pages_def word_le_nat_alt)

lemma guard_inv_fallback:
  assumes "guard_inv hv phys_frame resv st" "usable_inv hv phys_frame resv v"
    "usable_keeps (usable st) (Ok (r, v))"
  shows "guard_inv hv phys_frame resv (st\<lparr>usable := v\<rparr>)"
  using assms by (fastforce simp: guard_inv_def usable_keeps_def split: option.splits)

lemma guard_inv_bump:
  assumes "guard_inv hv phys_frame resv st" "frame_alloc st = Some b" "bump_inv phys_frame resv b'"
    "bump_keeps b (Ok (r, b'))"
  shows "guard_inv hv phys_frame resv (st\<lparr>frame_alloc := Some b'\<rparr>)"
  using assms by (fastforce simp: guard_inv_def bump_keeps_def)

text \<open>The fallback step on a state whose bump allocator has nothing to give.\<close>

lemma guard_fallback_spec:
  assumes inv: "guard_inv hv phys_frame resv st"
    and none: "guard_pool resv st = usable_pool resv (usable st)"
  shows "alloc_post (guard_inv hv phys_frame resv) (guard_pool resv) st
    (rbind (fallback_take_frame hv phys_frame dbg resv (usable st)) (\<lambda>(r, v). Ok (r, st\<lparr>usable := v\<rparr>)))"
proof -
  have "usable_inv hv phys_frame resv (usable st)"
    using inv by (simp add: guard_inv_def)
  from fallback_take_frame_spec [OF this, of dbg] obtain r v where
    rv: "fallback_take_frame hv phys_frame dbg resv (usable st) = Ok (r, v)"
      "usable_keeps (usable st) (Ok (r, v))"
      "alloc_post (usable_inv hv phys_frame resv) (usable_pool resv) (usable st) (Ok (r, v))"
    by (cases "fallback_take_frame hv phys_frame dbg resv (usable st)") (auto simp: alloc_post_def)
  have inv': "guard_inv hv phys_frame resv (st\<lparr>usable := v\<rparr>)"
    using guard_inv_fallback [OF inv _ rv(2)] rv(3) by (auto simp: alloc_post_def split: option.splits)
  have bump: "bump_pool resv b = {}" if "frame_alloc st = Some b" for b
    using inv none that bump_usable_disjoint [of "usable st" b _ resv]
    by (auto simp: guard_inv_def guard_pool_def)
  have "guard_pool resv (st\<lparr>usable := v\<rparr>) = usable_pool resv v"
    using bump by (auto simp: guard_pool_def split: option.splits)
  then show ?thesis
    using rv inv' none by (auto simp: alloc_post_def split: option.splits)
qed

lemma TinyAllocGuard_allocate_frame_spec:
  assumes inv: "guard_inv hv phys_frame resv st"
  shows "alloc_post (guard_inv hv phys_frame resv) (guard_pool resv) st
    (TinyAllocGuard_allocate_frame hv phys_frame dbg resv st)"
proof (cases "frame_alloc st")
  case None
  then show ?thesis
    using guard_fallback_spec [OF inv, of dbg] by (simp add: TinyAllocGuard_allocate_frame_def guard_pool_def)
next
  case (Some b)
  then have "bump_inv phys_frame resv b"
    using inv by (simp add: guard_inv_def)
  from TinyBump_allocate_frame_spec [OF this, of dbg] obtain r b' where
    rb: "TinyBump_allocate_frame phys_frame dbg resv b = Ok (r, b')" "bump_keeps b (Ok (r, b'))"
      "alloc_post (bump_inv phys_frame resv) (bump_pool resv) b (Ok (r, b'))"
    by (cases "TinyBump_allocate_frame phys_frame dbg resv b") (auto simp: bump_keeps_def)
  let ?st = "st\<lparr>frame_alloc := Some b'\<rparr>"
  have inv': "guard_inv hv phys_frame resv ?st"
    using guard_inv_bump [OF inv Some _ rb(2)] rb(3) by (auto simp: alloc_post_def split: option.splits)
  show ?thesis
  proof (cases r)
    case None
    then have "guard_pool resv ?st = usable_pool resv (usable ?st)" "guard_pool resv ?st = guard_pool resv st"
      using rb(3) Some by (simp_all add: alloc_post_def guard_pool_def)
    then show ?thesis
      using guard_fallback_spec [OF inv', of dbg] None Some rb(1)
      by (auto simp: TinyAllocGuard_allocate_frame_def alloc_post_def split: res.splits option.splits)
  next
    case (Some f)
    then have f: "unat f \<in> bump_pool resv b" "bump_pool resv b' = bump_pool resv b - {unat f}"
      using rb(3) by (simp_all add: alloc_post_def)
    then have "unat f \<notin> usable_pool resv (usable st)"
      using inv \<open>frame_alloc st = Some b\<close> by (intro bump_usable_disjoint) (auto simp: guard_inv_def)
    then show ?thesis
      using f inv' rb(1) Some \<open>frame_alloc st = Some b\<close>
      by (auto simp: TinyAllocGuard_allocate_frame_def alloc_post_def guard_pool_def)
  qed
qed

interpretation guard: frame_source "TinyAllocGuard_allocate_frame hv phys_frame dbg resv" "guard_pool resv"
  "guard_inv hv phys_frame resv"
  by unfold_locales (rule TinyAllocGuard_allocate_frame_spec)

section \<open>Seeding the list from the boot memory map\<close>

text \<open>The page-rounded range of a region, and the whole pages of the usable regions of a map.\<close>

definition region_range :: "MemoryRegion \<Rightarrow> u64 \<times> u64" where
  "region_range mr = ((phys_start mr + 0xFFF) AND NOT 0xFFF, (phys_start mr + mr_len mr) AND NOT 0xFFF)"

definition usable_pages :: "MemoryRegion list \<Rightarrow> nat set" where
  "usable_pages mm = {p. 4096 dvd p \<and>
     (\<exists>mr \<in> set mm. mr_typ mr = 1 \<and> unat (phys_start mr) \<le> p \<and> p + 4096 \<le> unat (phys_start mr) + unat (mr_len mr))}"

definition region_apart :: "MemoryRegion \<Rightarrow> MemoryRegion \<Rightarrow> bool" where
  "region_apart m n \<longleftrightarrow>
     mr_typ m \<noteq> 1 \<or> mr_typ n \<noteq> 1 \<or>
     unat (phys_start m) + unat (mr_len m) \<le> unat (phys_start n) \<or>
     unat (phys_start n) + unat (mr_len n) \<le> unat (phys_start m)"

definition region_fits :: "MemoryRegion \<Rightarrow> bool" where
  "region_fits m \<longleftrightarrow> mr_typ m = 1 \<longrightarrow> unat (phys_start m) + unat (mr_len m) \<le> 2 ^ 52"

definition mmap_ok :: "MemoryRegion list \<Rightarrow> bool" where
  "mmap_ok mm \<longleftrightarrow> list_all region_fits mm \<and> sorted_wrt region_apart mm \<and>
     length (filter (\<lambda>m. mr_typ m = 1) mm) \<le> MAX_USABLE"

lemma region_range_bounds:
  assumes "region_fits m" "mr_typ m = 1"
  shows "u_add dbg (phys_start m) 0xFFF = Ok (phys_start m + 0xFFF)"
    and "u_add dbg (phys_start m) (mr_len m) = Ok (phys_start m + mr_len m)"
    and "unat (fst (region_range m)) = unat (phys_start m) + 4095 - (unat (phys_start m) + 4095) mod 4096"
    and "unat (snd (region_range m)) =
      unat (phys_start m) + unat (mr_len m) - (unat (phys_start m) + unat (mr_len m)) mod 4096"
proof -
  have fit: "unat (phys_start m) + unat (mr_len m) \<le> 2 ^ 52"
    using assms by (simp add: region_fits_def)
  then show "u_add dbg (phys_start m) 0xFFF = Ok (phys_start m + 0xFFF)"
    "u_add dbg (phys_start m) (mr_len m) = Ok (phys_start m + mr_len m)"
    by (simp_all add: u_add_ok)
  have "unat (phys_start m + 0xFFF) = unat (phys_start m) + 4095"
    "unat (phys_start m + mr_len m) = unat (phys_start m) + unat (mr_len m)"
    using fit by (simp_all add: unat_add_ok)
  then show "unat (fst (region_range m)) = unat (phys_start m) + 4095 - (unat (phys_start m) + 4095) mod 4096"
    "unat (snd (region_range m)) =
      unat (phys_start m) + unat (mr_len m) - (unat (phys_start m) + unat (mr_len m)) mod 4096"
    using align_down_page [of "phys_start m + 0xFFF"] align_down_page [of "phys_start m + mr_len m"]
    by (simp_all add: region_range_def align_down_def)
qed

lemma region_range_pages:
  assumes "region_fits m" "mr_typ m = 1"
  shows "free_pages resv (unat (fst (region_range m))) (unat (snd (region_range m))) =
    usable_pages [m] - resv_pages resv"
  unfolding free_pages_def usable_pages_def region_range_bounds(3,4) [OF assms]
  using assms(2) by (auto simp: round_up_le_page page_le_round_down)

lemma region_range_ok:
  assumes "region_fits m" "mr_typ m = 1" "fst (region_range m) < snd (region_range m)"
  shows "range_ok (region_range m)"
proof -
  have "unat (snd (region_range m)) \<le> unat (phys_start m) + unat (mr_len m)"
    using region_range_bounds(4) [OF assms(1,2)] by simp
  then have "unat (snd (region_range m)) \<le> 2 ^ 52"
    using assms(1,2) by (simp add: region_fits_def)
  moreover have "page_aligned (fst (region_range m))"
    using region_range_bounds(3) [OF assms(1,2)] by (simp add: dvd_minus_mod)
  ultimately show ?thesis
    using assms(3) by (simp add: range_ok_def)
qed

lemma region_apart_ranges:
  assumes "region_fits m" "region_fits n" "mr_typ m = 1" "mr_typ n = 1" "region_apart m n"
  shows "apart (region_range m) (region_range n)"
proof -
  note m = region_range_bounds(3,4) [OF assms(1,3)] and n = region_range_bounds(3,4) [OF assms(2,4)]
  have "l \<le> l + 4095 - (l + 4095) mod 4096" "h - h mod 4096 \<le> h" for l h :: nat
    using mod_less_divisor [of 4096 "l + 4095"] by simp_all
  then show ?thesis
    using assms(3-5) unfolding apart_def region_apart_def word_le_nat_alt m n by (meson le_trans)
qed

definition seeded :: "Resv list \<Rightarrow> nat set \<Rightarrow> (u64 \<times> u64) hvec_ops \<Rightarrow> (u64 \<Rightarrow> u64 res) \<Rightarrow> usable_list res \<Rightarrow> bool" where
  "seeded resv pages hv phys_frame r = (case r of
      Ok v \<Rightarrow> usable_inv hv phys_frame resv v \<and> usable_pool resv v = pages
    | Panic p \<Rightarrow> False)"

lemma usable_pages_Cons: "usable_pages (m # mm) = usable_pages [m] \<union> usable_pages mm"
  by (auto simp: usable_pages_def)

lemma seed_loop_Cons:
  assumes "hvec_api MAX_USABLE hv" "region_fits m"
    "length v + length (filter (\<lambda>m. mr_typ m = 1) (m # mm)) \<le> MAX_USABLE"
  shows "seed_loop hv dbg (m # mm) v = seed_loop hv dbg mm
    (if mr_typ m = 1 \<and> fst (region_range m) < snd (region_range m) then v @ [region_range m] else v)"
  using assms region_range_bounds(1,2) [OF assms(2)]
  by (auto simp: Let_def region_range_def not_le hvec_push)

lemma seed_loop_ok:
  assumes "usable_inv hv phys_frame resv v" "list_all region_fits mm" "sorted_wrt region_apart mm"
    "length v + length (filter (\<lambda>m. mr_typ m = 1) mm) \<le> MAX_USABLE"
    "\<forall>m \<in> set mm. mr_typ m = 1 \<longrightarrow> (\<forall>x \<in> set v. apart x (region_range m))"
  shows "seeded resv (usable_pool resv v \<union> (usable_pages mm - resv_pages resv)) hv phys_frame (seed_loop hv dbg mm v)"
  using assms
proof (induction mm arbitrary: v)
  case Nil
  then show ?case by (simp add: seeded_def usable_pages_def)
next
  case (Cons m mm)
  have api: "hvec_api MAX_USABLE hv"
    using Cons.prems(1) by (simp add: usable_inv_def)
  let ?keep = "mr_typ m = 1 \<and> fst (region_range m) < snd (region_range m)"
  let ?v = "if ?keep then v @ [region_range m] else v"
  have step: "seed_loop hv dbg (m # mm) v = seed_loop hv dbg mm ?v"
    using Cons.prems by (intro seed_loop_Cons [OF api]) simp_all
  have inv': "usable_inv hv phys_frame resv ?v"
    using Cons.prems by (auto simp: usable_inv_snoc intro: region_range_ok)
  have apart': "\<forall>n \<in> set mm. mr_typ n = 1 \<longrightarrow> (\<forall>x \<in> set ?v. apart x (region_range n))"
    using Cons.prems region_apart_ranges by (auto simp: list_all_iff)
  have "usable_pages [m] - resv_pages resv = {}" if "\<not> ?keep"
  proof (cases "mr_typ m = 1")
    case True
    then show ?thesis
      using that Cons.prems(2) free_pages_empty [of "unat (snd (region_range m))" "unat (fst (region_range m))" resv]
        region_range_pages [of m resv] by (simp add: word_less_nat_alt)
  qed (simp add: usable_pages_def)
  then have pool': "usable_pool resv ?v = usable_pool resv v \<union> (usable_pages [m] - resv_pages resv)"
    using Cons.prems(2) region_range_pages [of m resv] by (auto simp: usable_pool_simps)
  have pages: "usable_pool resv ?v \<union> (usable_pages mm - resv_pages resv) =
      usable_pool resv v \<union> (usable_pages (m # mm) - resv_pages resv)"
    unfolding pool' usable_pages_Cons [of m mm] by blast
  have "length ?v + length (filter (\<lambda>m. mr_typ m = 1) mm) \<le> MAX_USABLE"
    using Cons.prems(4) by (auto split: if_splits)
  then show ?case
    using Cons.IH [OF inv' _ _ _ apart'] Cons.prems(2,3) unfolding step pages by simp
qed

lemma seed_usable_seeded:
  assumes "hvec_api MAX_USABLE hv" "phys_frame_api phys_frame" "resv_wf resv" "mmap_ok (memory_map boot)"
  shows "seeded resv (usable_pages (memory_map boot) - resv_pages resv) hv phys_frame
    (seed_usable_from_mmap hv dbg boot)"
  using assms seed_loop_ok [of hv phys_frame resv "[]" "memory_map boot" dbg]
  by (simp add: seed_usable_from_mmap_def mmap_ok_def usable_inv_def usable_pool_simps)

section \<open>Properties\<close>

lemma finite_guard_pool: "finite (guard_pool resv st)"
  by (auto simp: guard_pool_def bump_pool_def usable_pool_def split: option.split)

text \<open>
  C4: A client that asks the guard for \<open>n\<close> frames gets as many as there are free pages, up to
  \<open>n\<close>, without a panic; they are pairwise distinct, each is a free unreserved page of the bump
  range or of the list, and exactly these pages leave the pool.
\<close>

theorem guard_frames:
  assumes "guard_inv hv phys_frame resv st"
  shows "\<exists>fs st'. take_frames (TinyAllocGuard_allocate_frame hv phys_frame dbg resv) n st = Ok (fs, st') \<and>
    guard_inv hv phys_frame resv st' \<and> distinct fs \<and> unat ` set fs \<subseteq> guard_pool resv st \<and>
    guard_pool resv st' = guard_pool resv st - unat ` set fs \<and>
    length fs = min n (card (guard_pool resv st))"
  by (rule guard.take_frames_spec [OF assms finite_guard_pool])

lemma example_phys_frame: "phys_frame_api (\<lambda>a. Ok (align_down a 0x1000))"
  by (simp add: phys_frame_api_def)

theorem guard_frames_witness:
  "let st = \<lparr>frame_alloc = Some \<lparr>bump_next = 0x1000, bump_end = 0x3000\<rparr>, usable = [(0x8000, 0xA000)]\<rparr>;
       resv = [\<lparr>resv_start = 0x1000, resv_end = 0x2000, resv_kind = Mmio\<rparr>] in
   \<exists>fs st'. take_frames (TinyAllocGuard_allocate_frame (list_hvec MAX_USABLE) (\<lambda>a. Ok (align_down a 0x1000)) True resv)
      3 st = Ok (fs, st') \<and> distinct fs \<and> unat ` set fs \<subseteq> guard_pool resv st"
proof -
  have "guard_inv (list_hvec MAX_USABLE) (\<lambda>a. Ok (align_down a 0x1000))
      [\<lparr>resv_start = 0x1000, resv_end = 0x2000, resv_kind = Mmio\<rparr>]
      \<lparr>frame_alloc = Some \<lparr>bump_next = 0x1000, bump_end = 0x3000\<rparr>, usable = [(0x8000, 0xA000)]\<rparr>"
    by (simp add: guard_inv_def usable_inv_def bump_inv_def list_hvec_api example_phys_frame resv_wf_def
        range_ok_def MAX_RESV_def MAX_USABLE_def)
  from guard_frames [OF this, of True 3] show ?thesis
    by (auto simp: Let_def)
qed

text \<open>
  Seeding from a memory map whose usable regions do not overlap and fit the list makes the
  list invariant true and its pool exactly the whole unreserved pages of the usable regions.
\<close>

lemma seed_usable_exact:
  assumes "hvec_api MAX_USABLE hv" "phys_frame_api phys_frame" "resv_wf resv" "mmap_ok (memory_map boot)"
  shows "\<exists>v. seed_usable_from_mmap hv dbg boot = Ok v \<and> usable_inv hv phys_frame resv v \<and>
    usable_pool resv v = usable_pages (memory_map boot) - resv_pages resv"
  using seed_usable_seeded [OF assms, of dbg] by (auto simp: seeded_def split: res.splits)

end
