(* ===== verification/Kernel_Mem.thy ===== *)
theory Kernel_Mem
  imports Frame_Alloc
begin

unbundle bit_operations_syntax

text \<open>
  The memory manager of the kernel (\<^verbatim>\<open>mem/mod.rs\<close>): seeding the frame allocators from the boot
  information, the MMIO, VMAP and heap windows of the kernel address space, demand mapping of
  the heap, and the low 32-bit pool. The active page table is a value of type \<open>'pt\<close> that only
  the \<^verbatim>\<open>x86_64\<close> crate's \<open>OffsetPageTable\<close> touches: its operations are fields of
  \<open>x86_ops\<close>, and \<open>kenv_ok\<close> states what the frame pool relies on of them. The first-fit heap of the
  \<^verbatim>\<open>linked_list_allocator\<close> crate is a parameter in the same way.

  The spin locks and \<open>without_interrupts\<close> sections are taken as atomic: the state is passed
  through them unchanged.
\<close>

section \<open>Third-party operations\<close>

datatype PTFlag = PRESENT | WRITABLE | GLOBAL | NO_EXECUTE | NO_CACHE | WRITE_THROUGH

datatype MapToError = FrameAllocationFailed | ParentEntryHugePage | PageAlreadyMapped

type_synonym frame_fn = "FrameState \<Rightarrow> (u64 option \<times> FrameState) res"

text \<open>
  \<open>x_map_to alloc page frame flags table_flags\<close> is \<open>map_to_with_table_flags\<close>; for \<open>map_to\<close> the
  crate derives the table flags, which is the argument \<open>None\<close>. \<open>x_tables\<close> is the set of the
  frames that hold the page tables themselves.
\<close>

record 'pt x86_ops =
  x_phys_frame :: "u64 \<Rightarrow> u64 res"
  x_virt_page :: "u64 \<Rightarrow> u64 res"
  x_map_to :: "frame_fn \<Rightarrow> u64 \<Rightarrow> u64 \<Rightarrow> PTFlag set \<Rightarrow> PTFlag set option \<Rightarrow> 'pt \<Rightarrow> FrameState \<Rightarrow>
    (MapToError option \<times> 'pt \<times> FrameState) res"
  x_update_flags :: "u64 \<Rightarrow> PTFlag set \<Rightarrow> 'pt \<Rightarrow> 'pt option"
  x_translate :: "'pt \<Rightarrow> u64 \<Rightarrow> u64 option"
  x_tables :: "'pt \<Rightarrow> nat set"

record 'h heap_ops =
  h_init :: "u64 \<Rightarrow> u64 \<Rightarrow> 'h"
  h_first_fit :: "u64 \<Rightarrow> u64 \<Rightarrow> 'h \<Rightarrow> (u64 \<times> 'h) option"
  h_deallocate :: "u64 \<Rightarrow> u64 \<Rightarrow> u64 \<Rightarrow> 'h \<Rightarrow> 'h"

record ('pt, 'h) kenv =
  ke_dbg :: bool
  ke_resv_vec :: "Resv hvec_ops"
  ke_usable_vec :: "(u64 \<times> u64) hvec_ops"
  ke_x86 :: "'pt x86_ops"
  ke_heap :: "'h heap_ops"

section \<open>State\<close>

definition VMAP_BASE :: u64 where
  "VMAP_BASE = 0xffffe00000000000"

definition KHEAP_START :: u64 where
  "KHEAP_START = 0xffffc00000000000"

definition KHEAP_SIZE :: u64 where
  "KHEAP_SIZE = 32 * 1024 * 1024"

definition MMIO_BASE :: u64 where
  "MMIO_BASE = 0xffffd00000000000"

record ('pt, 'h) MemState =
  km_resv :: "Resv list"
  km_frames :: FrameState
  km_low32 :: "TinyBump option"
  km_offset :: u64
  km_next_vmap :: u64
  km_next_mmio :: u64
  km_heap :: 'h
  km_mapped_end :: u64
  km_heap_ready :: bool
  km_wp :: bool
  km_pt :: 'pt
  km_mem :: "u64 \<Rightarrow> u8"

section \<open>Seeding\<close>

definition mem_init :: "('pt, 'h) kenv \<Rightarrow> BootInfo \<Rightarrow> ('pt, 'h) MemState \<Rightarrow> ('pt, 'h) MemState res" where
  "mem_init K boot st =
     (let dbg = ke_dbg K; off = hhdm_base boot in
      if off AND 0xFFF \<noteq> 0 then Panic Fatal
      else
        let start = align_down (early_heap_paddr boot) 0x1000 in
        rbind (u_add dbg (early_heap_paddr boot) (early_heap_len boot)) (\<lambda>t.
        rbind (align_up dbg t 0x1000) (\<lambda>e.
          let st1 = st\<lparr>km_offset := off,
                       km_frames := (km_frames st)\<lparr>frame_alloc := Some (TinyBump_new start e)\<rparr>\<rparr>
          in rbind
            (if 0x1000 \<le> low32_pool_len boot then
               let lstart = align_down (low32_pool_paddr boot) 0x1000 in
               rbind (u_add dbg (low32_pool_paddr boot) (low32_pool_len boot)) (\<lambda>lt.
               rbind (align_up dbg lt 0x1000) (\<lambda>lend.
                 Ok (st1\<lparr>km_low32 := Some (TinyBump_new lstart lend)\<rparr>)))
             else Ok st1)
            (\<lambda>st2. Ok (st2\<lparr>km_wp := True\<rparr>)))))"

text \<open>The memory part of \<open>_start\<close>, up to the heap.\<close>

definition boot_frames ::
  "('pt, 'h) kenv \<Rightarrow> u64 \<Rightarrow> u64 \<Rightarrow> BootInfo \<Rightarrow> ('pt, 'h) MemState \<Rightarrow> ('pt, 'h) MemState res" where
  "boot_frames K k_start k_end boot st =
     rbind (init (ke_resv_vec K) (ke_dbg K) k_start k_end boot) (\<lambda>v.
     rbind (mem_init K boot (st\<lparr>km_resv := v\<rparr>)) (\<lambda>st1.
     rbind (seed_usable_from_mmap (ke_usable_vec K) (ke_dbg K) boot) (\<lambda>u.
       Ok (st1\<lparr>km_frames := (km_frames st1)\<lparr>usable := u\<rparr>\<rparr>))))"

section \<open>Mapping\<close>

definition kalloc_frame :: "('pt, 'h) kenv \<Rightarrow> Resv list \<Rightarrow> frame_fn" where
  "kalloc_frame K resv =
     TinyAllocGuard_allocate_frame (ke_usable_vec K) (x_phys_frame (ke_x86 K)) (ke_dbg K) resv"

definition pa_mask_52 :: "u64 \<Rightarrow> u64" where
  "pa_mask_52 x = x AND 0x000FFFFFFFFFFFFF"

definition map_to ::
  "('pt, 'h) kenv \<Rightarrow> u64 \<Rightarrow> u64 \<Rightarrow> PTFlag set \<Rightarrow> PTFlag set option \<Rightarrow> ('pt, 'h) MemState \<Rightarrow>
     (MapToError option \<times> ('pt, 'h) MemState) res" where
  "map_to K page frame flags tflags st =
     rbind (x_map_to (ke_x86 K) (kalloc_frame K (km_resv st)) page frame flags tflags (km_pt st) (km_frames st))
       (\<lambda>(e, pt, fs). Ok (e, st\<lparr>km_pt := pt, km_frames := fs\<rparr>))"

definition map_4k ::
  "('pt, 'h) kenv \<Rightarrow> u64 \<Rightarrow> u64 \<Rightarrow> PTFlag set \<Rightarrow> ('pt, 'h) MemState \<Rightarrow> ('pt, 'h) MemState res" where
  "map_4k K va pa flags st =
     (let pa_aligned = pa_mask_52 pa AND NOT 0xFFF in
      rbind (x_phys_frame (ke_x86 K) pa_aligned) (\<lambda>frame.
      rbind (x_virt_page (ke_x86 K) va) (\<lambda>page.
      rbind (map_to K page frame flags None st) (\<lambda>(e, st').
        if e = None then Ok st' else Panic UnwrapNone))))"

definition take_guard :: "('pt, 'h) MemState \<Rightarrow> FrameState option" where
  "take_guard st = TinyAllocGuard_new (km_frames st)"

function mmio_loop ::
  "('pt, 'h) kenv \<Rightarrow> u64 \<Rightarrow> u64 \<Rightarrow> u64 \<Rightarrow> ('pt, 'h) MemState \<Rightarrow> ('pt, 'h) MemState res" where
  "mmio_loop K pend pa_cur va_cur st =
     (if pa_cur < pend then
        rbind (x_phys_frame (ke_x86 K) pa_cur) (\<lambda>frame.
        rbind (x_virt_page (ke_x86 K) va_cur) (\<lambda>page.
        rbind (map_to K page frame {PRESENT, WRITABLE, NO_CACHE, NO_EXECUTE} None st) (\<lambda>(e, st').
          if e \<noteq> None then Panic UnwrapNone
          else
            rbind (u_add (ke_dbg K) pa_cur 0x1000) (\<lambda>pa'.
            rbind (u_add (ke_dbg K) va_cur 0x1000) (\<lambda>va'.
              if pa' \<le> pa_cur then Panic CounterWrapped
              else mmio_loop K pend pa' va' st')))))
      else Ok st)"
  by pat_completeness auto
termination
  by (relation "measure (\<lambda>(K, pend, pa_cur, va_cur, st). 2 ^ 64 - unat pa_cur)")
    (auto simp del: power_numeral simp: not_le intro!: word_to_top_less)

definition map_mmio ::
  "('pt, 'h) kenv \<Rightarrow> u64 \<Rightarrow> u64 \<Rightarrow> ('pt, 'h) MemState \<Rightarrow> (u64 \<times> ('pt, 'h) MemState) res" where
  "map_mmio K pa len st =
     (let dbg = ke_dbg K; pa0 = pa_mask_52 pa AND NOT 0xFFF in
      rbind (u_add dbg pa len) (\<lambda>t.
      rbind (u_add dbg t 0xFFF) (\<lambda>t'.
        let pend = pa_mask_52 t' AND NOT 0xFFF in
        rbind (u_sub dbg pend pa0) (\<lambda>sz.
        rbind (u_sub dbg pa pa0) (\<lambda>off.
          let va0 = km_next_mmio st; st1 = st\<lparr>km_next_mmio := va0 + sz\<rparr> in
          rbind (expect (take_guard st1)) (\<lambda>_.
          rbind (mmio_loop K pend pa0 va0 st1) (\<lambda>st2.
          rbind (u_add dbg va0 off) (\<lambda>r. Ok (r, st2)))))))))"

definition map_identity_4k ::
  "('pt, 'h) kenv \<Rightarrow> u64 \<Rightarrow> ('pt, 'h) MemState \<Rightarrow> ('pt, 'h) MemState res" where
  "map_identity_4k K phys st =
     rbind (expect (take_guard st)) (\<lambda>_.
     rbind (x_virt_page (ke_x86 K) phys) (\<lambda>page.
     rbind (x_phys_frame (ke_x86 K) phys) (\<lambda>frame.
     rbind (map_to K page frame {PRESENT, WRITABLE, GLOBAL} None st) (\<lambda>(e, st').
       case e of
         None \<Rightarrow> Ok st'
       | Some PageAlreadyMapped \<Rightarrow> Ok st'
       | Some _ \<Rightarrow> Panic Fatal))))"

definition enforce_mmio_flags ::
  "('pt, 'h) kenv \<Rightarrow> u64 \<Rightarrow> ('pt, 'h) MemState \<Rightarrow> ('pt, 'h) MemState res" where
  "enforce_mmio_flags K va st =
     rbind (x_virt_page (ke_x86 K) va) (\<lambda>page.
       case x_update_flags (ke_x86 K) page {PRESENT, WRITABLE, NO_EXECUTE, WRITE_THROUGH, NO_CACHE} (km_pt st) of
         Some pt \<Rightarrow> Ok (st\<lparr>km_pt := pt\<rparr>)
       | None \<Rightarrow> Ok st)"

definition enforce_apic_mmio_flags ::
  "('pt, 'h) kenv \<Rightarrow> ('pt, 'h) MemState \<Rightarrow> ('pt, 'h) MemState res" where
  "enforce_apic_mmio_flags K st =
     rbind (enforce_mmio_flags K 0xFEC00000 st) (enforce_mmio_flags K 0xFEE00000)"

definition alloc_one_phys_page_hhdm ::
  "('pt, 'h) kenv \<Rightarrow> ('pt, 'h) MemState \<Rightarrow> ((u64 \<times> u64) \<times> ('pt, 'h) MemState) res" where
  "alloc_one_phys_page_hhdm K st =
     rbind (expect (km_low32 st)) (\<lambda>bump.
     rbind (TinyBump_allocate_frame (x_phys_frame (ke_x86 K)) (ke_dbg K) (km_resv st) bump) (\<lambda>(r, bump').
       let st1 = st\<lparr>km_low32 := Some bump'\<rparr> in
       rbind (expect r) (\<lambda>pa.
       rbind (u_add (ke_dbg K) pa (km_offset st)) (\<lambda>va.
         Ok ((va, pa), st1\<lparr>km_mem := (\<lambda>a. if va \<le> a \<and> a - va < 4096 then 0 else km_mem st a)\<rparr>)))))"

section \<open>Windows of the kernel address space\<close>

definition kernel_alloc :: "('pt, 'h) kenv \<Rightarrow> ('pt, 'h) MemState \<Rightarrow> (u64 option \<times> ('pt, 'h) MemState) res" where
  "kernel_alloc K st =
     rbind (kalloc_frame K (km_resv st) (km_frames st)) (\<lambda>(r, fs). Ok (r, st\<lparr>km_frames := fs\<rparr>))"

text \<open>\<open>init_heap\<close>: \<open>n\<close> pages from page \<open>i\<close> of the window on.\<close>

primrec heap_loop :: "('pt, 'h) kenv \<Rightarrow> u64 \<Rightarrow> nat \<Rightarrow> ('pt, 'h) MemState \<Rightarrow> ('pt, 'h) MemState res" where
  "heap_loop K i 0 st = Ok st"
| "heap_loop K i (Suc n) st =
     rbind (u_mul (ke_dbg K) i 4096) (\<lambda>o4.
     rbind (u_add (ke_dbg K) KHEAP_START o4) (\<lambda>va.
     rbind (kernel_alloc K st) (\<lambda>(r, st1).
     rbind (expect r) (\<lambda>pf.
     rbind (map_4k K va pf {PRESENT, WRITABLE, GLOBAL, NO_EXECUTE} st1) (\<lambda>st2.
       heap_loop K (i + 1) n st2)))))"

definition heap_pages :: nat where
  "heap_pages = unat (max ((KHEAP_SIZE + 4095) div 4096) 1)"

definition init_heap :: "('pt, 'h) kenv \<Rightarrow> ('pt, 'h) MemState \<Rightarrow> ('pt, 'h) MemState res" where
  "init_heap K st =
     rbind (expect (take_guard st)) (\<lambda>_.
     rbind (heap_loop K 0 heap_pages st) (\<lambda>st'.
       Ok (st'\<lparr>km_heap := h_init (ke_heap K) KHEAP_START KHEAP_SIZE,
               km_mapped_end := KHEAP_START, km_heap_ready := True\<rparr>)))"

function vmap_loop ::
  "('pt, 'h) kenv \<Rightarrow> u64 \<Rightarrow> u64 \<Rightarrow> u64 \<Rightarrow> ('pt, 'h) MemState \<Rightarrow> (u64 option \<times> ('pt, 'h) MemState) res" where
  "vmap_loop K base bytes off st =
     (if off < bytes then
        rbind (kernel_alloc K st) (\<lambda>(r, st1).
          case r of
            None \<Rightarrow> Ok (None, st1)
          | Some pf \<Rightarrow>
              rbind (u_add (ke_dbg K) base off) (\<lambda>va.
              rbind (map_4k K va pf {PRESENT, WRITABLE, GLOBAL} st1) (\<lambda>st2.
              rbind (u_add (ke_dbg K) off 4096) (\<lambda>off'.
                if off' \<le> off then Panic CounterWrapped else vmap_loop K base bytes off' st2))))
      else Ok (Some base, st))"
  by pat_completeness auto
termination
  by (relation "measure (\<lambda>(K, base, bytes, off, st). 2 ^ 64 - unat off)")
    (auto simp del: power_numeral simp: not_le intro!: word_to_top_less)

definition vmap_alloc_pages ::
  "('pt, 'h) kenv \<Rightarrow> u64 \<Rightarrow> ('pt, 'h) MemState \<Rightarrow> (u64 option \<times> ('pt, 'h) MemState) res" where
  "vmap_alloc_pages K pages st =
     (case checked_mul pages 4096 of
        None \<Rightarrow> Ok (None, st)
      | Some bytes \<Rightarrow>
          let base = km_next_vmap st; st1 = st\<lparr>km_next_vmap := base + bytes\<rparr> in
          (case take_guard st1 of
             None \<Rightarrow> Ok (None, st1)
           | Some _ \<Rightarrow> vmap_loop K base bytes 0 st1))"

section \<open>The demand-mapped heap\<close>

definition span_step :: "('pt, 'h) kenv \<Rightarrow> u64 \<Rightarrow> ('pt, 'h) MemState \<Rightarrow> ('pt, 'h) MemState res" where
  "span_step K va st =
     (if x_translate (ke_x86 K) (km_pt st) va \<noteq> None then Ok st
      else
        let flags = {PRESENT, WRITABLE, GLOBAL, NO_EXECUTE} in
        rbind (kernel_alloc K st) (\<lambda>(r, st1).
        rbind (expect r) (\<lambda>pf.
        rbind (x_virt_page (ke_x86 K) va) (\<lambda>page.
        rbind (map_to K page pf flags (Some {PRESENT, WRITABLE}) st1) (\<lambda>(e, st2).
          case e of
            None \<Rightarrow> Ok st2
          | Some PageAlreadyMapped \<Rightarrow>
              rbind (expect (x_update_flags (ke_x86 K) page flags (km_pt st2))) (\<lambda>pt.
                Ok (st2\<lparr>km_pt := pt\<rparr>))
          | Some _ \<Rightarrow> Panic Fatal)))))"

function span_loop :: "('pt, 'h) kenv \<Rightarrow> u64 \<Rightarrow> u64 \<Rightarrow> ('pt, 'h) MemState \<Rightarrow> ('pt, 'h) MemState res" where
  "span_loop K end_al va st =
     (if va < end_al then
        rbind (span_step K va st) (\<lambda>st'.
        rbind (u_add (ke_dbg K) va 4096) (\<lambda>va'.
          if va' \<le> va then Panic CounterWrapped else span_loop K end_al va' st'))
      else Ok st)"
  by pat_completeness auto
termination
  by (relation "measure (\<lambda>(K, end_al, va, st). 2 ^ 64 - unat va)")
    (auto simp del: power_numeral simp: not_le intro!: word_to_top_less)

definition ensure_mapped_span ::
  "('pt, 'h) kenv \<Rightarrow> u64 \<Rightarrow> u64 \<Rightarrow> ('pt, 'h) MemState \<Rightarrow> ('pt, 'h) MemState res" where
  "ensure_mapped_span K start e st =
     rbind (expect (take_guard st)) (\<lambda>_.
     rbind (u_add (ke_dbg K) e 0xFFF) (\<lambda>t.
       span_loop K (t AND NOT 0xFFF) (start AND NOT 0xFFF) st))"

definition try_first_fit ::
  "('pt, 'h) kenv \<Rightarrow> u64 \<Rightarrow> u64 \<Rightarrow> ('pt, 'h) MemState \<Rightarrow> (u64 \<times> ('pt, 'h) MemState) option res" where
  "try_first_fit K sz align st =
     (case h_first_fit (ke_heap K) sz align (km_heap st) of
        Some (p, h) \<Rightarrow>
          rbind (ensure_mapped_span K p (saturating_add p (max sz 1)) (st\<lparr>km_heap := h\<rparr>)) (\<lambda>st'.
            Ok (Some (p, st')))
      | None \<Rightarrow> Ok None)"

text \<open>\<open>PagingHeap::alloc\<close>; the null pointer is 0.\<close>

definition PagingHeap_alloc ::
  "('pt, 'h) kenv \<Rightarrow> u64 \<Rightarrow> u64 \<Rightarrow> ('pt, 'h) MemState \<Rightarrow> (u64 \<times> ('pt, 'h) MemState) res" where
  "PagingHeap_alloc K sz align st =
     rbind (try_first_fit K sz align st) (\<lambda>r1.
       case r1 of
         Some ps \<Rightarrow> Ok ps
       | None \<Rightarrow>
           let cur = km_mapped_end st; e = saturating_add cur (2 ^ 20) in
           rbind (ensure_mapped_span K cur e st) (\<lambda>st1.
             let st2 = st1\<lparr>km_mapped_end := e\<rparr> in
             rbind (try_first_fit K sz align st2) (\<lambda>r2.
               case r2 of Some ps \<Rightarrow> Ok ps | None \<Rightarrow> Ok (0, st2))))"

definition PagingHeap_dealloc ::
  "('pt, 'h) kenv \<Rightarrow> u64 \<Rightarrow> u64 \<Rightarrow> u64 \<Rightarrow> ('pt, 'h) MemState \<Rightarrow> ('pt, 'h) MemState" where
  "PagingHeap_dealloc K ptr sz align st =
     st\<lparr>km_heap := h_deallocate (ke_heap K) ptr sz align (km_heap st)\<rparr>"

declare mmio_loop.simps [simp del] vmap_loop.simps [simp del] span_loop.simps [simp del]

section \<open>The frame pool after boot\<close>

definition early_heap_pages :: "BootInfo \<Rightarrow> nat set" where
  "early_heap_pages boot = {p. 4096 dvd p \<and> unat (early_heap_paddr boot) \<le> p \<and>
     p + 4096 \<le> unat (early_heap_paddr boot) + unat (early_heap_len boot)}"

text \<open>
  What the loader provides: page-aligned pools, an aligned HHDM base, a memory map with disjoint
  usable regions, and an early heap outside them.
\<close>

definition boot_layout_ok :: "BootInfo \<Rightarrow> bool" where
  "boot_layout_ok boot \<longleftrightarrow>
     hhdm_base boot AND 0xFFF = 0 \<and> mmap_ok (memory_map boot) \<and>
     page_aligned (early_heap_paddr boot) \<and> page_aligned (early_heap_len boot) \<and>
     unat (early_heap_paddr boot) + unat (early_heap_len boot) \<le> 2 ^ 52 \<and>
     unat (low32_pool_paddr boot) + unat (low32_pool_len boot) \<le> 2 ^ 52 \<and>
     (\<forall>mr \<in> set (memory_map boot). mr_typ mr = 1 \<longrightarrow>
        unat (phys_start mr) + unat (mr_len mr) \<le> unat (early_heap_paddr boot) \<or>
        unat (early_heap_paddr boot) + unat (early_heap_len boot) \<le> unat (phys_start mr))"

lemma align_up_aligned:
  assumes "page_aligned x" "unat x + 4095 < 2 ^ 64"
  shows "align_up dbg x 0x1000 = Ok x"
  using align_up_page [OF assms(2), of dbg] round_up_page [OF assms(1)] by (metis word_unat_eq_iff)

lemma mem_init_ok:
  assumes "boot_layout_ok boot"
  obtains low where "mem_init K boot st = Ok (st\<lparr>km_offset := hhdm_base boot, km_wp := True, km_low32 := low,
      km_frames := (km_frames st)\<lparr>frame_alloc := Some \<lparr>bump_next = early_heap_paddr boot,
        bump_end = early_heap_paddr boot + early_heap_len boot\<rparr>\<rparr>\<rparr>)"
    and "unat (early_heap_paddr boot + early_heap_len boot) =
      unat (early_heap_paddr boot) + unat (early_heap_len boot)"
proof -
  let ?e = "early_heap_paddr boot + early_heap_len boot" and ?l = "low32_pool_paddr boot + low32_pool_len boot"
  note ok = assms [unfolded boot_layout_ok_def]
  have e: "unat ?e = unat (early_heap_paddr boot) + unat (early_heap_len boot)"
    using ok by (intro unat_add_ok) simp
  have l: "unat ?l = unat (low32_pool_paddr boot) + unat (low32_pool_len boot)"
    using ok by (intro unat_add_ok) simp
  have add: "u_add (ke_dbg K) (early_heap_paddr boot) (early_heap_len boot) = Ok ?e"
    "u_add (ke_dbg K) (low32_pool_paddr boot) (low32_pool_len boot) = Ok ?l"
    using ok by (simp_all add: u_add_ok)
  have up: "align_up (ke_dbg K) ?e 0x1000 = Ok ?e"
    using ok by (intro align_up_aligned) (simp_all add: e)
  have "unat ?l + 4095 < 2 ^ 64"
    using ok by (simp add: l)
  then obtain lend where lend: "align_up (ke_dbg K) ?l 0x1000 = Ok lend"
    by (rule align_up_page)
  let ?low = "if 0x1000 \<le> low32_pool_len boot
    then Some (TinyBump_new (align_down (low32_pool_paddr boot) 0x1000) lend) else km_low32 st"
  have "mem_init K boot st = Ok (st\<lparr>km_offset := hhdm_base boot, km_wp := True, km_low32 := ?low,
      km_frames := (km_frames st)\<lparr>frame_alloc := Some \<lparr>bump_next = early_heap_paddr boot, bump_end = ?e\<rparr>\<rparr>\<rparr>)"
    using ok by (simp add: mem_init_def Let_def add up lend align_down_id TinyBump_new_def)
  then show thesis
    using e by (rule that)
qed

text \<open>The bump range and the seeded list stay apart, so the guard's invariant holds.\<close>

lemma seed_ranges_from_map:
  assumes "hvec_api MAX_USABLE hv" "list_all region_fits mm"
    and "seed_loop hv dbg mm v = Ok v'" "length v + length (filter (\<lambda>m. mr_typ m = 1) mm) \<le> MAX_USABLE"
  shows "set v' \<subseteq> set v \<union> region_range ` {m \<in> set mm. mr_typ m = 1}"
  using assms(2-4)
proof (induction mm arbitrary: v)
  case (Cons m mm)
  let ?v = "if mr_typ m = 1 \<and> fst (region_range m) < snd (region_range m) then v @ [region_range m] else v"
  have "seed_loop hv dbg (m # mm) v = seed_loop hv dbg mm ?v"
    using Cons.prems by (intro seed_loop_Cons [OF assms(1)]) simp_all
  moreover have "length ?v + length (filter (\<lambda>m. mr_typ m = 1) mm) \<le> MAX_USABLE"
    using Cons.prems(3) by (auto split: if_splits)
  ultimately have "set v' \<subseteq> set ?v \<union> region_range ` {m \<in> set mm. mr_typ m = 1}"
    using Cons.IH [of ?v] Cons.prems by simp
  then show ?case
    by (auto split: if_splits)
qed simp

lemma seeded_apart_from_heap:
  assumes "boot_layout_ok boot" "hvec_api MAX_USABLE hv" "seed_usable_from_mmap hv dbg boot = Ok u" "se \<in> set u"
  shows "early_heap_paddr boot + early_heap_len boot \<le> fst se \<or> snd se \<le> early_heap_paddr boot"
proof -
  note ok = assms(1) [unfolded boot_layout_ok_def mmap_ok_def]
  have "set u \<subseteq> region_range ` {m \<in> set (memory_map boot). mr_typ m = 1}"
    using seed_ranges_from_map [OF assms(2) _ assms(3) [unfolded seed_usable_from_mmap_def]] ok by auto
  with assms(4) obtain m where m: "m \<in> set (memory_map boot)" "mr_typ m = 1" "se = region_range m"
    by auto
  then have fits: "region_fits m"
    using ok by (auto simp: list_all_iff)
  have end_: "unat (early_heap_paddr boot + early_heap_len boot) =
      unat (early_heap_paddr boot) + unat (early_heap_len boot)"
    using ok by (intro unat_add_ok) simp
  have "unat (phys_start m) \<le> unat (fst se)" "unat (snd se) \<le> unat (phys_start m) + unat (mr_len m)"
    using region_range_bounds(3,4) [OF fits m(2)] mod_less_divisor [of 4096 "unat (phys_start m) + 4095"] m(3)
    by simp_all
  moreover have "unat (phys_start m) + unat (mr_len m) \<le> unat (early_heap_paddr boot) \<or>
      unat (early_heap_paddr boot) + unat (early_heap_len boot) \<le> unat (phys_start m)"
    using ok m by blast
  ultimately show ?thesis
    by (auto simp: word_le_nat_alt end_)
qed

definition kenv_ok :: "('pt, 'h) kenv \<Rightarrow> bool" where
  "kenv_ok K \<longleftrightarrow> hvec_api MAX_RESV (ke_resv_vec K) \<and> hvec_api MAX_USABLE (ke_usable_vec K) \<and>
     phys_frame_api (x_phys_frame (ke_x86 K))"

lemma boot_frames_ok:
  assumes K: "kenv_ok K" and fits: "boot_fits k_start k_end boot" and ok: "boot_layout_ok boot"
  shows "\<exists>st'. boot_frames K k_start k_end boot st = Ok st' \<and>
    guard_inv (ke_usable_vec K) (x_phys_frame (ke_x86 K)) (km_resv st') (km_frames st') \<and>
    resv_pages (km_resv st') = boot_reserved_pages k_start k_end boot \<and>
    guard_pool (km_resv st') (km_frames st') =
      (early_heap_pages boot \<union> usable_pages (memory_map boot)) - boot_reserved_pages k_start k_end boot"
proof -
  note K' = K [unfolded kenv_ok_def]
  obtain v where v: "init (ke_resv_vec K) (ke_dbg K) k_start k_end boot = Ok v" "resv_wf v"
    "resv_pages v = boot_reserved_pages k_start k_end boot"
    using init_holds [OF _ fits, of "ke_resv_vec K" "ke_dbg K"] K' by (auto simp: holds_def)
  let ?b = "\<lparr>bump_next = early_heap_paddr boot, bump_end = early_heap_paddr boot + early_heap_len boot\<rparr>"
  obtain low where mi: "mem_init K boot (st\<lparr>km_resv := v\<rparr>) =
      Ok (st\<lparr>km_resv := v, km_offset := hhdm_base boot, km_wp := True, km_low32 := low,
        km_frames := (km_frames st)\<lparr>frame_alloc := Some ?b\<rparr>\<rparr>)"
    and end_: "unat (early_heap_paddr boot + early_heap_len boot) =
      unat (early_heap_paddr boot) + unat (early_heap_len boot)"
    by (rule mem_init_ok [OF ok, of K "st\<lparr>km_resv := v\<rparr>"]) simp
  obtain u where u: "seed_usable_from_mmap (ke_usable_vec K) (ke_dbg K) boot = Ok u"
    "usable_inv (ke_usable_vec K) (x_phys_frame (ke_x86 K)) v u"
    "usable_pool v u = usable_pages (memory_map boot) - resv_pages v"
    using seed_usable_seeded [of "ke_usable_vec K" "x_phys_frame (ke_x86 K)" v boot "ke_dbg K"] K' v(2) ok
    by (auto simp: seeded_def boot_layout_ok_def split: res.splits)
  have "bump_inv (x_phys_frame (ke_x86 K)) v ?b"
    using ok K' v(2) end_ by (simp add: bump_inv_def boot_layout_ok_def)
  then have inv: "guard_inv (ke_usable_vec K) (x_phys_frame (ke_x86 K)) v
      ((km_frames st)\<lparr>frame_alloc := Some ?b, usable := u\<rparr>)"
    using u(2) seeded_apart_from_heap [OF ok _ u(1)] K' by (auto simp: guard_inv_def)
  moreover have "bump_pool v ?b = early_heap_pages boot - resv_pages v"
    by (auto simp: bump_pool_def free_pages_def early_heap_pages_def end_)
  ultimately show ?thesis
    using v u by (auto simp: boot_frames_def mi guard_pool_def)
qed

lemma boot_frames_bump:
  assumes "boot_frames K k_start k_end boot st = Ok st'" "boot_layout_ok boot"
  obtains b where "frame_alloc (km_frames st') = Some b"
    and "bump_pool (km_resv st') b = early_heap_pages boot - resv_pages (km_resv st')"
proof -
  let ?b = "\<lparr>bump_next = early_heap_paddr boot, bump_end = early_heap_paddr boot + early_heap_len boot\<rparr>"
  obtain v where v: "rbind (mem_init K boot (st\<lparr>km_resv := v\<rparr>)) (\<lambda>st1.
      rbind (seed_usable_from_mmap (ke_usable_vec K) (ke_dbg K) boot) (\<lambda>u.
       Ok (st1\<lparr>km_frames := (km_frames st1)\<lparr>usable := u\<rparr>\<rparr>))) = Ok st'"
    using assms(1) by (auto simp: boot_frames_def)
  obtain low where "mem_init K boot (st\<lparr>km_resv := v\<rparr>) =
      Ok (st\<lparr>km_resv := v, km_offset := hhdm_base boot, km_wp := True, km_low32 := low,
        km_frames := (km_frames st)\<lparr>frame_alloc := Some ?b\<rparr>\<rparr>)"
    and end_: "unat (early_heap_paddr boot + early_heap_len boot) =
      unat (early_heap_paddr boot) + unat (early_heap_len boot)"
    by (rule mem_init_ok [OF assms(2), of K "st\<lparr>km_resv := v\<rparr>"]) simp
  with v have "frame_alloc (km_frames st') = Some ?b"
    by auto
  moreover have "bump_pool (km_resv st') ?b = early_heap_pages boot - resv_pages (km_resv st')"
    by (auto simp: bump_pool_def free_pages_def early_heap_pages_def end_)
  ultimately show thesis
    by (rule that)
qed

section \<open>Properties\<close>

text \<open>
  C6: The boot sequence \<open>reserved::init\<close>, \<open>mem::init\<close>, \<open>seed_usable_from_mmap\<close> establishes the
  invariant of the frame allocator, and the pages it can hand out are exactly the whole pages of
  the early heap and of the usable regions that the boot information does not reserve.
\<close>

theorem boot_frame_pool:
  assumes "kenv_ok K" "boot_fits k_start k_end boot" "boot_layout_ok boot"
  shows "\<exists>st'. boot_frames K k_start k_end boot st = Ok st' \<and>
    guard_inv (ke_usable_vec K) (x_phys_frame (ke_x86 K)) (km_resv st') (km_frames st') \<and>
    guard_pool (km_resv st') (km_frames st') =
      (early_heap_pages boot \<union> usable_pages (memory_map boot)) - boot_reserved_pages k_start k_end boot"
  using boot_frames_ok [OF assms, of st] by blast

definition example_x86 :: "unit x86_ops" where
  "example_x86 = \<lparr>x_phys_frame = (\<lambda>a. Ok (align_down a 0x1000)), x_virt_page = (\<lambda>a. Ok (align_down a 0x1000)),
     x_map_to = (\<lambda>alloc page frame flags tf pt fs. Ok (None, pt, fs)), x_update_flags = (\<lambda>page flags pt. Some pt),
     x_translate = (\<lambda>pt va. None), x_tables = (\<lambda>pt. {})\<rparr>"

definition example_heap :: "unit heap_ops" where
  "example_heap = \<lparr>h_init = (\<lambda>s n. ()), h_first_fit = (\<lambda>s a h. None), h_deallocate = (\<lambda>p s a h. h)\<rparr>"

definition example_kenv :: "(unit, unit) kenv" where
  "example_kenv = \<lparr>ke_dbg = True, ke_resv_vec = list_hvec MAX_RESV, ke_usable_vec = list_hvec MAX_USABLE,
     ke_x86 = example_x86, ke_heap = example_heap\<rparr>"

definition example_mem :: "(unit, unit) MemState" where
  "example_mem = \<lparr>km_resv = [], km_frames = \<lparr>frame_alloc = None, usable = []\<rparr>, km_low32 = None, km_offset = 0,
     km_next_vmap = VMAP_BASE, km_next_mmio = MMIO_BASE, km_heap = (), km_mapped_end = 0, km_heap_ready = False,
     km_wp = False, km_pt = (), km_mem = (\<lambda>a. 0)\<rparr>"

lemma example_kenv_ok: "kenv_ok example_kenv"
  by (simp add: kenv_ok_def example_kenv_def list_hvec_api example_x86_def example_phys_frame)

lemma example_layout_ok: "boot_layout_ok example_boot"
  by (simp add: boot_layout_ok_def example_boot_def mmap_ok_def region_fits_def region_apart_def MAX_USABLE_def)

theorem boot_frame_pool_witness:
  "\<exists>st'. boot_frames example_kenv 0 0x5000 example_boot example_mem = Ok st' \<and>
    guard_inv (ke_usable_vec example_kenv) (x_phys_frame (ke_x86 example_kenv)) (km_resv st') (km_frames st') \<and>
    guard_pool (km_resv st') (km_frames st') =
      (early_heap_pages example_boot \<union> usable_pages (memory_map example_boot)) -
      boot_reserved_pages 0 0x5000 example_boot"
  by (rule boot_frame_pool [OF example_kenv_ok example_boot_fits example_layout_ok])



end
