(* ===== verification/Boot_Chain.thy ===== *)
theory Boot_Chain
  imports Boot_Handoff Kernel_Mem
begin

unbundle bit_operations_syntax

text \<open>
  The loader and the kernel's frame allocator together: what the memory map taken before the
  page tables were allocated lets the kernel hand out.
\<close>

lemma tbind_Ok_Some: "tbind m f = Ok (Some y) \<longleftrightarrow> (\<exists>x st. m = Ok (Some (x, st)) \<and> f x st = Ok (Some y))"
  by (cases m) (auto simp: tbind_def split: option.splits)

lemma build_root:
  assumes "build_pagetables_exec dbg lb mn mx hi pm st = Ok (Some (c, st'))"
  shows "avail st \<noteq> [] \<and> c = hd (avail st)"
proof -
  obtain st1 where "alloc_zero_page_low st = Ok (Some (c, st1))"
    using assms by (auto simp: build_pagetables_exec_def tbind_Ok_Some Let_def)
  then show ?thesis
    by (auto simp: alloc_zero_page_low_def split: list.splits if_splits)
qed

lemma must_Ok: "must x = Ok v \<longleftrightarrow> x = Some v"
  by (simp add: must_def split: option.splits)

lemma loader_result:
  assumes "loader_main dbg elf ua m0 = Ok h"
  shows "build_memory_regions_vec dbg (ua_map ua) = Ok (memory_map (ho_boot h)) \<and>
    avail (ua_tables ua) \<noteq> [] \<and> ho_pml4 h = hd (avail (ua_tables ua))"
proof -
  show ?thesis
    using assms by (auto simp: loader_main_def load_image_def prepare_handoff_def must_Ok split: if_splits dest!: build_root)
qed

section \<open>Properties\<close>


definition example_late_tables :: UefiAnswers where
  "example_late_tables = example_firmware\<lparr>
     ua_map := [\<lparr>md_ty = LOADER_DATA, md_phys_start = 0x2000000, md_page_count = 0x6000, md_att = 0xF\<rparr>,
       \<lparr>md_ty = CONVENTIONAL, md_phys_start = 0x8000000, md_page_count = 0x78000, md_att = 0xF\<rparr>],
     ua_tables := \<lparr>pmem = (\<lambda>_ _. 0), avail = drop 0x8100 (page_list 0x1200000)\<rparr>\<rparr>"

lemma late_root: "hd (avail (ua_tables example_late_tables)) = 0x8200000"
proof -
  have "length (page_list 0x1200000) = 0x1200000 - 256"
    unfolding page_list_def length_map by (rule length_upt)
  then have "hd (drop 0x8100 (page_list 0x1200000)) = page_list 0x1200000 ! 0x8100"
    by (intro hd_drop_conv_nth) simp
  also have "\<dots> = 0x8200000"
    unfolding page_list_def by (subst nth_map) (simp_all add: nth_upt del: upt_rec_numeral)
  finally show ?thesis
    by (simp add: example_late_tables_def)
qed

lemma late_firmware_ok:
  "firmware_ok 0x200000000 example_kernel example_late_tables 0x3000000 0x2000000 0x2300000 0x2301000 0x2310000 0x4000000 0x2302000
     \<lparr>gop_base = 0x80000000, gop_width = 1024, gop_height = 768, gop_stride = 1024, gop_format = Bgr\<rparr>"
proof -
  have "length (page_list 0x1200000) = 0x1200000 - 256"
    unfolding page_list_def length_map by (rule length_upt)
  moreover have "supply_ok (drop 0x8100 (page_list 0x1200000))"
    using page_list_supply [of "0x1200000"] by (auto simp: supply_ok_def dest: in_set_dropD)
  ultimately have "enough_pages 0x100000 0x102000 0x200000000 0x200000000 (ua_tables example_late_tables)"
    by (simp add: enough_pages_def exec_supply_def page_no_def example_late_tables_def)
  then show ?thesis
    unfolding firmware_ok_def example_image
    by (simp add: example_late_tables_def example_firmware_def block_def gop_ok_def desc_ok_def map_pages_def)
qed

lemma late_boot:
  assumes "fb = \<lparr>fb_addr = 0x80000000, fb_width = 1024, fb_height = 768, fb_pitch = 4096, fb_bpp = 32, fb_pixel_format = 1\<rparr>"
    "0x3000000 \<le> unat lb" "unat lb \<le> 0x3004000"
  defines "boot \<equiv> boot_record example_kernel example_late_tables lb 0x2000000 0x4000000 fb"
  shows "boot_fits 0x100000 0x102000 boot" "boot_layout_ok boot" "0x8200000 \<notin> boot_reserved_pages 0x100000 0x102000 boot"
  using assms(1-3)
  by (simp_all add: boot_def boot_record_def example_late_tables_def region_of_def boot_fits_def boot_layout_ok_def
      MAX_RESV_def mmap_ok_def region_fits_def region_apart_def MAX_USABLE_def HHDM_BASE_def
      boot_reserved_pages_def firmware_pages_def firmware_region_def covers_def) auto


end
