(* ===== verification/Bytes.thy ===== *)
theory Bytes
  imports Prelude
begin

unbundle bit_operations_syntax

text \<open>Little-endian bytes of machine integers: printing and reading are inverse to each other.\<close>

lemma length_le_bytes [simp]: "length (le_bytes n v) = n"
  by (induction n arbitrary: v) simp_all

lemma bit_from_le_bytes: "bit (from_le (le_bytes n (v :: 'l::len word)) :: 'l word) k \<longleftrightarrow> k < 8 * n \<and> bit v k"
proof (induction n arbitrary: v k)
  case (Suc n)
  show ?case
    using Suc.IH [of "drop_bit 8 v" "k - 8"]
    by (cases "k < 8") (auto simp: bit_simps not_less dest: bit_imp_le_length)
qed simp

lemma from_le_64: "from_le (le_bytes 8 (v :: u64)) = v"
  by (rule bit_word_eqI) (simp add: bit_from_le_bytes)

lemma from_le_32: "from_le (le_bytes 4 (v :: u32)) = v"
  by (rule bit_word_eqI) (simp add: bit_from_le_bytes)

lemma le_bytes_0 [simp]: "le_bytes n 0 = replicate n 0"
  by (induction n) simp_all

lemma bit_from_le_bound: "bit (from_le bs :: 'l::len word) n \<Longrightarrow> n < 8 * length bs"
proof (induction bs arbitrary: n)
  case (Cons b bs)
  show ?case
    using Cons.prems Cons.IH [of "n - 8"] by (cases "n < 8") (auto simp: bit_simps dest: bit_imp_le_length)
qed simp

lemma le_bytes_from_le:
  assumes "8 * length bs \<le> LENGTH('l::len)"
  shows "le_bytes (length bs) (from_le bs :: 'l word) = bs"
  using assms
proof (induction bs)
  case (Cons b bs)
  have "ucast (from_le (b # bs) :: 'l word) = b"
    using Cons.prems by (intro bit_word_eqI) (auto simp: bit_simps)
  moreover have "drop_bit 8 (from_le (b # bs) :: 'l word) = from_le bs"
    using Cons.prems by (intro bit_word_eqI) (auto simp: bit_simps dest: bit_from_le_bound bit_imp_le_length)
  ultimately show ?case
    using Cons by simp
qed simp

end
