(* ===== verification/Rsp_Packet.thy ===== *)
theory Rsp_Packet
  imports Prelude
begin

unbundle bit_operations_syntax

text \<open>
  The packet layer of the GDB remote serial protocol stub (\<^verbatim>\<open>debug/rsp/core.rs\<close>): hexadecimal
  digits and numbers, packet framing with its checksum, the stop reply, and the receiver with
  its acknowledgements.

  The serial line is explicit: the bytes still to arrive are a list, reading from an empty list
  is waiting for ever, and the bytes sent are appended to another list.
\<close>

section \<open>Digits and numbers\<close>

definition INBUF_LEN :: nat where
  "INBUF_LEN = 0x2000"

text \<open>The bytes of an ASCII literal.\<close>

definition ascii :: "string \<Rightarrow> u8 list" where
  "ascii s = map of_char s"

definition hex4 :: "u8 \<Rightarrow> u8" where
  "hex4 n = (if n < 10 then 0x30 + n else 0x61 + (n - 10))"

definition from_hex :: "u8 \<Rightarrow> u8 option" where
  "from_hex h =
     (if 0x30 \<le> h \<and> h \<le> 0x39 then Some (h - 0x30)
      else if 0x61 \<le> h \<and> h \<le> 0x66 then Some (10 + h - 0x61)
      else if 0x41 \<le> h \<and> h \<le> 0x46 then Some (10 + h - 0x41)
      else None)"

function parse_hex_loop :: "u8 list \<Rightarrow> nat \<Rightarrow> nat \<Rightarrow> u64 \<Rightarrow> nat \<Rightarrow> (u64 \<times> nat) res" where
  "parse_hex_loop inbuf off tot n i =
     (if off + i < tot then
        rbind (idx inbuf (off + i)) (\<lambda>b.
          case from_hex b of
            Some v \<Rightarrow> parse_hex_loop inbuf off tot (push_bit 4 n OR ucast v) (Suc i)
          | None \<Rightarrow> Ok (n, i))
      else Ok (n, i))"
  by pat_completeness auto
termination
  by (relation "measure (\<lambda>(inbuf, off, tot, n, i). tot - (off + i))") auto

declare parse_hex_loop.simps [simp del]

definition parse_hex_usize :: "u8 list \<Rightarrow> nat \<Rightarrow> nat \<Rightarrow> (u64 \<times> nat) option res" where
  "parse_hex_usize inbuf off tot =
     rbind (parse_hex_loop inbuf off tot 0 0) (\<lambda>(n, i). Ok (if i = 0 then None else Some (n, i)))"

text \<open>\<open>addr,len\<close>, with the number of bytes consumed.\<close>

definition parse_addr_len :: "u8 list \<Rightarrow> nat \<Rightarrow> nat \<Rightarrow> (u64 \<times> u64 \<times> nat) option res" where
  "parse_addr_len inbuf off tot =
     rbind (parse_hex_usize inbuf off tot) (\<lambda>r1.
       case r1 of
         None \<Rightarrow> Ok None
       | Some (addr, ua) \<Rightarrow>
           if tot \<le> off + ua then Ok None
           else rbind (idx inbuf (off + ua)) (\<lambda>b.
             if b \<noteq> 0x2C then Ok None
             else rbind (parse_hex_usize inbuf (off + ua + 1) tot) (\<lambda>r2.
               case r2 of
                 None \<Rightarrow> Ok None
               | Some (len, ul) \<Rightarrow> Ok (Some (addr, len, ua + 1 + ul)))))"

fun starts_loop :: "u8 list \<Rightarrow> nat \<Rightarrow> u8 list \<Rightarrow> bool res" where
  "starts_loop inbuf i [] = Ok True"
| "starts_loop inbuf i (p # ps) =
     rbind (idx inbuf i) (\<lambda>b. if b \<noteq> p then Ok False else starts_loop inbuf (Suc i) ps)"

definition starts_with :: "u8 list \<Rightarrow> nat \<Rightarrow> nat \<Rightarrow> u8 list \<Rightarrow> bool res" where
  "starts_with inbuf off tot pat =
     (if tot - off < length pat then Ok False else starts_loop inbuf off pat)"

section \<open>Sending\<close>

text \<open>Sending bytes while summing them up, and the trailer.\<close>

definition put_sum :: "u8 \<Rightarrow> u8 list \<times> u8 \<Rightarrow> u8 list \<times> u8" where
  "put_sum b = (\<lambda>(out, cks). (out @ [b], cks + b))"

definition put_trailer :: "u8 list \<times> u8 \<Rightarrow> u8 list" where
  "put_trailer = (\<lambda>(out, cks). out @ [0x23, hex4 (drop_bit 4 cks AND 0xF), hex4 (cks AND 0xF)])"

definition send_pkt :: "u8 list \<Rightarrow> u8 list \<Rightarrow> u8 list" where
  "send_pkt payload out = put_trailer (fold put_sum payload (out @ [0x24], 0))"

text \<open>\<open>send_pkt_raw\<close> reads \<open>len\<close> bytes through a pointer to the start of \<open>buf\<close>.\<close>

definition send_pkt_raw :: "u8 list \<Rightarrow> nat \<Rightarrow> u8 list \<Rightarrow> u8 list res" where
  "send_pkt_raw buf len out =
     (if len \<le> length buf then Ok (put_trailer (fold put_sum (take len buf) (out @ [0x24], 0)))
      else Panic OutOfBuffer)"

text \<open>The digits of a number, lowest first, in the 16-byte array of \<open>write_hex_u64_stream\<close>.\<close>

function hex_collect :: "u64 \<Rightarrow> u8 list \<Rightarrow> u8 list res" where
  "hex_collect v tmp =
     (if v \<noteq> 0 then
        (if length tmp < 16 then hex_collect (drop_bit 4 v) (tmp @ [hex4 (ucast (v AND 0xF))]) else Panic OutOfRange)
      else Ok tmp)"
  by pat_completeness auto
termination
  by (relation "measure (\<lambda>(v, tmp). 16 - length tmp)") auto

declare hex_collect.simps [simp del]

definition write_hex_u64_stream :: "u64 \<Rightarrow> u8 list \<times> u8 \<Rightarrow> (u8 list \<times> u8) res" where
  "write_hex_u64_stream v oc =
     (if v = 0 then Ok (put_sum 0x30 oc)
      else rbind (hex_collect v []) (\<lambda>tmp. Ok (fold put_sum (rev tmp) oc)))"

definition send_t_stop :: "u8 \<Rightarrow> u64 \<Rightarrow> u64 \<Rightarrow> u8 list \<Rightarrow> u8 list res" where
  "send_t_stop sig tid pc out =
     (let oc0 = (out @ [0x24], 0);
          oc1 = fold put_sum [0x54, hex4 (drop_bit 4 sig AND 0xF), hex4 (sig AND 0xF), 0x3B] oc0;
          oc2 = fold put_sum (ascii ''thread:'') oc1
      in rbind (write_hex_u64_stream tid oc2) (\<lambda>oc3.
         rbind (write_hex_u64_stream pc (fold put_sum (ascii ''pc:'') (put_sum 0x3B oc3))) (\<lambda>oc4.
           Ok (put_trailer (put_sum 0x3B oc4)))))"

section \<open>Receiving\<close>

text \<open>The body of a packet up to \<open>#\<close>: the rest of the input, the buffer, the length and the sum.\<close>

fun recv_body :: "u8 list \<Rightarrow> u8 list \<Rightarrow> nat \<Rightarrow> u8 \<Rightarrow> (u8 list \<times> u8 list \<times> nat \<times> u8) option" where
  "recv_body [] inbuf len cks = None"
| "recv_body (c # rx) inbuf len cks =
     (if c = 0x23 then Some (rx, inbuf, len, cks)
      else if len < INBUF_LEN then recv_body rx (inbuf[len := c]) (Suc len) (cks + c)
      else recv_body rx inbuf len cks)"

lemma recv_body_shorter: "recv_body rx inbuf len cks = Some (rx', inbuf', len', cks') \<Longrightarrow> length rx' < length rx"
  by (induction rx inbuf len cks rule: recv_body.induct) (auto split: if_splits)

definition check_ok :: "u8 \<Rightarrow> u8 \<Rightarrow> u8 \<Rightarrow> bool" where
  "check_ok h1 h2 cks =
     (case (from_hex h1, from_hex h2) of (Some a, Some b) \<Rightarrow> (push_bit 4 a OR b) = cks | _ \<Rightarrow> False)"

text \<open>
  \<open>recv_pkt_len\<close>: the input left, the output, the buffer and the length; \<open>None\<close> when the line goes
  silent. Either hexadecimal digit being wrong counts as a wrong checksum, as in the source.
\<close>

function recv_pkt_len :: "bool \<Rightarrow> u8 list \<Rightarrow> u8 list \<Rightarrow> u8 list \<Rightarrow> (u8 list \<times> u8 list \<times> u8 list \<times> nat) option" where
  "recv_pkt_len no_ack rx out inbuf =
     (case rx of
        [] \<Rightarrow> None
      | c # rx1 \<Rightarrow>
          if c = 0x2B \<or> c = 0x2D then recv_pkt_len no_ack rx1 out inbuf
          else if c = 0x03 then Some (rx1, out, inbuf[0 := 0x03], 1)
          else if c \<noteq> 0x24 then recv_pkt_len no_ack rx1 out inbuf
          else
            (case recv_body rx1 inbuf 0 0 of
               Some (h1 # h2 # rx2, inbuf', len, cks) \<Rightarrow>
                 let ok = check_ok h1 h2 cks;
                     out' = (if no_ack then out else out @ [if ok then 0x2B else 0x2D])
                 in if ok then Some (rx2, out', inbuf', len) else recv_pkt_len no_ack rx2 out' inbuf'
             | _ \<Rightarrow> None))"
  by pat_completeness auto
termination
  by (relation "measure (\<lambda>(no_ack, rx, out, inbuf). length rx)") (auto dest!: recv_body_shorter)

declare recv_pkt_len.simps [simp del]

end
