(* ===== verification/Rsp_Frames.thy ===== *)
theory Rsp_Frames
  imports Rsp_Packet
begin

unbundle bit_operations_syntax

text \<open>
  What the packet layer guarantees: digits, numbers and frames read back as they were written,
  and the receiver finds the next intact packet behind noise and damaged ones.
\<close>

section \<open>Digits\<close>

lemma nibble_induct:
  assumes "list_all (\<lambda>k. P (of_nat k :: u8)) [0..<16]" "n < 16"
  shows "P n"
proof -
  have "unat n < 16"
    using assms(2) by (simp add: word_less_nat_alt)
  then have "P (of_nat (unat n))"
    using assms(1) unfolding list_all_iff set_upt by (metis atLeastLessThan_iff zero_le)
  then show ?thesis
    by simp
qed

lemma from_hex_hex4 [simp]: "n < 16 \<Longrightarrow> from_hex (hex4 n) = Some n"
  by (rule nibble_induct [where P = "\<lambda>n. from_hex (hex4 n) = Some n"]) code_simp

lemma hex4_graphic: "n < 16 \<Longrightarrow> hex4 n \<notin> {0x23, 0x24, 0x2C, 0x3A, 0x3B}"
  by (rule nibble_induct [where P = "\<lambda>n. hex4 n \<notin> {0x23, 0x24, 0x2C, 0x3A, 0x3B}"]) code_simp

lemma low_nibble: "(x AND 0xF :: u8) < 16"
  by (rule le_less_trans [OF word_and_le1]) simp

lemma and_nibble: "x AND 0xF = take_bit 4 (x :: 'l::len word)"
  by (simp add: take_bit_eq_mask mask_eq_exp_minus_1)

lemma byte_nibbles: "push_bit 4 (drop_bit 4 c AND 0xF) OR (c AND 0xF) = (c :: u8)"
  unfolding and_nibble by (rule bit_word_eqI) (auto simp: bit_simps)

lemma check_ok_self: "check_ok (hex4 (drop_bit 4 c AND 0xF)) (hex4 (c AND 0xF)) c"
  by (simp only: check_ok_def from_hex_hex4 [OF low_nibble] option.case prod.case byte_nibbles)

section \<open>Frames\<close>

definition frame :: "u8 list \<Rightarrow> u8 list" where
  "frame payload = 0x24 # payload @ [0x23, hex4 (drop_bit 4 (sum_list payload) AND 0xF), hex4 (sum_list payload AND 0xF)]"

lemma fold_put_sum: "fold put_sum bs (out, c) = (out @ bs, c + sum_list bs)"
  by (induction bs arbitrary: out c) (simp_all add: put_sum_def add.assoc)

lemma send_pkt_eq: "send_pkt payload out = out @ frame payload"
  by (simp add: send_pkt_def fold_put_sum put_trailer_def frame_def)

lemma send_pkt_raw_eq: "len \<le> length buf \<Longrightarrow> send_pkt_raw buf len out = Ok (out @ frame (take len buf))"
  by (simp add: send_pkt_raw_def fold_put_sum put_trailer_def frame_def)

section \<open>The receiver\<close>

lemma recv_body_eq:
  assumes "0x23 \<notin> set payload" "len + length payload \<le> INBUF_LEN" "length inbuf = INBUF_LEN"
  shows "recv_body (payload @ 0x23 # rx) inbuf len c =
    Some (rx, take len inbuf @ payload @ drop (len + length payload) inbuf, len + length payload, c + sum_list payload)"
  using assms
proof (induction payload arbitrary: inbuf len c)
  case Nil
  then show ?case by simp
next
  case (Cons b bs)
  have "len < length inbuf"
    using Cons.prems by simp
  then have "take (Suc len) (inbuf[len := b]) = take len inbuf @ [b]" "drop (Suc len + k) (inbuf[len := b]) = drop (Suc len + k) inbuf" for k
    by (simp_all add: take_Suc_conv_app_nth)
  then show ?case
    using Cons.prems Cons.IH [of "Suc len" "inbuf[len := b]" "c + b"] by (simp add: add.assoc)
qed

lemma recv_noise:
  assumes "set noise \<inter> {0x24, 0x03} = {}"
  shows "recv_pkt_len na (noise @ rx) out inbuf = recv_pkt_len na rx out inbuf"
  using assms
proof (induction noise)
  case (Cons c noise)
  then show ?case
    by (subst recv_pkt_len.simps) auto
qed simp

lemma recv_packet:
  assumes "0x23 \<notin> set payload" "length payload \<le> INBUF_LEN" "length inbuf = INBUF_LEN"
  shows "recv_pkt_len na (0x24 # payload @ 0x23 # h1 # h2 # rx) out inbuf =
    (let ok = check_ok h1 h2 (sum_list payload);
         out' = (if na then out else out @ [if ok then 0x2B else 0x2D]);
         inbuf' = payload @ drop (length payload) inbuf
     in if ok then Some (rx, out', inbuf', length payload) else recv_pkt_len na rx out' inbuf')"
  using recv_body_eq [of payload 0 inbuf "h1 # h2 # rx" 0] assms by (subst recv_pkt_len.simps) (simp add: Let_def)

section \<open>Numbers\<close>

primrec num_lo :: "u8 list \<Rightarrow> u64" where
  "num_lo [] = 0"
| "num_lo (d # ds) = push_bit 4 (num_lo ds) OR ucast (the (from_hex d))"

definition is_hex :: "u8 \<Rightarrow> bool" where
  "is_hex d \<longleftrightarrow> from_hex d \<noteq> None"

lemma is_hex_hex4: "n < 16 \<Longrightarrow> is_hex (hex4 n)"
  by (simp add: is_hex_def)

lemma nibble_split: "push_bit 4 (drop_bit 4 v) OR ucast (ucast (v AND 0xF) :: u8) = (v :: u64)"
  unfolding and_nibble
proof (rule bit_word_eqI)
  fix n assume "n < LENGTH(64)"
  then show "bit (push_bit 4 (drop_bit 4 v) OR ucast (ucast (take_bit 4 v) :: u8)) n = bit v n"
    by (cases "n < 4") (auto simp: bit_simps)
qed

lemma nibble_less: "(ucast (v AND 0xF :: u64) :: u8) < 16"
proof -
  have "unat (v AND 0xF) < 16"
    using word_and_le1 [of v "0xF"] by (simp add: word_le_nat_alt)
  then show ?thesis
    by (simp add: word_less_nat_alt unsigned_ucast_eq take_bit_nat_eq_self)
qed

lemma hex_collect_ok:
  assumes "unat v < 16 ^ k" "length tmp + k \<le> 16"
  obtains ds where "hex_collect v tmp = Ok (tmp @ ds)" "num_lo ds = v" "list_all is_hex ds" "length ds \<le> k" "v \<noteq> 0 \<longrightarrow> ds \<noteq> []"
    "set ds \<inter> {0x23, 0x24, 0x2C, 0x3A, 0x3B} = {}"
  using assms
proof (induction k arbitrary: v tmp thesis)
  case 0
  then have "v = 0"
    by (simp add: unat_eq_0)
  then show ?case
    by (intro 0(1) [of "[]"]) (subst hex_collect.simps, simp_all)
next
  case (Suc k)
  let ?d = "hex4 (ucast (v AND 0xF))"
  show ?case
  proof (cases "v = 0")
    case True
    then show ?thesis
      by (intro Suc.prems(1) [of "[]"]) (subst hex_collect.simps, simp_all)
  next
    case False
    have "unat (drop_bit 4 v) = unat v div 16"
      by (simp add: drop_bit_eq_div unat_div)
    then have "unat (drop_bit 4 v) < 16 ^ k" "length (tmp @ [?d]) + k \<le> 16"
      using Suc.prems(2,3) by (simp_all add: less_mult_imp_div_less mult.commute)
    then obtain ds where ds: "hex_collect (drop_bit 4 v) (tmp @ [?d]) = Ok ((tmp @ [?d]) @ ds)" "num_lo ds = drop_bit 4 v"
      "list_all is_hex ds" "length ds \<le> k" "set ds \<inter> {0x23, 0x24, 0x2C, 0x3A, 0x3B} = {}"
      using Suc.IH by metis
    then show ?thesis
      using False Suc.prems(3) nibble_less [of v] hex4_graphic [OF nibble_less [of v]]
      by (intro Suc.prems(1) [of "?d # ds"]) (subst hex_collect.simps, simp_all add: nibble_split is_hex_hex4)
  qed
qed

text \<open>The text of a number as the stub prints it.\<close>

definition hex_text :: "u64 \<Rightarrow> u8 list" where
  "hex_text v = (case write_hex_u64_stream v ([], 0) of Ok (out, _) \<Rightarrow> out | Panic _ \<Rightarrow> [])"

lemma hex_text_facts:
  shows "write_hex_u64_stream v (out, c) = Ok (out @ hex_text v, c + sum_list (hex_text v))"
    "num_lo (rev (hex_text v)) = v" "list_all is_hex (hex_text v)" "hex_text v \<noteq> []" "length (hex_text v) \<le> 16"
    "set (hex_text v) \<inter> {0x23, 0x24, 0x2C, 0x3A, 0x3B} = {}"
proof -
  obtain ds where ds: "hex_collect v [] = Ok ds" "num_lo ds = v" "list_all is_hex ds" "length ds \<le> 16" "v \<noteq> 0 \<longrightarrow> ds \<noteq> []"
    "set ds \<inter> {0x23, 0x24, 0x2C, 0x3A, 0x3B} = {}"
    by (rule hex_collect_ok [of v 16 "[]"]) simp_all
  have t: "hex_text v = (if v = 0 then [0x30] else rev ds)"
    by (simp add: hex_text_def write_hex_u64_stream_def ds(1) fold_put_sum put_sum_def)
  show "write_hex_u64_stream v (out, c) = Ok (out @ hex_text v, c + sum_list (hex_text v))"
    unfolding t by (simp add: write_hex_u64_stream_def ds(1) fold_put_sum put_sum_def)
  show "num_lo (rev (hex_text v)) = v" "list_all is_hex (hex_text v)" "hex_text v \<noteq> []" "length (hex_text v) \<le> 16"
    "set (hex_text v) \<inter> {0x23, 0x24, 0x2C, 0x3A, 0x3B} = {}"
    unfolding t using ds by (auto simp: is_hex_def from_hex_def)
qed

lemma drop_take_Cons:
  assumes "drop k (take tot xs) = b # bs" "tot \<le> length xs"
  shows "k < tot" "xs ! k = b" "drop (Suc k) (take tot xs) = bs"
proof -
  show k: "k < tot"
  proof (rule ccontr)
    assume "\<not> k < tot"
    then show False
      using assms by simp
  qed
  then have "drop k (take tot xs) = xs ! k # drop (Suc k) (take tot xs)"
    using assms(2) by (subst Cons_nth_drop_Suc [symmetric]) simp_all
  then show "xs ! k = b" "drop (Suc k) (take tot xs) = bs"
    using assms(1) by simp_all
qed

lemma parse_hex_loop_run:
  assumes "drop (off + i) (take tot inbuf) = ds @ rest" "list_all is_hex ds" "rest = [] \<or> \<not> is_hex (hd rest)" "tot \<le> length inbuf"
  shows "parse_hex_loop inbuf off tot n i = Ok (foldl (\<lambda>n d. push_bit 4 n OR ucast (the (from_hex d))) n ds, i + length ds)"
  using assms
proof (induction ds arbitrary: n i)
  case Nil
  show ?case
  proof (cases "rest = []")
    case True
    then show ?thesis
      using Nil by (subst parse_hex_loop.simps) simp
  next
    case False
    then obtain b bs where "rest = b # bs"
      by (cases rest) auto
    then have "off + i < tot" "inbuf ! (off + i) = b"
      using drop_take_Cons [of "off + i" tot inbuf b bs] Nil.prems(1,4) by simp_all
    then show ?thesis
      using Nil \<open>rest = b # bs\<close> by (subst parse_hex_loop.simps) (simp add: is_hex_def idx_Ok)
  qed
next
  case (Cons d ds)
  have "drop (off + i) (take tot inbuf) = d # (ds @ rest)"
    using Cons.prems(1) by simp
  note d = drop_take_Cons [OF this Cons.prems(4)]
  then show ?case
    using Cons.prems Cons.IH [of "Suc i"] by (subst parse_hex_loop.simps) (auto simp: idx_Ok is_hex_def)
qed

lemma foldl_num: "foldl (\<lambda>n d. push_bit 4 n OR ucast (the (from_hex d))) 0 ds = num_lo (rev ds)"
  by (induction ds rule: rev_induct) simp_all

lemma parse_hex_text:
  assumes "drop off (take tot inbuf) = hex_text v @ rest" "rest = [] \<or> \<not> is_hex (hd rest)" "tot \<le> length inbuf"
  shows "parse_hex_usize inbuf off tot = Ok (Some (v, length (hex_text v)))"
  using parse_hex_loop_run [of off 0 tot inbuf "hex_text v" rest 0] assms hex_text_facts(2-4) [of v]
  by (simp add: parse_hex_usize_def foldl_num)

lemma parse_addr_len_text:
  assumes "drop off (take tot inbuf) = hex_text a @ 0x2C # hex_text l @ rest" "rest = [] \<or> \<not> is_hex (hd rest)" "tot \<le> length inbuf"
  shows "parse_addr_len inbuf off tot = Ok (Some (a, l, length (hex_text a) + 1 + length (hex_text l)))"
proof -
  let ?k = "off + length (hex_text a)"
  have comma: "\<not> is_hex 0x2C"
    by (simp add: is_hex_def from_hex_def)
  have d: "drop ?k (take tot inbuf) = 0x2C # hex_text l @ rest"
    using arg_cong [OF assms(1), of "drop (length (hex_text a))"] by (simp add: add.commute)
  note k = drop_take_Cons [OF this assms(3)]
  have d2: "drop (?k + 1) (take tot inbuf) = hex_text l @ rest"
    using k(3) by simp
  show ?thesis
    using parse_hex_text [OF assms(1) _ assms(3)] comma parse_hex_text [OF d2 assms(2,3)] k assms(3)
    by (simp add: parse_addr_len_def idx_Ok)
qed

section \<open>Properties\<close>

text \<open>
  C21: A packet the stub sends is received unchanged: behind any noise without a packet start or
  interrupt byte, the receiver reads the bytes \<open>send_pkt\<close> writes for a payload back into the buffer,
  acknowledges them unless acknowledgements are off, and leaves the input behind the packet.
\<close>

theorem sent_packet_received:
  assumes "0x23 \<notin> set payload" "length payload \<le> INBUF_LEN" "length inbuf = INBUF_LEN" "set noise \<inter> {0x24, 0x03} = {}"
  shows "recv_pkt_len no_ack (noise @ send_pkt payload [] @ rx) out inbuf =
    Some (rx, if no_ack then out else out @ [0x2B], payload @ drop (length payload) inbuf, length payload)"
  unfolding recv_noise [OF assms(4)] send_pkt_eq
  by (simp add: frame_def recv_packet [OF assms(1-3)] check_ok_self Let_def)

text \<open>
  C33: A damaged packet is refused and the retransmission accepted: when the two check digits of a
  packet do not match its payload, the receiver answers \<open>-\<close>, waits on, and reads the packet that
  follows, answering \<open>+\<close>.
\<close>

theorem damaged_packet_retried:
  assumes "0x23 \<notin> set bad" "length bad \<le> INBUF_LEN" "\<not> check_ok h1 h2 (sum_list bad)"
    and "0x23 \<notin> set payload" "length payload \<le> INBUF_LEN" "length inbuf = INBUF_LEN"
  shows "\<exists>inbuf'. recv_pkt_len False (0x24 # bad @ 0x23 # h1 # h2 # send_pkt payload [] @ rx) out inbuf =
    Some (rx, out @ [0x2D, 0x2B], inbuf', length payload) \<and> take (length payload) inbuf' = payload"
proof -
  have "length (bad @ drop (length bad) inbuf) = INBUF_LEN"
    using assms(2,6) by simp
  note second = recv_packet [OF assms(4,5) this]
  show ?thesis
    unfolding send_pkt_eq recv_packet [OF assms(1,2,6)]
    using assms(3) by (simp add: frame_def second check_ok_self Let_def)
qed

text \<open>
  The stop reply is a well-formed packet: \<open>send_t_stop\<close> never overruns its 16-digit array and
  sends one frame with the signal in two digits, the thread and the program counter in
  hexadecimal.
\<close>

lemma stop_reply_frame:
  "send_t_stop sig tid pc out = Ok (out @ frame
     ([0x54, hex4 (drop_bit 4 sig AND 0xF), hex4 (sig AND 0xF), 0x3B] @ ascii ''thread:'' @ hex_text tid @ [0x3B] @
      ascii ''pc:'' @ hex_text pc @ [0x3B]))"
  by (simp add: send_t_stop_def Let_def fold_put_sum hex_text_facts(1) put_sum_def put_trailer_def frame_def add.assoc)

theorem sent_packet_received_witness:
  "recv_pkt_len False ([0x2B, 0x41] @ send_pkt [0x4F, 0x4B] [] @ [0x63]) [] (replicate INBUF_LEN 0) =
    Some ([0x63], [0x2B], [0x4F, 0x4B] @ drop 2 (replicate INBUF_LEN 0), 2)"
  using sent_packet_received [of "[0x4F, 0x4B]" "replicate INBUF_LEN 0" "[0x2B, 0x41]" False "[0x63]" "[]"]
  by (simp add: INBUF_LEN_def)

theorem damaged_packet_retried_witness:
  "\<exists>inbuf'. recv_pkt_len False (0x24 # [0x67] @ 0x23 # 0x30 # 0x30 # send_pkt [0x67] [] @ []) [] (replicate INBUF_LEN 0) =
    Some ([], [0x2D, 0x2B], inbuf', 1) \<and> take 1 inbuf' = [0x67]"
  using damaged_packet_retried [of "[0x67]" "0x30" "0x30" "[0x67]" "replicate INBUF_LEN 0" "[]" "[]"]
  by (simp add: INBUF_LEN_def check_ok_def from_hex_def)

end
