(* ===== verification/Trap_Frame.thy ===== *)
theory Trap_Frame
  imports Prelude
begin

text \<open>
  The saved register file of an interrupted context (\<^verbatim>\<open>arch/x86_64/context.rs\<close>), shared by the
  scheduler, the exception handlers and the debugger stub.
\<close>

record TrapFrame =
  tf_r15 :: u64
  tf_r14 :: u64
  tf_r13 :: u64
  tf_r12 :: u64
  tf_r11 :: u64
  tf_r10 :: u64
  tf_r9 :: u64
  tf_r8 :: u64
  tf_rsi :: u64
  tf_rdi :: u64
  tf_rbp :: u64
  tf_rdx :: u64
  tf_rcx :: u64
  tf_rbx :: u64
  tf_rax :: u64
  tf_vec :: u64
  tf_err :: u64
  tf_rip :: u64
  tf_cs :: u64
  tf_rflags :: u64
  tf_rsp :: u64
  tf_ss :: u64

definition TrapFrame_default :: TrapFrame where
  "TrapFrame_default = \<lparr>tf_r15 = 0, tf_r14 = 0, tf_r13 = 0, tf_r12 = 0, tf_r11 = 0, tf_r10 = 0, tf_r9 = 0, tf_r8 = 0,
     tf_rsi = 0, tf_rdi = 0, tf_rbp = 0, tf_rdx = 0, tf_rcx = 0, tf_rbx = 0, tf_rax = 0, tf_vec = 0, tf_err = 0,
     tf_rip = 0, tf_cs = 0, tf_rflags = 0, tf_rsp = 0, tf_ss = 0\<rparr>"

end
