(* ===== verification/Rsp_Regs.thy ===== *)
theory Rsp_Regs
  imports Bytes Rsp_Frames Trap_Frame
begin

unbundle bit_operations_syntax

text \<open>
  The register packets of the stub (\<^verbatim>\<open>debug/rsp/arch_x86_64.rs\<close>): \<open>write_g\<close> prints the trap frame into
  the output buffer through a raw pointer, \<open>read_g\<close> parses a register packet back into it.
\<close>

section \<open>Writing\<close>

definition G_HEX_LEN :: nat where
  "G_HEX_LEN = 572"

text \<open>The buffer with the write position; a write past its end is an error of its own.\<close>

definition put8 :: "u8 \<Rightarrow> u8 list \<times> nat \<Rightarrow> (u8 list \<times> nat) res" where
  "put8 v = (\<lambda>(out, w).
     if w + 1 < length out then Ok (out[w := hex4 (drop_bit 4 v AND 0xF), w + 1 := hex4 (v AND 0xF)], w + 2)
     else Panic OutOfBuffer)"

fun put_bytes :: "u8 list \<Rightarrow> u8 list \<times> nat \<Rightarrow> (u8 list \<times> nat) res" where
  "put_bytes [] ow = Ok ow"
| "put_bytes (b # bs) ow = rbind (put8 b ow) (put_bytes bs)"

definition put16 :: "u16 \<Rightarrow> u8 list \<times> nat \<Rightarrow> (u8 list \<times> nat) res" where
  "put16 v = put_bytes (le_bytes 2 v)"

definition put32 :: "u32 \<Rightarrow> u8 list \<times> nat \<Rightarrow> (u8 list \<times> nat) res" where
  "put32 v = put_bytes (le_bytes 4 v)"

definition put64 :: "u64 \<Rightarrow> u8 list \<times> nat \<Rightarrow> (u8 list \<times> nat) res" where
  "put64 v = put_bytes (le_bytes 8 v)"

text \<open>A sequence of writes, one after the other.\<close>

fun put_each :: "('a \<Rightarrow> 's \<Rightarrow> 's res) \<Rightarrow> 'a list \<Rightarrow> 's \<Rightarrow> 's res" where
  "put_each put [] ow = Ok ow"
| "put_each put (v # vs) ow = rbind (put v ow) (put_each put vs)"

definition write_g :: "u8 list \<Rightarrow> TrapFrame \<Rightarrow> (u8 list \<times> nat) res" where
  "write_g out t =
     rbind (put_each put64 [tf_rax t, tf_rbx t, tf_rcx t, tf_rdx t, tf_rsi t, tf_rdi t, tf_rbp t, tf_rsp t,
              tf_r8 t, tf_r9 t, tf_r10 t, tf_r11 t, tf_r12 t, tf_r13 t, tf_r14 t, tf_r15 t, tf_rip t] (out, 0)) (\<lambda>ow1.
     rbind (put_each put32 [ucast (tf_rflags t), ucast (tf_cs t), ucast (tf_ss t), 0, 0, 0, 0] ow1) (\<lambda>ow2.
     rbind (put_each put8 (replicate (8 * 10) 0) ow2) (\<lambda>ow3.
     rbind (put_each put16 [0, 0, 0, 0] ow3) (\<lambda>ow4.
     rbind (put32 0 ow4) (\<lambda>ow5.
     rbind (put16 0 ow5) (\<lambda>ow6.
     rbind (put32 0 ow6) (\<lambda>ow7.
     rbind (put16 0 ow7) (\<lambda>ow8.
       put_each put64 [0, 0] ow8))))))))"

section \<open>Reading\<close>

text \<open>\<open>n\<close> bytes of two digits each, from position \<open>i\<close>; \<open>None\<close> on a missing or bad digit.\<close>

fun read_bytes :: "nat \<Rightarrow> u8 list \<Rightarrow> nat \<Rightarrow> u8 list option" where
  "read_bytes 0 p i = Some []"
| "read_bytes (Suc n) p i =
     (if i + 1 < length p then
        (case (from_hex (p ! i), from_hex (p ! (i + 1))) of
           (Some hi, Some lo) \<Rightarrow> map_option ((#) (push_bit 4 hi OR lo)) (read_bytes n p (i + 2))
         | _ \<Rightarrow> None)
      else None)"

definition r64 :: "u8 list \<Rightarrow> nat \<Rightarrow> u64 option" where
  "r64 p i = map_option from_le (read_bytes 8 p i)"

definition r32 :: "u8 list \<Rightarrow> nat \<Rightarrow> u32 option" where
  "r32 p i = map_option from_le (read_bytes 4 p i)"

text \<open>
  Reading one value after the other: each is stored as soon as it is parsed, and a value that does
  not parse ends the packet with the earlier ones already stored.
\<close>

fun read_each :: "(u8 list \<Rightarrow> nat \<Rightarrow> 'v option) \<Rightarrow> nat \<Rightarrow> ('v \<Rightarrow> TrapFrame \<Rightarrow> TrapFrame) list \<Rightarrow> u8 list \<Rightarrow> nat \<Rightarrow> TrapFrame \<Rightarrow>
    nat option \<times> TrapFrame" where
  "read_each rd k [] p i t = (Some i, t)"
| "read_each rd k (s # ss) p i t =
     (case rd p i of None \<Rightarrow> (None, t) | Some v \<Rightarrow> read_each rd k ss p (i + k) (s v t))"

definition then_read :: "nat option \<times> TrapFrame \<Rightarrow> (nat \<Rightarrow> TrapFrame \<Rightarrow> nat option \<times> TrapFrame) \<Rightarrow> nat option \<times> TrapFrame" where
  "then_read r f = (case r of (None, t) \<Rightarrow> (None, t) | (Some i, t) \<Rightarrow> f i t)"

definition gpr_setters :: "(u64 \<Rightarrow> TrapFrame \<Rightarrow> TrapFrame) list" where
  "gpr_setters =
     [\<lambda>v t. t\<lparr>tf_rax := v\<rparr>, \<lambda>v t. t\<lparr>tf_rbx := v\<rparr>, \<lambda>v t. t\<lparr>tf_rcx := v\<rparr>, \<lambda>v t. t\<lparr>tf_rdx := v\<rparr>,
      \<lambda>v t. t\<lparr>tf_rsi := v\<rparr>, \<lambda>v t. t\<lparr>tf_rdi := v\<rparr>, \<lambda>v t. t\<lparr>tf_rbp := v\<rparr>, \<lambda>v t. t\<lparr>tf_rsp := v\<rparr>,
      \<lambda>v t. t\<lparr>tf_r8 := v\<rparr>, \<lambda>v t. t\<lparr>tf_r9 := v\<rparr>, \<lambda>v t. t\<lparr>tf_r10 := v\<rparr>, \<lambda>v t. t\<lparr>tf_r11 := v\<rparr>,
      \<lambda>v t. t\<lparr>tf_r12 := v\<rparr>, \<lambda>v t. t\<lparr>tf_r13 := v\<rparr>, \<lambda>v t. t\<lparr>tf_r14 := v\<rparr>, \<lambda>v t. t\<lparr>tf_r15 := v\<rparr>,
      \<lambda>v t. t\<lparr>tf_rip := v\<rparr>, \<lambda>v t. t]"

definition flag_setters :: "(u32 \<Rightarrow> TrapFrame \<Rightarrow> TrapFrame) list" where
  "flag_setters =
     [\<lambda>ef t. t\<lparr>tf_rflags := (tf_rflags t AND NOT 0xFFFFFFFF) OR ucast ef\<rparr>,
      \<lambda>v t. t, \<lambda>v t. t, \<lambda>v t. t, \<lambda>v t. t, \<lambda>v t. t, \<lambda>v t. t]"

definition read_g :: "TrapFrame \<Rightarrow> u8 list \<Rightarrow> bool \<times> TrapFrame" where
  "read_g t payload =
     (if length payload \<noteq> G_HEX_LEN then (False, t)
      else
        (let (r, t') =
           then_read (read_each r64 16 gpr_setters payload 0 t) (\<lambda>i1 t1.
           then_read (read_each r32 8 flag_setters payload i1 t1) (\<lambda>i2 t2.
             read_each r64 16 [\<lambda>v t. t, \<lambda>v t. t] payload i2 t2))
         in (r \<noteq> None, t')))"

section \<open>Bytes and their text\<close>

definition hexb :: "u8 \<Rightarrow> u8 list" where
  "hexb b = [hex4 (drop_bit 4 b AND 0xF), hex4 (b AND 0xF)]"

definition hexs :: "u8 list \<Rightarrow> u8 list" where
  "hexs bs = concat (map hexb bs)"

lemma hexs_simps [simp]: "hexs [] = []" "hexs (b # bs) = hexb b @ hexs bs" "hexs (bs @ cs) = hexs bs @ hexs cs"
  by (simp_all add: hexs_def)

lemma length_hexs [simp]: "length (hexs bs) = 2 * length bs"
  by (induction bs) (simp_all add: hexb_def)

lemma put_bytes_eq:
  assumes "w + 2 * length bs \<le> length out"
  shows "put_bytes bs (out, w) = Ok (take w out @ hexs bs @ drop (w + 2 * length bs) out, w + 2 * length bs)"
  using assms
proof (induction bs arbitrary: out w)
  case (Cons b bs)
  let ?out = "out[w := hex4 (drop_bit 4 b AND 0xF), w + 1 := hex4 (b AND 0xF)]"
  have w: "w + 1 < length out"
    using Cons.prems by simp
  then have tk: "take (w + 2) ?out = take w out @ hexb b"
    by (simp add: take_Suc_conv_app_nth hexb_def)
  have "drop (w + 2 + k) ?out = drop (w + 2 + k) out" for k
    by simp
  then show ?case
    using Cons.IH [of "w + 2" ?out] Cons.prems w tk by (simp add: put8_def)
qed simp

lemma put_bytes_append: "put_bytes (as @ bs) ow = rbind (put_bytes as ow) (put_bytes bs)"
proof (induction as arbitrary: ow)
  case (Cons a as)
  then show ?case
    by (cases "put8 a ow") simp_all
qed simp

lemma put_each_bytes:
  assumes "\<And>v. put v = put_bytes (f v)"
  shows "put_each put vs ow = put_bytes (concat (map f vs)) ow"
proof (induction vs arbitrary: ow)
  case (Cons v vs)
  then show ?case
    by (cases "put_bytes (f v) ow") (simp_all add: assms put_bytes_append)
qed simp

lemma read_bytes_hexs:
  assumes "drop i p = hexs bs @ rest"
  shows "read_bytes (length bs) p i = Some bs"
  using assms
proof (induction bs arbitrary: i)
  case (Cons b bs)
  have len: "i + 1 < length p"
    using arg_cong [OF Cons.prems, of length] by (simp add: hexb_def)
  have nth: "p ! i = hex4 (drop_bit 4 b AND 0xF)" "p ! (i + 1) = hex4 (b AND 0xF)"
    using arg_cong [OF Cons.prems, of "\<lambda>xs. xs ! 0"] arg_cong [OF Cons.prems, of "\<lambda>xs. xs ! 1"] len by (simp_all add: hexb_def)
  have "drop (i + 2) p = hexs bs @ rest"
    using arg_cong [OF Cons.prems, of "drop 2"] by (simp add: hexb_def add.commute)
  note rest = Cons.IH [OF this]
  show ?case
    by (simp only: length_Cons read_bytes.simps nth len if_True from_hex_hex4 [OF low_nibble] option.case prod.case
        byte_nibbles rest option.map)
qed simp

section \<open>The register packet\<close>

definition g_bytes :: "TrapFrame \<Rightarrow> u8 list" where
  "g_bytes t =
     concat (map (le_bytes 8) [tf_rax t, tf_rbx t, tf_rcx t, tf_rdx t, tf_rsi t, tf_rdi t, tf_rbp t, tf_rsp t,
       tf_r8 t, tf_r9 t, tf_r10 t, tf_r11 t, tf_r12 t, tf_r13 t, tf_r14 t, tf_r15 t, tf_rip t])
     @ le_bytes 4 (ucast (tf_rflags t) :: u32) @ le_bytes 4 (ucast (tf_cs t) :: u32) @ le_bytes 4 (ucast (tf_ss t) :: u32)
     @ replicate 132 0"

lemma length_g_bytes: "length (g_bytes t) = 280"
  by (simp add: g_bytes_def)

lemma put8_bytes: "put8 v = put_bytes [v]"
proof
  show "put8 v ow = put_bytes [v] ow" for ow
    by (cases "put8 v ow") simp_all
qed

lemma g_tail:
  "concat (map (le_bytes 4) [0 :: u32, 0, 0, 0]) @ concat (map (\<lambda>v. [v]) (replicate (8 * 10) 0)) @
   concat (map (le_bytes 2) [0 :: u16, 0, 0, 0]) @ le_bytes 4 (0 :: u32) @ le_bytes 2 (0 :: u16) @ le_bytes 4 (0 :: u32) @
   le_bytes 2 (0 :: u16) @ concat (map (le_bytes 8) [0 :: u64, 0]) = (replicate 132 0 :: u8 list)"
  by code_simp

lemma write_g_bytes: "write_g out t = put_bytes (g_bytes t) (out, 0)"
  apply (simp only: write_g_def put_each_bytes [of put64, OF put64_def] put_each_bytes [of put32, OF put32_def]
      put_each_bytes [of put16, OF put16_def] put_each_bytes [of put8, OF put8_bytes] put16_def put32_def put_bytes_append [symmetric])
  apply (simp only: g_bytes_def g_tail [symmetric])
  apply (simp only: list.map concat.simps append_assoc append_Nil)
  done

lemma write_g_eq:
  assumes "560 \<le> length out"
  shows "write_g out t = Ok (hexs (g_bytes t) @ drop 560 out, 560)"
  using put_bytes_eq [of 0 "g_bytes t" out] assms by (simp add: write_g_bytes length_g_bytes)

lemma read_r64:
  assumes "drop i p = hexs (le_bytes 8 v) @ rest"
  shows "r64 p i = Some v" "drop (i + 16) p = rest"
  using read_bytes_hexs [OF assms] arg_cong [OF assms, of "drop 16"] by (simp_all add: r64_def from_le_64 add.commute)

lemma read_r32:
  assumes "drop i p = hexs (le_bytes 4 v) @ rest"
  shows "r32 p i = Some v" "drop (i + 8) p = rest"
  using read_bytes_hexs [OF assms] arg_cong [OF assms, of "drop 8"] by (simp_all add: r32_def from_le_32 add.commute)

lemma read_each_r64:
  assumes "length vs = length ss" "drop i p = hexs (concat (map (le_bytes 8) vs)) @ rest"
  shows "read_each r64 16 ss p i t = (Some (i + 16 * length ss), fold (\<lambda>(s, v). s v) (zip ss vs) t)"
  using assms
proof (induction ss arbitrary: i vs t)
  case (Cons s ss)
  then obtain v vs' where vs: "vs = v # vs'" "length vs' = length ss"
    by (metis length_Suc_conv)
  then have "drop i p = hexs (le_bytes 8 v) @ hexs (concat (map (le_bytes 8) vs')) @ rest"
    using Cons.prems by simp
  note r = read_r64 [OF this]
  show ?case
    using Cons.IH [OF vs(2) r(2)] r(1) vs by simp
qed simp

lemma read_each_r32:
  assumes "length vs = length ss" "drop i p = hexs (concat (map (le_bytes 4) vs)) @ rest"
  shows "read_each r32 8 ss p i t = (Some (i + 8 * length ss), fold (\<lambda>(s, v). s v) (zip ss vs) t)"
  using assms
proof (induction ss arbitrary: i vs t)
  case (Cons s ss)
  then obtain v vs' where vs: "vs = v # vs'" "length vs' = length ss"
    by (metis length_Suc_conv)
  then have "drop i p = hexs (le_bytes 4 v) @ hexs (concat (map (le_bytes 4) vs')) @ rest"
    using Cons.prems by simp
  note r = read_r32 [OF this]
  show ?case
    using Cons.IH [OF vs(2) r(2)] r(1) vs by simp
qed simp

text \<open>
  A register packet as \<open>read_g\<close> takes it apart: eighteen 64-bit values, seven 32-bit ones, two more
  64-bit ones, and text nothing reads.
\<close>

lemma read_g_packet:
  assumes "length p = G_HEX_LEN"
    and "p = hexs (concat (map (le_bytes 8) vs) @ concat (map (le_bytes 4) ws) @ concat (map (le_bytes 8) [x :: u64, y])) @ rest"
    and "length vs = 18" "length ws = 7"
  shows "read_g t p = (True, fold (\<lambda>(s, v). s v) (zip flag_setters ws) (fold (\<lambda>(s, v). s v) (zip gpr_setters vs) t))"
proof -
  let ?r2 = "hexs (concat (map (le_bytes 8) [x, y])) @ rest"
  let ?r1 = "hexs (concat (map (le_bytes 4) ws)) @ ?r2"
  have len: "length (concat (map (le_bytes 8) vs)) = 144" "length (concat (map (le_bytes 4) ws)) = 28"
    using assms(3,4) by (simp_all add: length_concat comp_def sum_list_triv)
  have p: "drop 0 p = hexs (concat (map (le_bytes 8) vs)) @ ?r1"
    by (simp add: assms(2))
  have p1: "drop 288 p = ?r1" and p2: "drop 344 p = ?r2"
    using len by (simp_all add: assms(2))
  have 1: "read_each r64 16 gpr_setters p 0 t = (Some 288, fold (\<lambda>(s, v). s v) (zip gpr_setters vs) t)"
    using read_each_r64 [OF _ p, of gpr_setters t] assms(3) by (simp add: gpr_setters_def)
  have 2: "read_each r32 8 flag_setters p 288 t = (Some 344, fold (\<lambda>(s, v). s v) (zip flag_setters ws) t)" for t
    using read_each_r32 [OF _ p1, of flag_setters t] assms(4) by (simp add: flag_setters_def)
  have 3: "read_each r64 16 [\<lambda>v t. t, \<lambda>v t. t] p 344 t = (Some 376, t)" for t
    using read_each_r64 [OF _ p2, of "[\<lambda>v t. t, \<lambda>v t. t]" t] by simp
  show ?thesis
    by (simp only: read_g_def assms(1) 1 2 3 then_read_def prod.case option.case Let_def) simp
qed

lemma g_bytes_split:
  "g_bytes t =
     concat (map (le_bytes 8) [tf_rax t, tf_rbx t, tf_rcx t, tf_rdx t, tf_rsi t, tf_rdi t, tf_rbp t, tf_rsp t,
       tf_r8 t, tf_r9 t, tf_r10 t, tf_r11 t, tf_r12 t, tf_r13 t, tf_r14 t, tf_r15 t, tf_rip t,
       from_le (le_bytes 4 (ucast (tf_rflags t) :: u32) @ le_bytes 4 (ucast (tf_cs t) :: u32))])
     @ concat (map (le_bytes 4) [ucast (tf_ss t) :: u32, 0, 0, 0, 0, 0, 0])
     @ concat (map (le_bytes 8) [0 :: u64, 0]) @ replicate 92 0"
proof -
  let ?fl = "le_bytes 4 (ucast (tf_rflags t) :: u32) @ le_bytes 4 (ucast (tf_cs t) :: u32)"
  have "le_bytes (length ?fl) (from_le ?fl :: u64) = ?fl"
    by (rule le_bytes_from_le) simp
  then have fl: "le_bytes 8 (from_le ?fl :: u64) = ?fl"
    by (simp only: length_append length_le_bytes) simp
  have zs: "concat (map (le_bytes 4) [0 :: u32, 0, 0, 0, 0, 0]) @ concat (map (le_bytes 8) [0 :: u64, 0]) @ replicate 92 0
      = (replicate 132 0 :: u8 list)"
    by code_simp
  show ?thesis
    by (simp only: g_bytes_def zs [symmetric] list.map concat.simps fl append_assoc append_Nil)
qed

text \<open>the answer to a register read. \<open>write_g\<close> prints 560 digits whatever the registers are, never
  past the buffer, and the server sends the first \<open>G_HEX_LEN\<close> = 572 bytes of the buffer: the last
  twelve bytes of the reply are whatever the buffer held before, although the count \<open>write_g\<close> returns
  is documented to be \<open>G_HEX_LEN\<close>.\<close>

lemma g_reply_has_stale_tail:
  assumes "G_HEX_LEN \<le> length out"
  shows "\<exists>out'. write_g out t = Ok (out', 560) \<and> length out' = length out \<and>
    send_pkt_raw out' G_HEX_LEN tx = Ok (tx @ frame (hexs (g_bytes t) @ take 12 (drop 560 out)))"
proof -
  let ?out = "hexs (g_bytes t) @ drop 560 out"
  have len: "length ?out = length out" "G_HEX_LEN \<le> length ?out"
    using assms by (simp_all add: G_HEX_LEN_def length_g_bytes)
  have "take G_HEX_LEN ?out = hexs (g_bytes t) @ take 12 (drop 560 out)"
    by (simp add: G_HEX_LEN_def length_g_bytes)
  then have "send_pkt_raw ?out G_HEX_LEN tx = Ok (tx @ frame (hexs (g_bytes t) @ take 12 (drop 560 out)))"
    using send_pkt_raw_eq [OF len(2)] by simp
  then show ?thesis
    using write_g_eq assms len(1) by (auto simp: G_HEX_LEN_def)
qed



text \<open>A rejected register write is not undone. When a digit of the second register is bad, the packet is
  refused although the first register has already been overwritten with the packet's value.\<close>

lemma rejected_G_keeps_rax:
  assumes "length p = G_HEX_LEN" "take 16 p = hexs (le_bytes 8 v)" "from_hex (p ! 16) = None"
  shows "read_g t p = (False, t\<lparr>tf_rax := v\<rparr>)"
proof -
  have "drop 0 p = hexs (le_bytes 8 v) @ drop 16 p"
    using assms(2) append_take_drop_id [of 16 p] by simp
  note r = read_r64(1) [OF this]
  have "read_bytes (Suc 7) p 16 = None"
    using assms(3) by (simp only: read_bytes.simps option.case prod.case) simp
  then have "r64 p 16 = None"
    by (simp add: r64_def)
  then show ?thesis
    using assms(1) r by (simp add: read_g_def gpr_setters_def then_read_def)
qed

end
