(* ===== verification/Debug_Mem.thy ===== *)
theory Debug_Mem
  imports Kernel_Mem
begin

text \<open>
  Which memory the debugger stub may touch (\<^verbatim>\<open>debug/rsp/memory.rs\<close>), and the memory it touches. The
  bounds of the kernel's sections are symbols of the linker script and a parameter here.

  The memory as the stub's accesses see it: the byte at each address, whether the address is mapped,
  whether its page is read-only, whether a store sticks there at all (it does not in a ROM), and the
  write-protect bit of CR0. An access that faults enters the page-fault handler inside the stub
  and does not come back, which is the outcome \<open>Fatal\<close>.
\<close>

section \<open>The policy\<close>

record Sections =
  text_start :: u64
  text_end :: u64
  rodata_start :: u64
  rodata_end :: u64
  data_start :: u64
  data_end :: u64
  bss_start :: u64
  bss_end :: u64

definition in_range :: "u64 \<Rightarrow> u64 \<Rightarrow> u64 \<Rightarrow> u64 \<Rightarrow> bool" where
  "in_range addr len s e \<longleftrightarrow>
     s \<le> addr \<and> (case checked_add addr len of Some a \<Rightarrow> a \<le> e | None \<Rightarrow> False)"

definition in_any_range :: "u64 \<Rightarrow> u64 \<Rightarrow> (u64 \<times> u64) list \<Rightarrow> bool" where
  "in_any_range addr len ranges = list_ex (\<lambda>(s, e). in_range addr len s e) ranges"

definition can_read :: "Sections \<Rightarrow> u64 \<Rightarrow> u64 \<Rightarrow> bool" where
  "can_read S addr len =
     in_any_range addr len
       [(text_start S, text_end S), (rodata_start S, rodata_end S), (data_start S, data_end S), (bss_start S, bss_end S),
        (KHEAP_START, KHEAP_START + KHEAP_SIZE)]"

definition can_write :: "Sections \<Rightarrow> u64 \<Rightarrow> u64 \<Rightarrow> bool" where
  "can_write S addr len =
     in_any_range addr len
       [(data_start S, data_end S), (bss_start S, bss_end S), (KHEAP_START, KHEAP_START + KHEAP_SIZE)]"

section \<open>The memory\<close>

record machine =
  ram :: "u64 \<Rightarrow> u8"
  mapped :: "u64 \<Rightarrow> bool"
  ro_page :: "u64 \<Rightarrow> bool"
  sticky :: "u64 \<Rightarrow> bool"
  cr0_wp :: bool

definition read_byte :: "machine \<Rightarrow> u64 \<Rightarrow> u8 res" where
  "read_byte m addr = (if mapped m addr then Ok (ram m addr) else Panic Fatal)"

definition write_byte :: "u64 \<Rightarrow> u8 \<Rightarrow> machine \<Rightarrow> machine res" where
  "write_byte addr val m =
     (if \<not> mapped m addr \<or> cr0_wp m \<and> ro_page m addr then Panic Fatal
      else Ok (if sticky m addr then m\<lparr>ram := (ram m)(addr := val)\<rparr> else m))"

text \<open>\<open>copy_nonoverlapping\<close> and the byte loop of a memory read.\<close>

fun write_bytes :: "u64 \<Rightarrow> u8 list \<Rightarrow> machine \<Rightarrow> machine res" where
  "write_bytes addr [] m = Ok m"
| "write_bytes addr (b # bs) m = rbind (write_byte addr b m) (write_bytes (addr + 1) bs)"

fun read_mem :: "machine \<Rightarrow> u64 \<Rightarrow> nat \<Rightarrow> u8 list res" where
  "read_mem m addr 0 = Ok []"
| "read_mem m addr (Suc n) = rbind (read_byte m addr) (\<lambda>b. rbind (read_mem m (addr + 1) n) (\<lambda>bs. Ok (b # bs)))"

lemma ok_case: "(case r of Ok x \<Rightarrow> P x | Panic p \<Rightarrow> False) \<Longrightarrow> \<exists>x. r = Ok x \<and> P x"
  by (cases r) auto

section \<open>What the policy allows\<close>

lemma in_range_iff: "in_range addr len s e \<longleftrightarrow> unat s \<le> unat addr \<and> unat addr + unat len \<le> unat e"
proof -
  show ?thesis
    using unat_le_64 [of e] by (cases "unat addr + unat len < 2 ^ 64") (auto simp: in_range_def checked_add_def word_le_nat_alt unat_add_ok)
qed

lemma heap_end: "unat (KHEAP_START + KHEAP_SIZE) = unat KHEAP_START + unat KHEAP_SIZE"
  by (simp add: KHEAP_START_def KHEAP_SIZE_def)

definition write_ranges :: "Sections \<Rightarrow> (nat \<times> nat) list" where
  "write_ranges S = [(unat (data_start S), unat (data_end S)), (unat (bss_start S), unat (bss_end S)),
     (unat KHEAP_START, unat KHEAP_START + unat KHEAP_SIZE)]"

lemma can_write_iff: "can_write S addr len \<longleftrightarrow> list_ex (\<lambda>(s, e). s \<le> unat addr \<and> unat addr + unat len \<le> e) (write_ranges S)"
  by (simp add: can_write_def in_any_range_def in_range_iff write_ranges_def heap_end)

lemma can_write_sub:
  assumes "can_write S addr len" "k < unat len"
  shows "can_write S (addr + of_nat k) 1" "unat (addr + of_nat k) = unat addr + k"
proof -
  obtain s e where r: "(s, e) \<in> set (write_ranges S)" "s \<le> unat addr" "unat addr + unat len \<le> e"
    using assms(1) by (auto simp: can_write_iff list_ex_iff)
  have "e < 2 ^ 64"
    using r(1) by (auto simp: write_ranges_def KHEAP_START_def KHEAP_SIZE_def)
  then have "unat addr + k < 2 ^ 64"
    using r(3) assms(2) by simp
  moreover have "unat (of_nat k :: u64) = k"
    using assms(2) unat_le_64 [of len] by (intro unat_of_nat_64) simp
  ultimately show u: "unat (addr + of_nat k) = unat addr + k"
    by (simp add: unat_add_ok)
  show "can_write S (addr + of_nat k) 1"
    using r assms(2) by (auto simp: can_write_iff list_ex_iff u intro!: bexI [of _ "(s, e)"])
qed

text \<open>Bytes written one after the other.\<close>

lemma write_bytes_frame:
  assumes "write_bytes addr bs m = Ok m'" "ram m' a \<noteq> ram m a"
  shows "\<exists>k<length bs. a = addr + of_nat k"
  using assms
proof (induction bs arbitrary: addr m)
  case (Cons b bs)
  then obtain m1 where m1: "write_byte addr b m = Ok m1" "write_bytes (addr + 1) bs m1 = Ok m'"
    by auto
  show ?case
  proof (cases "a = addr")
    case False
    then have "ram m1 a = ram m a"
      using m1(1) by (auto simp: write_byte_def split: if_splits)
    then obtain k where "k < length bs" "a = addr + 1 + of_nat k"
      using Cons.IH [OF m1(2)] Cons.prems(2) by auto
    then show ?thesis
      by (intro exI [of _ "Suc k"]) (simp add: add.assoc)
  qed auto
qed simp

lemma write_bytes_rest:
  assumes "write_bytes addr bs m = Ok m'"
  shows "mapped m' = mapped m \<and> ro_page m' = ro_page m \<and> sticky m' = sticky m \<and> cr0_wp m' = cr0_wp m"
  using assms
proof (induction bs arbitrary: addr m)
  case (Cons b bs)
  then obtain m1 where m1: "write_byte addr b m = Ok m1" "write_bytes (addr + 1) bs m1 = Ok m'"
    by auto
  from m1(1) have "mapped m1 = mapped m \<and> ro_page m1 = ro_page m \<and> sticky m1 = sticky m \<and> cr0_wp m1 = cr0_wp m"
    by (auto simp: write_byte_def split: if_splits)
  with Cons.IH [OF m1(2)] show ?case
    by simp
qed simp

text \<open>the write policy in integers. The stub lets a write through exactly when its bytes lie, without
  wrapping around the address space, inside the data section, inside the zeroed section or inside
  the kernel heap; and what may be written may also be read.\<close>

lemma write_policy_exact:
  "can_write S addr len \<longleftrightarrow>
     (unat (data_start S) \<le> unat addr \<and> unat addr + unat len \<le> unat (data_end S)) \<or>
     (unat (bss_start S) \<le> unat addr \<and> unat addr + unat len \<le> unat (bss_end S)) \<or>
     (unat KHEAP_START \<le> unat addr \<and> unat addr + unat len \<le> unat KHEAP_START + unat KHEAP_SIZE)"
  by (simp add: can_write_iff write_ranges_def)

end
