(* ===== verification/Breakpoint.thy ===== *)
theory Breakpoint
  imports Debug_Mem
begin

text \<open>
  Software breakpoints (\<^verbatim>\<open>debug/breakpoint.rs\<close>): a table of 64 entries, patching the trap instruction into
  read-only text with write protection lifted, and what happens to an entry when it is hit and
  when the program is resumed.
\<close>

section \<open>The table\<close>

record Bp =
  bp_addr :: u64
  bp_orig :: u8
  bp_armed :: bool

definition MAX_BP :: nat where
  "MAX_BP = 64"

record bp_state =
  bp_tbl :: "Bp option list"
  bp_replant :: "u64 option"
  bp_mem :: machine

definition with_wp_disabled :: "(machine \<Rightarrow> machine res) \<Rightarrow> machine \<Rightarrow> machine res" where
  "with_wp_disabled f m =
     (if \<not> cr0_wp m then f m
      else rbind (f (m\<lparr>cr0_wp := False\<rparr>)) (\<lambda>m'. Ok (m'\<lparr>cr0_wp := True\<rparr>)))"

text \<open>The entry of the address, else the first free one.\<close>

fun find_slot :: "u64 \<Rightarrow> Bp option list \<Rightarrow> nat \<Rightarrow> nat option \<Rightarrow> nat option" where
  "find_slot addr [] i free = free"
| "find_slot addr (Some bp # es) i free =
     (if bp_addr bp = addr then Some i else find_slot addr es (Suc i) free)"
| "find_slot addr (None # es) i free =
     find_slot addr es (Suc i) (if free = None then Some i else free)"

definition bp_insert :: "u64 \<Rightarrow> 'a bp_state_scheme \<Rightarrow> (bool \<times> 'a bp_state_scheme) res" where
  "bp_insert addr st =
     (case find_slot addr (bp_tbl st) 0 None of
        None \<Rightarrow> Ok (False, st)
      | Some i \<Rightarrow>
          if (case bp_tbl st ! i of Some bp \<Rightarrow> bp_armed bp | None \<Rightarrow> False) then Ok (True, st)
          else
            rbind (read_byte (bp_mem st) addr) (\<lambda>orig.
            rbind (with_wp_disabled (write_byte addr 0xCC) (bp_mem st)) (\<lambda>m.
            rbind (read_byte m addr) (\<lambda>b.
              if b \<noteq> 0xCC then Ok (False, st\<lparr>bp_mem := m\<rparr>)
              else Ok (True, st\<lparr>bp_mem := m,
                     bp_tbl := (bp_tbl st)[i := Some \<lparr>bp_addr = addr, bp_orig = orig, bp_armed = True\<rparr>]\<rparr>)))))"

text \<open>The first entry of the table with a property, as the loops over the table find it.\<close>

fun find_bp :: "(Bp \<Rightarrow> bool) \<Rightarrow> Bp option list \<Rightarrow> nat \<Rightarrow> (nat \<times> Bp) option" where
  "find_bp P [] i = None"
| "find_bp P (Some bp # es) i = (if P bp then Some (i, bp) else find_bp P es (Suc i))"
| "find_bp P (None # es) i = find_bp P es (Suc i)"

definition bp_remove :: "u64 \<Rightarrow> 'a bp_state_scheme \<Rightarrow> (bool \<times> 'a bp_state_scheme) res" where
  "bp_remove addr st =
     (case find_bp (\<lambda>bp. bp_addr bp = addr) (bp_tbl st) 0 of
        None \<Rightarrow> Ok (False, st)
      | Some (i, bp) \<Rightarrow>
          rbind (if bp_armed bp then with_wp_disabled (write_byte addr (bp_orig bp)) (bp_mem st) else Ok (bp_mem st)) (\<lambda>m.
            Ok (True, st\<lparr>bp_mem := m, bp_tbl := (bp_tbl st)[i := None]\<rparr>)))"

text \<open>The instruction pointer, the address hit and the state after entering the debugger.\<close>

definition on_breakpoint_enter :: "u64 \<Rightarrow> 'a bp_state_scheme \<Rightarrow> (u64 \<times> u64 option \<times> 'a bp_state_scheme) res" where
  "on_breakpoint_enter rip st =
     (let hit_addr = rip - 1 in
      case find_bp (\<lambda>bp. bp_addr bp = hit_addr \<and> bp_armed bp) (bp_tbl st) 0 of
        None \<Rightarrow> Ok (rip, None, st)
      | Some (i, bp) \<Rightarrow>
          rbind (with_wp_disabled (write_byte hit_addr (bp_orig bp)) (bp_mem st)) (\<lambda>m.
            Ok (hit_addr, Some hit_addr,
                st\<lparr>bp_mem := m, bp_tbl := (bp_tbl st)[i := Some (bp\<lparr>bp_armed := False\<rparr>)]\<rparr>)))"

definition on_resume_continue :: "u64 option \<Rightarrow> 'a bp_state_scheme \<Rightarrow> 'a bp_state_scheme res" where
  "on_resume_continue last_hit st =
     (case last_hit of
        Some addr \<Rightarrow> rbind (bp_insert addr st) (\<lambda>(ok, st'). Ok st')
      | None \<Rightarrow> Ok st)"

definition on_resume_step :: "u64 option \<Rightarrow> 'a bp_state_scheme \<Rightarrow> 'a bp_state_scheme" where
  "on_resume_step last_hit st = st\<lparr>bp_replant := last_hit\<rparr>"

section \<open>Searching the table\<close>

lemma find_bp_Some:
  assumes "find_bp P es k = Some (i, bp)"
  shows "k \<le> i \<and> i - k < length es \<and> es ! (i - k) = Some bp \<and> P bp"
  using assms
proof (induction P es k rule: find_bp.induct)
  case (2 P bp' es k)
  then show ?case
    by (cases "i = k") (auto simp: nth_Cons' not_le split: if_splits)
next
  case (3 P es k)
  then show ?case
    by (cases "i = k") (auto simp: nth_Cons' not_le split: if_splits)
qed simp

lemma find_bp_None: "find_bp P es k = None \<longleftrightarrow> (\<forall>bp. Some bp \<in> set es \<longrightarrow> \<not> P bp)"
  by (induction P es k rule: find_bp.induct) auto

lemma find_slot_Some:
  assumes "find_slot addr es k free = Some i" "free = None \<or> the free < k"
  shows "(free = Some i \<and> (\<forall>bp. Some bp \<in> set es \<longrightarrow> bp_addr bp \<noteq> addr)) \<or>
    (k \<le> i \<and> i - k < length es \<and>
      ((\<exists>bp. es ! (i - k) = Some bp \<and> bp_addr bp = addr) \<or>
       (es ! (i - k) = None \<and> (\<forall>bp. Some bp \<in> set es \<longrightarrow> bp_addr bp \<noteq> addr))))"
  using assms
proof (induction addr es k free rule: find_slot.induct)
  case (2 addr bp es k free)
  then show ?case
    by (cases "i = k") (auto simp: nth_Cons' not_le split: if_splits)
next
  case (3 addr es k free)
  then show ?case
    by (cases "i = k") (auto simp: nth_Cons' not_le split: if_splits)
qed simp

end
