(* ===== verification/Breakpoint_Spec.thy ===== *)
theory Breakpoint_Spec
  imports Breakpoint
begin

text \<open>
  What the breakpoint table promises: the program's own bytes are never lost, whatever sequence of
  insertions, removals and hits happens, and where no trap is armed they are what the memory holds.
  The table is read as a map from addresses to entries, each operation is shown to update that map
  at one address, and the contract of the operations is a locale whose client lemma is about
  sequences of them.
\<close>

section \<open>The table as a map\<close>

definition entry_of :: "Bp option list \<Rightarrow> u64 \<Rightarrow> Bp option" where
  "entry_of tbl a = map_option snd (find_bp (\<lambda>bp. bp_addr bp = a) tbl 0)"

definition tbl_ok :: "Bp option list \<Rightarrow> bool" where
  "tbl_ok tbl \<longleftrightarrow> length tbl = MAX_BP \<and>
     (\<forall>i<length tbl. \<forall>j<length tbl. \<forall>bp bq. tbl ! i = Some bp \<longrightarrow> tbl ! j = Some bq \<longrightarrow> bp_addr bp = bp_addr bq \<longrightarrow> i = j)"

lemma entry_of_None: "entry_of tbl a = None \<longleftrightarrow> (\<forall>bp. Some bp \<in> set tbl \<longrightarrow> bp_addr bp \<noteq> a)"
  by (simp add: entry_of_def find_bp_None)

lemma tbl_ok_unique: "tbl_ok tbl \<Longrightarrow> i < length tbl \<Longrightarrow> j < length tbl \<Longrightarrow> tbl ! i = Some bp \<Longrightarrow> tbl ! j = Some bq \<Longrightarrow> bp_addr bp = bp_addr bq \<Longrightarrow> i = j"
  by (simp add: tbl_ok_def)

lemma entry_of_iff:
  assumes "tbl_ok tbl"
  shows "entry_of tbl a = Some bp \<longleftrightarrow> (\<exists>i<length tbl. tbl ! i = Some bp \<and> bp_addr bp = a)"
proof
  assume "entry_of tbl a = Some bp"
  then obtain i where "find_bp (\<lambda>bp. bp_addr bp = a) tbl 0 = Some (i, bp)"
    by (auto simp: entry_of_def)
  from find_bp_Some [OF this] show "\<exists>i<length tbl. tbl ! i = Some bp \<and> bp_addr bp = a"
    by auto
next
  assume "\<exists>i<length tbl. tbl ! i = Some bp \<and> bp_addr bp = a"
  then obtain i where i: "i < length tbl" "tbl ! i = Some bp" "bp_addr bp = a"
    by blast
  then have "entry_of tbl a \<noteq> None"
    using nth_mem [OF i(1)] unfolding entry_of_None by metis
  then obtain j bq where j: "find_bp (\<lambda>bp. bp_addr bp = a) tbl 0 = Some (j, bq)"
    by (auto simp: entry_of_def)
  from find_bp_Some [OF this] have "j = i"
    using tbl_ok_unique [OF assms] i by simp
  then show "entry_of tbl a = Some bp"
    using find_bp_Some [OF j] i(2) j by (simp add: entry_of_def)
qed

definition slot_for :: "Bp option list \<Rightarrow> nat \<Rightarrow> u64 \<Rightarrow> bool" where
  "slot_for tbl i a \<longleftrightarrow> i < length tbl \<and>
     (tbl ! i = None \<and> entry_of tbl a = None \<or> (\<exists>bp. tbl ! i = Some bp \<and> bp_addr bp = a))"

lemma slot_for_entry: "tbl_ok tbl \<Longrightarrow> slot_for tbl i a \<Longrightarrow> tbl ! i = entry_of tbl a"
  using entry_of_iff [of tbl a "the (tbl ! i)"] by (auto simp: slot_for_def)

lemma entry_update:
  assumes "tbl_ok tbl" "slot_for tbl i a" "\<And>bp. e = Some bp \<Longrightarrow> bp_addr bp = a"
  shows "tbl_ok (tbl[i := e])" "entry_of (tbl[i := e]) = (entry_of tbl)(a := e)"
proof -
  have i: "i < length tbl"
    using assms(2) by (simp add: slot_for_def)
  have others: "j = i" if j: "j < length tbl" "tbl ! j = Some bp" "bp_addr bp = a" for j bp
  proof -
    have "entry_of tbl a = Some bp"
      using j entry_of_iff [OF assms(1)] by blast
    then have "tbl ! i = Some bp"
      using slot_for_entry [OF assms(1,2)] by simp
    then show ?thesis
      using tbl_ok_unique [OF assms(1) j(1) i j(2)] by simp
  qed
  show ok: "tbl_ok (tbl[i := e])"
    using assms(1,3) i others by (auto simp: tbl_ok_def nth_list_update)
  have "entry_of (tbl[i := e]) b = Some bp \<longleftrightarrow> ((entry_of tbl)(a := e)) b = Some bp" for b bp
  proof (cases "b = a")
    case True
    then show ?thesis
      using assms(3) i others by (auto simp: entry_of_iff [OF ok] nth_list_update)
  next
    case False
    then have "tbl ! i \<noteq> Some bp" "e \<noteq> Some bp" if "bp_addr bp = b"
      using that assms(2,3) by (auto simp: slot_for_def)
    then have "tbl[i := e] ! j = Some bp \<longleftrightarrow> tbl ! j = Some bp" if "bp_addr bp = b" for j
      using that i by (cases "i = j") auto
    then show ?thesis
      using False by (auto simp: entry_of_iff [OF ok] entry_of_iff [OF assms(1)])
  qed
  then show "entry_of (tbl[i := e]) = (entry_of tbl)(a := e)"
    by (intro ext) (metis option.exhaust)
qed

lemma find_slot_slot: "find_slot a tbl 0 None = Some i \<Longrightarrow> slot_for tbl i a"
  using find_slot_Some [of a tbl 0 None i] by (auto simp: slot_for_def entry_of_None)

lemma find_bp_slot: "find_bp P tbl 0 = Some (i, bp) \<Longrightarrow> (\<And>bp. P bp \<Longrightarrow> bp_addr bp = a) \<Longrightarrow> slot_for tbl i a \<and> tbl ! i = Some bp \<and> P bp"
  using find_bp_Some [of P tbl 0 i bp] by (auto simp: slot_for_def)

section \<open>The program's bytes\<close>

definition entries :: "'a bp_state_scheme \<Rightarrow> u64 \<Rightarrow> Bp option" where
  "entries st = entry_of (bp_tbl st)"

definition is_armed :: "Bp option \<Rightarrow> bool" where
  "is_armed e = (case e of Some bp \<Rightarrow> bp_armed bp | None \<Rightarrow> False)"

definition armed_set :: "'a bp_state_scheme \<Rightarrow> u64 set" where
  "armed_set st = {a. is_armed (entries st a)}"

definition orig_byte :: "'a bp_state_scheme \<Rightarrow> u64 \<Rightarrow> u8" where
  "orig_byte st a = (case entries st a of Some bp \<Rightarrow> if bp_armed bp then bp_orig bp else ram (bp_mem st) a | None \<Rightarrow> ram (bp_mem st) a)"

definition planted_ok :: "machine \<Rightarrow> u64 \<Rightarrow> Bp option \<Rightarrow> bool" where
  "planted_ok m a e = (case e of Some bp \<Rightarrow>
     bp_armed bp \<longrightarrow> mapped m a \<and> (sticky m a \<or> ram m a = bp_orig bp) | None \<Rightarrow> True)"

definition bp_ok :: "'a bp_state_scheme \<Rightarrow> bool" where
  "bp_ok st \<longleftrightarrow> tbl_ok (bp_tbl st) \<and> (\<forall>a. planted_ok (bp_mem st) a (entries st a))"

text \<open>Every armed entry has its trap instruction in memory.\<close>

definition traps_in :: "'a bp_state_scheme \<Rightarrow> bool" where
  "traps_in st \<longleftrightarrow> (\<forall>a. is_armed (entries st a) \<longrightarrow> ram (bp_mem st) a = 0xCC)"

lemma orig_byte_armed: "is_armed (entries st a) \<Longrightarrow> orig_byte st a = bp_orig (the (entries st a))"
  by (auto simp: orig_byte_def is_armed_def split: option.splits)

lemma orig_byte_clear: "\<not> is_armed (entries st a) \<Longrightarrow> orig_byte st a = ram (bp_mem st) a"
  by (auto simp: orig_byte_def is_armed_def split: option.splits)

text \<open>Memories that differ in the byte at one address only.\<close>

definition poked :: "u64 \<Rightarrow> machine \<Rightarrow> machine \<Rightarrow> bool" where
  "poked a m m' \<longleftrightarrow> mapped m' = mapped m \<and> ro_page m' = ro_page m \<and> sticky m' = sticky m \<and> cr0_wp m' = cr0_wp m \<and>
     (\<forall>b. b \<noteq> a \<longrightarrow> ram m' b = ram m b)"

lemma poke_eq:
  "with_wp_disabled (write_byte a v) m =
     (if mapped m a then Ok (if sticky m a then m\<lparr>ram := (ram m)(a := v)\<rparr> else m) else Panic Fatal)"
  by (simp add: with_wp_disabled_def write_byte_def)

lemma poke_poked:
  assumes "with_wp_disabled (write_byte a v) m = Ok m'"
  shows "poked a m m'" "mapped m a" "ram m' a = (if sticky m a then v else ram m a)"
  using assms by (auto simp: poke_eq poked_def split: if_splits)

text \<open>One entry and the byte under it change.\<close>

lemma entry_step:
  assumes "bp_ok st" "slot_for (bp_tbl st) i a" "\<And>bp. e = Some bp \<Longrightarrow> bp_addr bp = a" "poked a (bp_mem st) m" "planted_ok m a e"
    and "ov = (if is_armed e then bp_orig (the e) else ram m a)" "ov = orig_byte st a"
  defines "st' \<equiv> st\<lparr>bp_mem := m, bp_tbl := (bp_tbl st)[i := e]\<rparr>"
  shows "bp_ok st'" "orig_byte st' = orig_byte st" "entries st' = (entries st)(a := e)"
    "traps_in st \<Longrightarrow> (is_armed e \<longrightarrow> ram m a = 0xCC) \<Longrightarrow> traps_in st'"
proof -
  have t: "tbl_ok (bp_tbl st)"
    using assms(1) by (simp add: bp_ok_def)
  note u = entry_update [OF t assms(2,3)]
  show e: "entries st' = (entries st)(a := e)"
    using u(2) by (simp add: st'_def entries_def)
  have mem: "bp_mem st' = m"
    by (simp add: st'_def)
  have "planted_ok m b (entries st' b)" for b
    using assms(1,4,5) by (auto simp: bp_ok_def planted_ok_def poked_def e split: option.splits)
  then show "bp_ok st'"
    using u(1) by (simp add: bp_ok_def st'_def)
  show "traps_in st'" if "traps_in st" "is_armed e \<longrightarrow> ram m a = 0xCC"
    using that assms(4) by (auto simp: traps_in_def e mem poked_def)
  have "orig_byte st' b = orig_byte st b" for b
  proof (cases "b = a")
    case True
    then show ?thesis
      using assms(6,7) e by (auto simp: orig_byte_def [of st'] is_armed_def mem split: option.splits)
  next
    case False
    then show ?thesis
      using assms(4) e by (auto simp: orig_byte_def poked_def mem split: option.splits)
  qed
  then show "orig_byte st' = orig_byte st"
    by blast
qed

section \<open>The operations keep the program's bytes\<close>

lemma armed_update: "entries st' = (entries st)(a := e) \<Longrightarrow> armed_set st' = (if is_armed e then insert a (armed_set st) else armed_set st - {a})"
  by (auto simp: armed_set_def)

lemma slot_entry: "bp_ok st \<Longrightarrow> slot_for (bp_tbl st) i a \<Longrightarrow> bp_tbl st ! i = entries st a"
  by (simp add: bp_ok_def entries_def slot_for_entry)

lemma insert_spec:
  assumes "bp_ok st" "bp_insert a st = Ok (b, st')"
  shows "bp_ok st' \<and> orig_byte st' = orig_byte st \<and> armed_set st' = (if b then insert a (armed_set st) else armed_set st) \<and>
    (traps_in st \<longrightarrow> traps_in st')"
  proof (cases "find_slot a (bp_tbl st) 0 None")
    case None
    then show ?thesis
      using assms by (simp add: bp_insert_def)
  next
    case (Some i)
    note slot = find_slot_slot [OF Some]
    have new: "bp_tbl st ! i = entries st a"
      by (rule slot_entry [OF assms(1) slot])
    show ?thesis
    proof (cases "is_armed (entries st a)")
      case True
      then show ?thesis
        using assms Some new by (auto simp: bp_insert_def is_armed_def armed_set_def)
    next
      case False
      let ?e = "Some \<lparr>bp_addr = a, bp_orig = ram (bp_mem st) a, bp_armed = True\<rparr>"
      from False have "\<not> (case bp_tbl st ! i of Some bp \<Rightarrow> bp_armed bp | None \<Rightarrow> False)"
        using new by (simp add: is_armed_def)
      then obtain m where m: "with_wp_disabled (write_byte a 0xCC) (bp_mem st) = Ok m" "mapped (bp_mem st) a"
        and st': "(b, st') = (if ram m a \<noteq> 0xCC then (False, st\<lparr>bp_mem := m\<rparr>) else (True, st\<lparr>bp_mem := m, bp_tbl := (bp_tbl st)[i := ?e]\<rparr>))"
        using assms(2) Some by (auto simp: bp_insert_def read_byte_def split: if_splits)
      show ?thesis
      proof (cases "ram m a = 0xCC")
        case True
        have "planted_ok m a ?e"
          using True poke_poked [OF m(1)] by (auto simp: planted_ok_def poked_def split: if_splits)
        from entry_step [OF assms(1) slot _ poke_poked(1) [OF m(1)] this refl] armed_update [of st' st a ?e] show ?thesis
          using True st' orig_byte_clear [OF False] by (simp add: is_armed_def)
      next
        case False
        then have "m = bp_mem st"
          using m by (auto simp: poke_eq split: if_splits)
        then show ?thesis
          using False st' assms(1) by simp
      qed
    qed
qed

lemma unplant_spec:
  assumes "bp_ok st" "slot_for (bp_tbl st) i a" "is_armed (entries st a)" "\<And>bp. e = Some bp \<Longrightarrow> bp_addr bp = a" "\<not> is_armed e"
    and "with_wp_disabled (write_byte a (bp_orig (the (entries st a)))) (bp_mem st) = Ok m"
  defines "st' \<equiv> st\<lparr>bp_mem := m, bp_tbl := (bp_tbl st)[i := e]\<rparr>"
  shows "bp_ok st'" "orig_byte st' = orig_byte st" "armed_set st' = armed_set st - {a}" "traps_in st \<longrightarrow> traps_in st'"
proof -
  have "planted_ok (bp_mem st) a (entries st a)"
    using assms(1) by (simp add: bp_ok_def)
  then have "ram m a = orig_byte st a"
    using poke_poked [OF assms(6)] assms(3) orig_byte_armed [OF assms(3)]
    by (auto simp: planted_ok_def is_armed_def split: option.splits)
  moreover have "planted_ok m a e"
    using assms(5) by (auto simp: planted_ok_def is_armed_def split: option.splits)
  ultimately have s: "bp_ok st' \<and> orig_byte st' = orig_byte st \<and> entries st' = (entries st)(a := e) \<and> (traps_in st \<longrightarrow> traps_in st')"
    using entry_step [OF assms(1,2,4) poke_poked(1) [OF assms(6)] _ refl] assms(5) by (simp add: st'_def)
  then show "bp_ok st'" "orig_byte st' = orig_byte st" "traps_in st \<longrightarrow> traps_in st'"
    by blast+
  show "armed_set st' = armed_set st - {a}"
    using armed_update [of st' st a e] s assms(5) by simp
qed

lemma remove_spec:
  assumes "bp_ok st" "bp_remove a st = Ok (b, st')"
  shows "bp_ok st' \<and> orig_byte st' = orig_byte st \<and> armed_set st' = armed_set st - {a} \<and>
    entries st' = (entries st)(a := None) \<and> (traps_in st \<longrightarrow> traps_in st')"
proof (cases "find_bp (\<lambda>bp. bp_addr bp = a) (bp_tbl st) 0")
  case None
  then have none: "entries st a = None"
    by (simp add: entries_def entry_of_def)
  then have "a \<notin> armed_set st" "(entries st)(a := None) = entries st"
    by (auto simp: armed_set_def is_armed_def)
  then show ?thesis
    using assms None by (simp add: bp_remove_def)
next
  case (Some r)
  then obtain i bp where r: "find_bp (\<lambda>bp. bp_addr bp = a) (bp_tbl st) 0 = Some (i, bp)"
    by (cases r) auto
  then have slot: "slot_for (bp_tbl st) i a" and bp: "entries st a = Some bp"
    using find_bp_slot [OF r, of a] slot_entry [OF assms(1)] by auto
  have ent: "entries (st\<lparr>bp_mem := m, bp_tbl := (bp_tbl st)[i := None]\<rparr>) = (entries st)(a := None)" for m
    using entry_update(2) [OF _ slot, of None] assms(1) by (simp add: entries_def bp_ok_def)
  show ?thesis
  proof (cases "bp_armed bp")
    case True
    then obtain m where m: "with_wp_disabled (write_byte a (bp_orig bp)) (bp_mem st) = Ok m"
      and st': "st' = st\<lparr>bp_mem := m, bp_tbl := (bp_tbl st)[i := None]\<rparr>"
      using assms(2) r by (auto simp: bp_remove_def)
    have "is_armed (entries st a)" "with_wp_disabled (write_byte a (bp_orig (the (entries st a)))) (bp_mem st) = Ok m"
      using True bp m by (simp_all add: is_armed_def)
    from unplant_spec [OF assms(1) slot this(1) _ _ this(2), of None] show ?thesis
      using ent [of m] by (simp add: st' is_armed_def)
  next
    case False
    then have st': "st' = st\<lparr>bp_mem := bp_mem st, bp_tbl := (bp_tbl st)[i := None]\<rparr>"
      using assms(2) r by (auto simp: bp_remove_def)
    have "orig_byte st a = ram (bp_mem st) a"
      using False bp by (simp add: orig_byte_def)
    then show ?thesis
      using entry_step(1,2,4) [OF assms(1) slot, of None "bp_mem st", OF _ _ _ refl] ent [of "bp_mem st"] armed_update [OF ent, of "bp_mem st"]
      by (simp add: st' poked_def planted_ok_def is_armed_def)
  qed
qed

lemma enter_spec:
  assumes "bp_ok st" "on_breakpoint_enter rip st = Ok (rip', hit, st')"
  shows "bp_ok st' \<and> orig_byte st' = orig_byte st \<and> armed_set st' = armed_set st - {rip - 1} \<and> (traps_in st \<longrightarrow> traps_in st') \<and>
    (if rip - 1 \<in> armed_set st then rip' = rip - 1 \<and> hit = Some (rip - 1) \<and> entries st' (rip - 1) \<noteq> None
     else rip' = rip \<and> hit = None \<and> st' = st)"
proof (cases "find_bp (\<lambda>bp. bp_addr bp = rip - 1 \<and> bp_armed bp) (bp_tbl st) 0")
  case None
  have "\<not> is_armed (entries st (rip - 1))"
  proof
    assume "is_armed (entries st (rip - 1))"
    then obtain bp where "entries st (rip - 1) = Some bp" "bp_armed bp"
      by (auto simp: is_armed_def split: option.splits)
    then show False
      using None assms(1) by (auto simp: entries_def entry_of_iff bp_ok_def find_bp_None in_set_conv_nth)
  qed
  then show ?thesis
    using assms None by (simp add: on_breakpoint_enter_def Let_def armed_set_def)
next
  case (Some r)
  then obtain i bp where r: "find_bp (\<lambda>bp. bp_addr bp = rip - 1 \<and> bp_armed bp) (bp_tbl st) 0 = Some (i, bp)"
    by (cases r) auto
  then have slot: "slot_for (bp_tbl st) i (rip - 1)" and bp: "entries st (rip - 1) = Some bp" "bp_addr bp = rip - 1" "bp_armed bp"
    using find_bp_slot [OF r, of "rip - 1"] slot_entry [OF assms(1)] by auto
  let ?e = "Some (bp\<lparr>bp_armed := False\<rparr>)"
  obtain m where m: "with_wp_disabled (write_byte (rip - 1) (bp_orig bp)) (bp_mem st) = Ok m"
    and st': "rip' = rip - 1" "hit = Some (rip - 1)" "st' = st\<lparr>bp_mem := m, bp_tbl := (bp_tbl st)[i := ?e]\<rparr>"
    using assms(2) r by (auto simp: on_breakpoint_enter_def Let_def)
  have arm: "is_armed (entries st (rip - 1))" "with_wp_disabled (write_byte (rip - 1) (bp_orig (the (entries st (rip - 1))))) (bp_mem st) = Ok m"
    using bp m by (simp_all add: is_armed_def)
  have "entries st' (rip - 1) = ?e"
    using entry_update(2) [OF _ slot, of ?e] assms(1) bp(2) by (simp add: st'(3) entries_def bp_ok_def)
  with unplant_spec [OF assms(1) slot arm(1) _ _ arm(2), of ?e] show ?thesis
    using bp st' by (simp add: is_armed_def armed_set_def)
qed

section \<open>Any sequence of operations\<close>

text \<open>What the debugger does to the table: the packets that insert and remove, entering it, and resuming.\<close>

datatype bp_op = OpInsert u64 | OpRemove u64 | OpEnter u64 | OpContinue "u64 option" | OpStep "u64 option"

fun bp_exec :: "bp_op \<Rightarrow> bp_state \<Rightarrow> bp_state res" where
  "bp_exec (OpInsert a) st = rbind (bp_insert a st) (\<lambda>(ok, st'). Ok st')"
| "bp_exec (OpRemove a) st = rbind (bp_remove a st) (\<lambda>(ok, st'). Ok st')"
| "bp_exec (OpEnter rip) st = rbind (on_breakpoint_enter rip st) (\<lambda>(rip', hit, st'). Ok st')"
| "bp_exec (OpContinue hit) st = on_resume_continue hit st"
| "bp_exec (OpStep hit) st = Ok (on_resume_step hit st)"

fun exec_all :: "('op \<Rightarrow> 's \<Rightarrow> 's res) \<Rightarrow> 'op list \<Rightarrow> 's \<Rightarrow> 's res" where
  "exec_all step [] s = Ok s"
| "exec_all step (p # ps) s = rbind (step p s) (exec_all step ps)"

text \<open>
  The contract of a store of patches over a memory: every operation keeps the bytes under the
  patches, and the memory shows them wherever nothing is patched.
\<close>

locale patch_store =
  fixes ok :: "'s \<Rightarrow> bool"
    and under :: "'s \<Rightarrow> 'a \<Rightarrow> 'b"
    and raw :: "'s \<Rightarrow> 'a \<Rightarrow> 'b"
    and patched :: "'s \<Rightarrow> 'a set"
    and step :: "'op \<Rightarrow> 's \<Rightarrow> 's res"
  assumes step_ok: "ok s \<Longrightarrow> step p s = Ok s' \<Longrightarrow> ok s'"
    and step_under: "ok s \<Longrightarrow> step p s = Ok s' \<Longrightarrow> under s' = under s"
    and unpatched: "ok s \<Longrightarrow> a \<notin> patched s \<Longrightarrow> under s a = raw s a"
begin

lemma exec_keeps: "ok s \<Longrightarrow> exec_all step ps s = Ok s' \<Longrightarrow> ok s' \<and> under s' = under s"
proof (induction ps arbitrary: s)
  case (Cons p ps)
  then obtain s1 where s1: "step p s = Ok s1" "exec_all step ps s1 = Ok s'"
    by auto
  show ?case
    using Cons.IH [OF step_ok [OF Cons.prems(1) s1(1)] s1(2)] step_under [OF Cons.prems(1) s1(1)] by simp
qed simp

lemma transparent:
  assumes "ok s" "patched s = {}" "exec_all step ps s = Ok s'" "a \<notin> patched s'"
  shows "raw s' a = raw s a"
  using exec_keeps [OF assms(1,3)] unpatched [of s' a] unpatched [of s a] assms(1,2,4) by simp

end

lemma bp_exec_spec:
  assumes "bp_ok st" "bp_exec p st = Ok st'"
  shows "bp_ok st' \<and> orig_byte st' = orig_byte st \<and> (traps_in st \<longrightarrow> traps_in st')"
proof (cases p)
  case (OpInsert a)
  then show ?thesis
    using assms insert_spec by (auto simp: split_beta)
next
  case (OpRemove a)
  then show ?thesis
    using assms remove_spec by (fastforce simp: split_beta)
next
  case (OpEnter rip)
  then show ?thesis
    using assms enter_spec [OF assms(1), of rip] by (auto simp: split_beta)
next
  case (OpContinue hit)
  then show ?thesis
    using assms insert_spec [OF assms(1)] by (auto simp: on_resume_continue_def split_beta split: option.splits)
next
  case (OpStep hit)
  then show ?thesis
    using assms by (auto simp: on_resume_step_def bp_ok_def entries_def orig_byte_def traps_in_def split: option.split intro!: ext)
qed

interpretation bps: patch_store "\<lambda>st. bp_ok st \<and> traps_in st" orig_byte "\<lambda>st. ram (bp_mem st)" armed_set bp_exec
  using bp_exec_spec orig_byte_clear by unfold_locales (auto simp: armed_set_def)

definition bp_init :: "machine \<Rightarrow> bp_state" where
  "bp_init m = \<lparr>bp_tbl = replicate MAX_BP None, bp_replant = None, bp_mem = m\<rparr>"

lemma bp_init_ok: "bp_ok (bp_init m) \<and> traps_in (bp_init m)" "armed_set (bp_init m) = {}" "orig_byte (bp_init m) = ram m"
proof -
  have e: "entries (bp_init m) a = None" for a
    by (auto simp: entries_def bp_init_def entry_of_None)
  show "bp_ok (bp_init m) \<and> traps_in (bp_init m)"
    by (simp add: bp_ok_def e planted_ok_def traps_in_def is_armed_def) (simp add: bp_init_def tbl_ok_def)
  show "armed_set (bp_init m) = {}"
    by (simp add: armed_set_def e is_armed_def)
  show "orig_byte (bp_init m) = ram m"
    by (rule ext) (simp add: orig_byte_def e, simp add: bp_init_def)
qed

text \<open>C13: breakpoints are transparent. Starting from the empty table, after any sequence of insertions,
  removals, hits and resumptions that returns, the byte the table keeps for each address is the one the
  memory held at the start; wherever a trap is armed the memory holds the trap instruction, and
  everywhere else the byte it held at the start: no operation ever loses or overwrites a byte of the
  program, read-only text included.\<close>

theorem breakpoints_transparent:
  assumes "exec_all bp_exec ops (bp_init m) = Ok st"
  shows "orig_byte st = ram m \<and> (\<forall>a. ram (bp_mem st) a = (if a \<in> armed_set st then 0xCC else ram m a))"
proof -
  have ok: "bp_ok st \<and> traps_in st" "orig_byte st = orig_byte (bp_init m)"
    using bps.exec_keeps [OF bp_init_ok(1) assms] by auto
  have "ram (bp_mem st) a = ram m a" if "a \<notin> armed_set st" for a
    using bps.transparent [OF bp_init_ok(1,2) assms that] by (simp add: bp_init_def)
  then show ?thesis
    using ok bp_init_ok(3) by (auto simp: traps_in_def armed_set_def)
qed

definition text_machine :: machine where
  "text_machine = \<lparr>ram = (\<lambda>a. 0x55), mapped = (\<lambda>a. a < 0x2000), ro_page = (\<lambda>a. True), sticky = (\<lambda>a. True), cr0_wp = True\<rparr>"

theorem breakpoints_transparent_witness:
  "\<exists>st. exec_all bp_exec [OpInsert 0x1000, OpInsert 0x1004, OpEnter 0x1001, OpContinue (Some 0x1000), OpRemove 0x1004]
      (bp_init text_machine) = Ok st \<and>
    ram (bp_mem st) 0x1000 = 0xCC \<and> orig_byte st 0x1000 = 0x55 \<and> ram (bp_mem st) 0x1004 = 0x55"
proof -
  let ?ops = "[OpInsert 0x1000, OpInsert 0x1004, OpEnter 0x1001, OpContinue (Some 0x1000), OpRemove 0x1004]"
  have "case exec_all bp_exec ?ops (bp_init text_machine) of
      Ok st \<Rightarrow> ram (bp_mem st) 0x1000 = 0xCC \<and> entries st 0x1004 = None | Panic p \<Rightarrow> False"
    by code_simp
  then obtain st where st: "exec_all bp_exec ?ops (bp_init text_machine) = Ok st" "ram (bp_mem st) 0x1000 = 0xCC" "entries st 0x1004 = None"
    using ok_case by blast
  have "0x1004 \<notin> armed_set st"
    using st(3) by (simp add: armed_set_def is_armed_def)
  then show ?thesis
    using breakpoints_transparent [OF st(1)] st(1,2) by (auto simp: text_machine_def)
qed

end
