(* ===== verification/Rsp_Server.thy ===== *)
theory Rsp_Server
  imports Rsp_Regs Breakpoint_Spec
begin

unbundle bit_operations_syntax

text \<open>
  The command loop of the debugger stub (\<^verbatim>\<open>debug/rsp/core.rs\<close>, \<^verbatim>\<open>debug/mod.rs\<close>) and the exception handlers that
  enter it (\<^verbatim>\<open>tables/isr/debug.rs\<close>, \<^verbatim>\<open>tables/isr/fault.rs\<close>). One definition per packet, the dispatch on the first
  byte, the loop over the packets that arrive, and the handlers around a session.

  The static buffers are separate lists: that a memory write of the debugger may hit the stub's own
  buffers is not represented. The bytes still to arrive are a list; a session that waits for more
  has no result.
\<close>

section \<open>State\<close>

datatype Outcome = Continue | SingleStep | KillTask

definition OUTBUF_LEN :: nat where
  "OUTBUF_LEN = 0x2000"

definition TMP_LEN :: nat where
  "TMP_LEN = 0x200"

record stub = bp_state +
  st_tf :: TrapFrame
  st_out :: "u8 list"
  st_inbuf :: "u8 list"
  st_outbuf :: "u8 list"
  st_tmp :: "u8 list"
  st_noack :: bool
  st_bkpt :: "(u64 \<times> u8) option"
  st_active :: bool

definition clear_tf :: "TrapFrame \<Rightarrow> TrapFrame" where
  "clear_tf t = t\<lparr>tf_rflags := tf_rflags t AND NOT (push_bit 8 1)\<rparr>"

definition set_tf :: "TrapFrame \<Rightarrow> TrapFrame" where
  "set_tf t = t\<lparr>tf_rflags := tf_rflags t OR push_bit 8 1\<rparr>"

definition reply :: "string \<Rightarrow> stub \<Rightarrow> stub" where
  "reply p st = st\<lparr>st_out := send_pkt (ascii p) (st_out st)\<rparr>"

section \<open>Packets\<close>

fun query_reply :: "(string \<times> string) list \<Rightarrow> u8 list \<Rightarrow> nat \<Rightarrow> string res" where
  "query_reply [] inbuf len = Ok ''''"
| "query_reply ((pat, r) # ps) inbuf len =
     rbind (starts_with inbuf 0 len (ascii pat)) (\<lambda>b. if b then Ok r else query_reply ps inbuf len)"

definition queries :: "(string \<times> string) list" where
  "queries =
     [(''qSupported'', ''PacketSize=4000;QStartNoAckMode+''), (''qAttached'', ''1''), (''qfThreadInfo'', ''m1''),
      (''qsThreadInfo'', ''l''), (''qC'', ''QC1''), (''qTStatus'', ''''), (''vCont?'', ''vCont;c;s'')]"

definition cmd_q :: "nat \<Rightarrow> stub \<Rightarrow> stub res" where
  "cmd_q len st = rbind (query_reply queries (st_inbuf st) len) (\<lambda>r. Ok (reply r st))"

definition cmd_Q :: "nat \<Rightarrow> stub \<Rightarrow> stub res" where
  "cmd_Q len st =
     rbind (starts_with (st_inbuf st) 0 len (ascii ''QStartNoAckMode'')) (\<lambda>b.
       Ok (if b then reply ''OK'' (st\<lparr>st_noack := True\<rparr>) else reply '''' st))"

definition cmd_g :: "stub \<Rightarrow> stub res" where
  "cmd_g st =
     rbind (write_g (st_outbuf st) (st_tf st)) (\<lambda>(outbuf, written).
     rbind (send_pkt_raw outbuf G_HEX_LEN (st_out st)) (\<lambda>out.
       Ok (st\<lparr>st_outbuf := outbuf, st_out := out\<rparr>)))"

definition cmd_G :: "nat \<Rightarrow> stub \<Rightarrow> stub res" where
  "cmd_G len st =
     (let pay_len = len - 1 in
      if pay_len \<noteq> G_HEX_LEN then Ok (reply ''E00'' st)
      else rbind (slice (st_inbuf st) 1 (1 + pay_len)) (\<lambda>local.
        let (ok, t) = read_g (st_tf st) local in
        Ok (reply (if ok then ''OK'' else ''E00'') (st\<lparr>st_tf := t\<rparr>))))"

text \<open>The copy loop of a memory read: a byte is read, then its two digits are stored.\<close>

fun dump_mem :: "machine \<Rightarrow> u64 \<Rightarrow> nat \<Rightarrow> u8 list \<times> nat \<Rightarrow> (u8 list \<times> nat) res" where
  "dump_mem m addr 0 ow = Ok ow"
| "dump_mem m addr (Suc n) ow = rbind (read_byte m addr) (\<lambda>v. rbind (put8 v ow) (dump_mem m (addr + 1) n))"

definition cmd_m :: "Sections \<Rightarrow> nat \<Rightarrow> stub \<Rightarrow> stub res" where
  "cmd_m S len st =
     rbind (parse_addr_len (st_inbuf st) 1 len) (\<lambda>r.
       case r of
         None \<Rightarrow> Ok (reply ''E00'' st)
       | Some (addr, rlen, used) \<Rightarrow>
           let max_len = of_nat (OUTBUF_LEN div 2);
               allowed0 = (rlen \<noteq> 0 \<and> rlen \<le> max_len \<and> can_read S addr rlen);
               rsp = tf_rsp (st_tf st);
               win_lo = saturating_sub rsp (128 * 1024);
               win_hi = saturating_add rsp (128 * 1024);
               end = saturating_add addr rlen;
               allowed = (allowed0 \<or> win_lo \<le> addr \<and> end \<le> win_hi)
           in if \<not> allowed then Ok (reply ''E01'' st)
              else rbind (dump_mem (bp_mem st) addr (unat rlen) (st_outbuf st, 0)) (\<lambda>(outbuf, w).
                   rbind (send_pkt_raw outbuf w (st_out st)) (\<lambda>out.
                     Ok (st\<lparr>st_outbuf := outbuf, st_out := out\<rparr>))))"

text \<open>
  The decoding loop of a memory write: the \<open>continue\<close> of its error branch continues this loop, so a
  bad pair of digits is answered and leaves its byte of the buffer as it was.
\<close>

fun decode_loop :: "u8 list \<Rightarrow> nat \<Rightarrow> nat \<Rightarrow> nat \<Rightarrow> u8 list \<times> u8 list \<Rightarrow> (u8 list \<times> u8 list) res" where
  "decode_loop inbuf off 0 i to = Ok to"
| "decode_loop inbuf off (Suc n) i (tmp, out) =
     rbind (idx inbuf (off + i * 2)) (\<lambda>h.
     rbind (idx inbuf (off + i * 2 + 1)) (\<lambda>l.
       case (from_hex h, from_hex l) of
         (Some h, Some l) \<Rightarrow>
           if i < length tmp then decode_loop inbuf off n (Suc i) (tmp[i := push_bit 4 h OR l], out) else Panic OutOfBuffer
       | _ \<Rightarrow> decode_loop inbuf off n (Suc i) (tmp, send_pkt (ascii ''E00'') out)))"

definition cmd_M :: "Sections \<Rightarrow> nat \<Rightarrow> stub \<Rightarrow> stub res" where
  "cmd_M S len st =
     rbind (parse_addr_len (st_inbuf st) 1 len) (\<lambda>r.
       case r of
         None \<Rightarrow> Ok (reply ''E00'' st)
       | Some (addr, wlen, used) \<Rightarrow>
           rbind (if len \<le> 1 + used then Ok True else rbind (idx (st_inbuf st) (1 + used)) (\<lambda>b. Ok (b \<noteq> 0x3A))) (\<lambda>no_colon.
             if no_colon then Ok (reply ''E00'' st)
             else if wlen = 0 \<or> of_nat TMP_LEN < wlen \<or> \<not> can_write S addr wlen then Ok (reply ''E01'' st)
             else
               let hex_off = 1 + used + 1; hex_len = len - hex_off in
               if hex_len \<noteq> unat wlen * 2 then Ok (reply ''E00'' st)
               else rbind (decode_loop (st_inbuf st) hex_off (unat wlen) 0 (st_tmp st, st_out st)) (\<lambda>(tmp, out).
                    rbind (write_bytes addr (take (unat wlen) tmp) (bp_mem st)) (\<lambda>m.
                      Ok (reply ''OK'' (st\<lparr>st_tmp := tmp, st_out := out, bp_mem := m\<rparr>))))))"

definition cmd_Z :: "nat \<Rightarrow> stub \<Rightarrow> stub res" where
  "cmd_Z len st =
     rbind (parse_hex_usize (st_inbuf st) 3 len) (\<lambda>r.
       case r of
         None \<Rightarrow> Ok (reply ''E00'' st)
       | Some (addr, used) \<Rightarrow> rbind (bp_insert addr st) (\<lambda>(ok, st'). Ok (reply (if ok then ''OK'' else ''E01'') st')))"

definition cmd_z :: "nat \<Rightarrow> stub \<Rightarrow> stub res" where
  "cmd_z len st =
     rbind (parse_hex_usize (st_inbuf st) 3 len) (\<lambda>r.
       case r of
         None \<Rightarrow> Ok (reply ''E00'' st)
       | Some (addr, used) \<Rightarrow> rbind (bp_remove addr st) (\<lambda>(ok, st'). Ok (reply (if ok then ''OK'' else ''E01'') st')))"

definition resume_continue :: "bool \<Rightarrow> stub \<Rightarrow> stub res" where
  "resume_continue dbg st =
     (let st1 = st\<lparr>st_tf := clear_tf (st_tf st)\<rparr> in
      case st_bkpt st1 of
        None \<Rightarrow> Ok st1
      | Some (addr, orig) \<Rightarrow>
          rbind (write_byte addr orig (bp_mem st1)) (\<lambda>m.
          rbind (u_add dbg addr 1) (\<lambda>next.
            let t = st_tf st1 in
            Ok (st1\<lparr>st_bkpt := None, bp_mem := m, st_tf := (if tf_rip t = next then t\<lparr>tf_rip := tf_rip t - 1\<rparr> else t)\<rparr>))))"

definition resume_step :: "stub \<Rightarrow> stub" where
  "resume_step st = st\<lparr>st_tf := set_tf (st_tf st)\<rparr>"

section \<open>The loop\<close>

text \<open>A packet that is answered, and one that ends the session.\<close>

definition answered :: "stub res \<Rightarrow> (stub \<times> Outcome option) res" where
  "answered r = rbind r (\<lambda>st. Ok (st, None))"

definition ended :: "Outcome \<Rightarrow> stub res \<Rightarrow> (stub \<times> Outcome option) res" where
  "ended oc r = rbind r (\<lambda>st. Ok (st, Some oc))"

definition rsp_command :: "bool \<Rightarrow> Sections \<Rightarrow> nat \<Rightarrow> stub \<Rightarrow> (stub \<times> Outcome option) res" where
  "rsp_command dbg S len st =
     rbind (idx (st_inbuf st) 0) (\<lambda>b0.
       let starts = (\<lambda>p. starts_with (st_inbuf st) 0 len (ascii p)); unknown = Ok (reply '''' st, None) in
       if b0 = of_char CHR ''?'' then Ok (reply ''S05'' st, None)
       else if b0 = of_char CHR ''H'' then Ok (reply ''OK'' st, None)
       else if b0 = of_char CHR ''q'' then answered (cmd_q len st)
       else if b0 = of_char CHR ''Q'' then answered (cmd_Q len st)
       else if b0 = of_char CHR ''g'' then answered (cmd_g st)
       else if b0 = of_char CHR ''G'' then answered (cmd_G len st)
       else if b0 = of_char CHR ''m'' then answered (cmd_m S len st)
       else if b0 = of_char CHR ''M'' then answered (cmd_M S len st)
       else if b0 = of_char CHR ''Z'' then rbind (starts ''Z0,'') (\<lambda>b. if b then answered (cmd_Z len st) else unknown)
       else if b0 = of_char CHR ''z'' then rbind (starts ''z0,'') (\<lambda>b. if b then answered (cmd_z len st) else unknown)
       else if b0 = of_char CHR ''v'' then
         rbind (starts ''vCont?'') (\<lambda>b1. if b1 then Ok (reply ''vCont;c;s'' st, None) else
         rbind (starts ''vCont;c'') (\<lambda>b2. if b2 then ended Continue (resume_continue dbg st) else
         rbind (starts ''vCont;s'') (\<lambda>b3. if b3 then Ok (resume_step st, Some SingleStep) else unknown)))
       else if b0 = of_char CHR ''c'' then ended Continue (resume_continue dbg st)
       else if b0 = of_char CHR ''s'' then Ok (resume_step st, Some SingleStep)
       else if b0 = of_char CHR ''k'' then Ok (st, Some KillTask)
       else if b0 = 0x03 then Ok (reply ''S02'' st, None)
       else unknown)"

lemma recv_pkt_len_shorter: "recv_pkt_len na rx out inbuf = Some (rx', out', inbuf', len) \<Longrightarrow> length rx' < length rx"
proof (induction na rx out inbuf rule: recv_pkt_len.induct)
  case (1 na rx out inbuf)
  show ?case
    using "1.prems" "1.IH"
    by (subst (asm) recv_pkt_len.simps)
      (fastforce simp: Let_def split: list.splits if_splits option.splits prod.splits dest: recv_body_shorter)
qed

function run_loop :: "bool \<Rightarrow> Sections \<Rightarrow> u8 list \<Rightarrow> stub \<Rightarrow> (u8 list \<times> stub \<times> Outcome) option res" where
  "run_loop dbg S rx st =
     (case recv_pkt_len (st_noack st) rx (st_out st) (st_inbuf st) of
        None \<Rightarrow> Ok None
      | Some (rx1, out, inbuf, len) \<Rightarrow>
          let st1 = st\<lparr>st_out := out, st_inbuf := inbuf\<rparr> in
          if len = 0 then run_loop dbg S rx1 (reply '''' st1)
          else rbind (rsp_command dbg S len st1) (\<lambda>(st2, oc).
            case oc of
              None \<Rightarrow> run_loop dbg S rx1 st2
            | Some o1 \<Rightarrow> Ok (Some (rx1, st2, o1))))"
  by pat_completeness auto
termination
  by (relation "measure (\<lambda>(dbg, S, rx, st). length rx)") (auto dest: recv_pkt_len_shorter)

declare run_loop.simps [simp del]

definition rsp_run :: "bool \<Rightarrow> Sections \<Rightarrow> u8 list \<Rightarrow> stub \<Rightarrow> (u8 list \<times> stub \<times> Outcome) option res" where
  "rsp_run dbg S rx st =
     rbind (send_t_stop 0x05 1 (tf_rip (st_tf st)) (st_out st)) (\<lambda>out. run_loop dbg S rx (st\<lparr>st_out := out\<rparr>))"

section \<open>Entering and leaving the stub\<close>

definition serve :: "bool \<Rightarrow> Sections \<Rightarrow> u8 list \<Rightarrow> stub \<Rightarrow> (u8 list \<times> stub \<times> Outcome) option res" where
  "serve dbg S rx st =
     (if st_active st then Ok (Some (rx, st, Continue))
      else rbind (rsp_run dbg S rx (st\<lparr>st_active := True\<rparr>)) (\<lambda>r.
        case r of
          None \<Rightarrow> Ok None
        | Some (rx1, st1, oc) \<Rightarrow> Ok (Some (rx1, st1\<lparr>st_active := False\<rparr>, oc))))"

datatype trap_end = Resumed | Exited

text \<open>The common body of the exception handlers; \<open>Exited\<close> is the call of \<open>exit_current\<close>.\<close>

definition debug_trap :: "bool \<Rightarrow> Sections \<Rightarrow> u8 list \<Rightarrow> stub \<Rightarrow> (u8 list \<times> stub \<times> trap_end) option res" where
  "debug_trap dbg S rx st =
     rbind (on_breakpoint_enter (tf_rip (st_tf st)) st) (\<lambda>(rip, last_hit, st1).
     rbind (serve dbg S rx (st1\<lparr>st_tf := (st_tf st1)\<lparr>tf_rip := rip\<rparr>\<rparr>)) (\<lambda>r.
       case r of
         None \<Rightarrow> Ok None
       | Some (rx1, st2, Continue) \<Rightarrow> rbind (on_resume_continue last_hit st2) (\<lambda>st3. Ok (Some (rx1, st3, Resumed)))
       | Some (rx1, st2, SingleStep) \<Rightarrow> Ok (Some (rx1, on_resume_step last_hit st2, Resumed))
       | Some (rx1, st2, KillTask) \<Rightarrow> Ok (Some (rx1, st2, Exited))))"

definition isr_db_rust :: "bool \<Rightarrow> Sections \<Rightarrow> u8 list \<Rightarrow> stub \<Rightarrow> (u8 list \<times> stub \<times> trap_end) option res" where
  "isr_db_rust dbg S rx st = debug_trap dbg S rx st"

definition isr_bp_rust :: "bool \<Rightarrow> Sections \<Rightarrow> u8 list \<Rightarrow> stub \<Rightarrow> (u8 list \<times> stub \<times> trap_end) option res" where
  "isr_bp_rust dbg S rx st = debug_trap dbg S rx st"

text \<open>A fault enters the stub in the dev profile and ends the task in the release profile.\<close>

definition isr_fault :: "bool \<Rightarrow> Sections \<Rightarrow> u8 list \<Rightarrow> stub \<Rightarrow> (u8 list \<times> stub \<times> trap_end) option res" where
  "isr_fault dbg S rx st = (if dbg then debug_trap dbg S rx st else Ok (Some (rx, st, Exited)))"

definition isr_gp_rust :: "bool \<Rightarrow> Sections \<Rightarrow> u8 list \<Rightarrow> stub \<Rightarrow> (u8 list \<times> stub \<times> trap_end) option res" where
  "isr_gp_rust = isr_fault"

definition isr_pf_rust :: "bool \<Rightarrow> Sections \<Rightarrow> u8 list \<Rightarrow> stub \<Rightarrow> (u8 list \<times> stub \<times> trap_end) option res" where
  "isr_pf_rust = isr_fault"

definition isr_df_rust :: "bool \<Rightarrow> Sections \<Rightarrow> u8 list \<Rightarrow> stub \<Rightarrow> (u8 list \<times> stub \<times> trap_end) option res" where
  "isr_df_rust = isr_fault"

end
