(* ===== verification/Rsp_Props.thy ===== *)
theory Rsp_Props
  imports Rsp_Server
begin

unbundle bit_operations_syntax

text \<open>
  What a session of the debugger does to the machine: which bytes it can change, what a memory
  write followed by a read shows, and what becomes of a breakpoint when the program is resumed.
\<close>

section \<open>Results that satisfy a predicate\<close>

definition okp :: "('a \<Rightarrow> bool) \<Rightarrow> 'a res \<Rightarrow> bool" where
  "okp P r \<longleftrightarrow> (\<forall>x. r = Ok x \<longrightarrow> P x)"

lemma okp_Ok: "P x \<Longrightarrow> okp P (Ok x)"
  by (simp add: okp_def)

lemma okp_bind: "(\<And>x. r = Ok x \<Longrightarrow> okp P (f x)) \<Longrightarrow> okp P (rbind r f)"
  by (auto simp: okp_def)

lemma okp_if: "(c \<Longrightarrow> okp P a) \<Longrightarrow> (\<not> c \<Longrightarrow> okp P b) \<Longrightarrow> okp P (if c then a else b)"
  by simp

section \<open>A session changes only what the policy allows\<close>

lemma write_byte_rest:
  assumes "write_byte addr b m = Ok m'" "\<not> sticky m a"
  shows "ram m' a = ram m a \<and> sticky m' = sticky m"
  using assms by (auto simp: write_byte_def split: if_splits)

lemma write_bytes_not_sticky:
  assumes "write_bytes addr bs m = Ok m'" "\<not> sticky m a"
  shows "ram m' a = ram m a"
  using assms
proof (induction bs arbitrary: addr m)
  case (Cons b bs)
  then obtain m1 where "write_byte addr b m = Ok m1" "write_bytes (addr + 1) bs m1 = Ok m'"
    by auto
  with Cons.IH [of "addr + 1" m1] write_byte_rest [of addr b m m1 a] Cons.prems(2) show ?case
    by simp
qed simp

text \<open>The program's bytes outside the writable ranges, and what the table needs, survive.\<close>

definition keeps :: "Sections \<Rightarrow> stub \<Rightarrow> stub \<Rightarrow> bool" where
  "keeps S st st' \<longleftrightarrow> (bp_ok st \<longrightarrow> st_bkpt st = None \<longrightarrow>
     bp_ok st' \<and> st_bkpt st' = None \<and> (\<forall>a. \<not> can_write S a 1 \<longrightarrow> orig_byte st' a = orig_byte st a))"

lemma keeps_trans: "keeps S st st1 \<Longrightarrow> keeps S st1 st2 \<Longrightarrow> keeps S st st2"
  by (auto simp: keeps_def)

lemma same_table:
  assumes "bp_tbl st' = bp_tbl st" "bp_mem st' = bp_mem st"
  shows "bp_ok st' = bp_ok st" "orig_byte st' = orig_byte st" "armed_set st' = armed_set st" "entries st' = entries st" "traps_in st' = traps_in st"
proof -
  show e: "entries st' = entries st"
    using assms by (simp add: entries_def)
  show "bp_ok st' = bp_ok st" "armed_set st' = armed_set st" "traps_in st' = traps_in st"
    using assms by (simp_all add: bp_ok_def armed_set_def e traps_in_def)
  show "orig_byte st' = orig_byte st"
    by (rule ext) (simp add: orig_byte_def e assms(2) split: option.split)
qed

lemma keeps_same:
  "bp_tbl st' = bp_tbl st \<Longrightarrow> bp_mem st' = bp_mem st \<Longrightarrow> st_bkpt st' = st_bkpt st \<Longrightarrow> keeps S st st'"
  by (simp add: keeps_def same_table [of st' st])

lemma reply_rest [simp]:
  "bp_tbl (reply p st) = bp_tbl st" "bp_mem (reply p st) = bp_mem st" "st_bkpt (reply p st) = st_bkpt st" "st_tf (reply p st) = st_tf st"
  "st_inbuf (reply p st) = st_inbuf st" "st_outbuf (reply p st) = st_outbuf st" "st_tmp (reply p st) = st_tmp st"
  "st_noack (reply p st) = st_noack st" "st_active (reply p st) = st_active st" "st_out (reply p st) = st_out st @ frame (ascii p)"
  "bp_replant (reply p st) = bp_replant st"
  by (simp_all add: reply_def send_pkt_eq)

lemma keeps_reply: "keeps S st st1 \<Longrightarrow> keeps S st (reply p st1)"
  by (erule keeps_trans) (simp add: keeps_same)

lemma keeps_read:
  "cmd_q len st = Ok st' \<Longrightarrow> keeps S st st'" "cmd_Q len st = Ok st' \<Longrightarrow> keeps S st st'" "cmd_g st = Ok st' \<Longrightarrow> keeps S st st'"
  by (rule keeps_same; auto simp: cmd_q_def cmd_Q_def cmd_g_def split: if_splits)+

lemma keeps_G: "cmd_G len st = Ok st' \<Longrightarrow> keeps S st st'"
  by (rule keeps_same; auto simp: cmd_G_def Let_def split_beta split: if_splits)

lemma keeps_m:
  assumes "cmd_m S len st = Ok st'"
  shows "keeps S st st'"
proof -
  obtain r where r: "parse_addr_len (st_inbuf st) 1 len = Ok r"
    using assms by (auto simp: cmd_m_def)
  note eq = assms [unfolded cmd_m_def r rbind.simps]
  have "keeps S st (reply p st)" for p
    by (rule keeps_same) simp_all
  moreover have "keeps S st (st\<lparr>st_outbuf := ob, st_out := out\<rparr>)" for ob out
    by (rule keeps_same) simp_all
  ultimately show ?thesis
  proof (cases r)
    case (Some p)
    with eq \<open>\<And>p. keeps S st (reply p st)\<close> \<open>\<And>ob out. keeps S st (st\<lparr>st_outbuf := ob, st_out := out\<rparr>)\<close> show ?thesis
      by (cases p) (auto simp: Let_def split: if_splits)
  qed (use eq in auto)
qed

lemma cmd_M_cases:
  assumes "cmd_M S len st = Ok st'"
  shows "(\<exists>p. st' = reply p st) \<or>
    (\<exists>addr wlen tmp out m. can_write S addr wlen \<and> write_bytes addr (take (unat wlen) tmp) (bp_mem st) = Ok m \<and>
      st' = reply ''OK'' (st\<lparr>st_tmp := tmp, st_out := out, bp_mem := m\<rparr>))"
proof -
  obtain r where r: "parse_addr_len (st_inbuf st) 1 len = Ok r"
    using assms by (auto simp: cmd_M_def)
  show ?thesis
  proof (cases r)
    case None
    then show ?thesis
      using assms r by (auto simp: cmd_M_def)
  next
    case (Some p)
    obtain addr wlen used where p: "p = (addr, wlen, used)"
      by (cases p)
    note eq = assms [unfolded cmd_M_def r rbind.simps Some p option.case prod.case]
    obtain no_colon where n: "(if len \<le> 1 + used then Ok True else rbind (idx (st_inbuf st) (1 + used)) (\<lambda>b. Ok (b \<noteq> 0x3A))) = Ok no_colon"
      using eq unfolding rbind_Ok_iff by blast
    show ?thesis
      using eq unfolding n rbind.simps Let_def by (fastforce split: if_splits)
  qed
qed

lemma keeps_M:
  assumes "cmd_M S len st = Ok st'"
  shows "keeps S st st'"
proof -
  have "keeps S st (reply p st)" for p
    by (rule keeps_same) simp_all
  moreover have "keeps S st (st\<lparr>st_tmp := tmp, st_out := out, bp_mem := m\<rparr>)"
    if w: "can_write S addr wlen" "write_bytes addr (take (unat wlen) bs) (bp_mem st) = Ok m" for addr wlen bs m tmp out
  proof -
    let ?st = "st\<lparr>st_tmp := tmp, st_out := out, bp_mem := m\<rparr>"
    have e: "entries ?st = entries st"
      by (simp add: entries_def)
    have "planted_ok m a (entries st a)" if "planted_ok (bp_mem st) a (entries st a)" for a
      using that write_bytes_rest [OF w(2)] write_bytes_not_sticky [OF w(2), of a] by (cases "sticky (bp_mem st) a") (auto simp: planted_ok_def split: option.splits)
    then have "bp_ok st \<Longrightarrow> bp_ok ?st"
      by (simp add: bp_ok_def e)
    moreover have "orig_byte ?st a = orig_byte st a" if "\<not> can_write S a 1" for a
    proof -
      have "ram m a = ram (bp_mem st) a"
        using write_bytes_frame [OF w(2), of a] can_write_sub(1) [OF w(1)] that by auto
      then show ?thesis
        by (simp add: orig_byte_def e split: option.split)
    qed
    ultimately show ?thesis
      by (simp add: keeps_def)
  qed
  ultimately show ?thesis
    using cmd_M_cases [OF assms] keeps_reply by blast
qed

lemma keeps_Z:
  assumes "cmd_Z len st = Ok st' \<or> cmd_z len st = Ok st'"
  shows "keeps S st st'"
proof -
  have i: "st_bkpt st1 = st_bkpt st" if "bp_insert a st = Ok (b, st1)" for a b st1
    using that by (auto simp: bp_insert_def split: option.splits if_splits)
  have r: "st_bkpt st1 = st_bkpt st" if "bp_remove a st = Ok (b, st1)" for a b st1
    using that by (auto simp: bp_remove_def split: option.splits)
  have "keeps S st st1" if "bp_insert a st = Ok (b, st1)" for a b st1
    using insert_spec [OF _ that] i [OF that] by (simp add: keeps_def)
  moreover have "keeps S st st1" if "bp_remove a st = Ok (b, st1)" for a b st1
    using remove_spec [OF _ that] r [OF that] by (simp add: keeps_def)
  moreover have "keeps S st st"
    by (simp add: keeps_def)
  ultimately show ?thesis
    using assms by (auto simp: cmd_Z_def cmd_z_def split: option.splits intro!: keeps_reply)
qed

lemma keeps_command:
  assumes "rsp_command dbg S len st = Ok (st', oc)"
  shows "keeps S st st'"
proof -
  have same: "keeps S st (reply p st)" "keeps S st (resume_step st)" "keeps S st st" for p
    by (rule keeps_same; simp add: resume_step_def)+
  have cont: "keeps S st st'" if "resume_continue dbg st = Ok st'" for st'
    using that keeps_same [of "st\<lparr>st_tf := clear_tf (st_tf st)\<rparr>" st S]
    by (cases "st_bkpt st") (auto simp: resume_continue_def keeps_def Let_def)
  let ?P = "\<lambda>(st', oc). keeps S st st'"
  have ans: "okp ?P (answered r)" "okp ?P (ended o1 r)" if "\<And>st'. r = Ok st' \<Longrightarrow> keeps S st st'" for r o1
    using that by (auto simp: okp_def answered_def ended_def)
  have "okp ?P (rsp_command dbg S len st)"
    unfolding rsp_command_def Let_def
    apply (intro okp_bind okp_if okp_Ok ans)
    apply (simp_all only: prod.case same)
    apply (assumption | erule cont keeps_read keeps_G keeps_m keeps_M keeps_Z [OF disjI1] keeps_Z [OF disjI2])+
    done
  then show ?thesis
    using assms by (auto simp: okp_def)
qed

lemma keeps_loop: "run_loop dbg S rx st = Ok (Some (rx', st', oc)) \<Longrightarrow> keeps S st st'"
proof (induction dbg S rx st arbitrary: rx' st' oc rule: run_loop.induct)
  case (1 dbg S rx st)
  have recv: "keeps S st (st\<lparr>st_out := out, st_inbuf := inbuf\<rparr>)" for out inbuf
    by (rule keeps_same) simp_all
  obtain rx1 out inbuf len where r: "recv_pkt_len (st_noack st) rx (st_out st) (st_inbuf st) = Some (rx1, out, inbuf, len)"
    using "1.prems" by (subst (asm) run_loop.simps) (auto split: option.splits)
  let ?st = "st\<lparr>st_out := out, st_inbuf := inbuf\<rparr>"
  note eq = run_loop.simps [of dbg S rx st, unfolded r option.case prod.case Let_def]
  show ?case
  proof (cases "len = 0")
    case True
    have "keeps S (reply '''' ?st) st'"
      using "1.IH"(1) [OF r refl refl refl refl True] "1.prems" True by (simp add: eq)
    then show ?thesis
      using keeps_trans [OF keeps_reply [OF recv]] by blast
  next
    case False
    then obtain st2 oc2 where c: "rsp_command dbg S len ?st = Ok (st2, oc2)"
      and rest: "(case oc2 of None \<Rightarrow> run_loop dbg S rx1 st2 | Some o1 \<Rightarrow> Ok (Some (rx1, st2, o1))) = Ok (Some (rx', st', oc))"
      using "1.prems" by (auto simp: eq)
    have s2: "keeps S st st2"
      using keeps_trans [OF recv keeps_command [OF c]] .
    show ?thesis
    proof (cases oc2)
      case None
      have "keeps S st2 st'"
        using "1.IH"(2) [OF r refl refl refl refl False c refl None] rest None by simp
      then show ?thesis
        using keeps_trans [OF s2] by blast
    next
      case (Some o1)
      then show ?thesis
        using rest s2 by simp
    qed
  qed
qed

lemma serve_session:
  assumes "serve dbg S rx st = Ok (Some (rx', st', oc))"
  shows "keeps S st st'"
proof (cases "st_active st")
  case True
  then show ?thesis
    using assms by (auto simp: serve_def keeps_def)
next
  case False
  let ?st = "\<lambda>out. st\<lparr>st_active := True, st_out := out\<rparr>"
  obtain out st1 where r: "run_loop dbg S rx (?st out) = Ok (Some (rx', st1, oc))" "st' = st1\<lparr>st_active := False\<rparr>"
    using assms False by (auto simp: serve_def rsp_run_def split: option.splits)
  have "keeps S st (?st out)" "keeps S st1 st'"
    by (rule keeps_same; simp add: r(2))+
  then show ?thesis
    using keeps_loop [OF r(1)] keeps_trans by blast
qed

lemma insert_bkpt: "bp_insert a st = Ok (b, st') \<Longrightarrow> st_bkpt (st' :: stub) = st_bkpt st"
  by (auto simp: bp_insert_def split: option.splits if_splits)

lemma enter_bkpt: "on_breakpoint_enter rip st = Ok (rip', hit, st') \<Longrightarrow> st_bkpt (st' :: stub) = st_bkpt st"
  by (auto simp: on_breakpoint_enter_def Let_def split: option.splits)

lemma keeps_trap:
  assumes "debug_trap dbg S rx st = Ok (Some (rx', st', e))"
  shows "keeps S st st'"
proof -
  obtain rip hit st1 r where r: "on_breakpoint_enter (tf_rip (st_tf st)) st = Ok (rip, hit, st1)"
      "serve dbg S rx (st1\<lparr>st_tf := (st_tf st1)\<lparr>tf_rip := rip\<rparr>\<rparr>) = Ok r"
    using assms by (auto simp: debug_trap_def split_beta)
  let ?st1 = "st1\<lparr>st_tf := (st_tf st1)\<lparr>tf_rip := rip\<rparr>\<rparr>"
  note eq = assms [unfolded debug_trap_def r rbind.simps prod.case]
  then obtain rx2 st2 oc where r2: "r = Some (rx2, st2, oc)"
    by (auto split: option.splits)
  have "keeps S st st1"
    using enter_spec [OF _ r(1)] enter_bkpt [OF r(1)] by (simp add: keeps_def)
  moreover have "keeps S st1 ?st1"
    by (rule keeps_same) simp_all
  ultimately have "keeps S st st2"
    using serve_session [OF r(2) [unfolded r2]] keeps_trans by blast
  moreover have "keeps S st2 st'"
  proof (cases oc)
    case Continue
    then have "on_resume_continue hit st2 = Ok st'"
      using eq r2 by auto
    then show ?thesis
      using insert_spec [of st2] insert_bkpt
      by (cases hit) (auto simp: on_resume_continue_def keeps_def)
  next
    case SingleStep
    then show ?thesis
      using eq r2 by (intro keeps_same) (auto simp: on_resume_step_def)
  next
    case KillTask
    then show ?thesis
      using eq r2 by (auto simp: keeps_def)
  qed
  ultimately show ?thesis
    by (rule keeps_trans)
qed


section \<open>Packets of a session\<close>

lemma starts_loop_eq: "i + length pat \<le> length inbuf \<Longrightarrow> starts_loop inbuf i pat = Ok (take (length pat) (drop i inbuf) = pat)"
proof (induction pat arbitrary: i)
  case (Cons p ps)
  then have "drop i inbuf = inbuf ! i # drop (Suc i) inbuf"
    by (simp add: Cons_nth_drop_Suc)
  then show ?case
    using Cons by (simp add: idx_def)
qed simp

lemma starts_with_eq: "len \<le> length inbuf \<Longrightarrow> starts_with inbuf 0 len pat = Ok (take (length pat) (take len inbuf) = pat)"
proof (cases "length pat \<le> len")
  case False
  then have "length (take (length pat) (take len inbuf)) \<noteq> length pat"
    by simp
  then have "take (length pat) (take len inbuf) \<noteq> pat"
    by (rule contrapos_nn) (rule arg_cong)
  then show ?thesis
    using False by (simp add: starts_with_def)
qed (simp add: starts_with_def starts_loop_eq min_def)

text \<open>The state in which the handler of a received packet starts.\<close>

definition got :: "u8 list \<Rightarrow> stub \<Rightarrow> stub" where
  "got p st = st\<lparr>st_out := (if st_noack st then st_out st else st_out st @ [0x2B]), st_inbuf := p @ drop (length p) (st_inbuf st)\<rparr>"

lemma got_rest [simp]:
  "bp_tbl (got p st) = bp_tbl st" "bp_mem (got p st) = bp_mem st" "st_bkpt (got p st) = st_bkpt st" "st_tf (got p st) = st_tf st"
  "st_inbuf (got p st) = p @ drop (length p) (st_inbuf st)" "st_noack (got p st) = st_noack st" "st_active (got p st) = st_active st"
  "st_out (got p st) = st_out st @ (if st_noack st then [] else [0x2B])" "bp_replant (got p st) = bp_replant st"
  by (simp_all add: got_def)

lemma starts_got: "starts_with (st_inbuf (got p st)) 0 (length p) pat = Ok (take (length pat) p = pat)"
  using starts_with_eq [of "length p" "p @ drop (length p) (st_inbuf st)" pat] by simp

lemma run_packet:
  assumes "0x23 \<notin> set p" "p \<noteq> []" "length p \<le> INBUF_LEN" "length (st_inbuf st) = INBUF_LEN"
  shows "run_loop dbg S (frame p @ rx) st =
    rbind (rsp_command dbg S (length p) (got p st)) (\<lambda>(st2, oc).
      case oc of None \<Rightarrow> run_loop dbg S rx st2 | Some o1 \<Rightarrow> Ok (Some (rx, st2, o1)))"
  using assms(2)
  by (subst run_loop.simps)
    (simp add: frame_def recv_packet [OF assms(1,3,4)] check_ok_self Let_def got_def)

section \<open>Queries\<close>

definition answer_q :: "u8 list \<Rightarrow> string" where
  "answer_q p = (case find (\<lambda>(pat, r). take (length (ascii pat)) p = ascii pat) queries of Some (pat, r) \<Rightarrow> r | None \<Rightarrow> '''')"

lemma query_reply_eq:
  "query_reply qs (st_inbuf (got p st)) (length p) =
     Ok (case find (\<lambda>(pat, r). take (length (ascii pat)) p = ascii pat) qs of Some (pat, r) \<Rightarrow> r | None \<Rightarrow> '''')"
  by (induction qs) (auto simp: starts_got simp del: got_rest)

definition is_query :: "u8 list \<Rightarrow> bool" where
  "is_query p \<longleftrightarrow> p \<noteq> [] \<and> hd p \<in> {of_char CHR ''?'', of_char CHR ''H'', of_char CHR ''q'', of_char CHR ''Q''}"

definition no_ack_request :: "u8 list \<Rightarrow> bool" where
  "no_ack_request p \<longleftrightarrow> take (length (ascii ''QStartNoAckMode'')) p = ascii ''QStartNoAckMode''"

definition answer :: "u8 list \<Rightarrow> string" where
  "answer p =
     (if hd p = of_char CHR ''?'' then ''S05'' else if hd p = of_char CHR ''H'' then ''OK''
      else if hd p = of_char CHR ''q'' then answer_q p
      else if no_ack_request p then ''OK'' else '''')"

fun answers :: "bool \<Rightarrow> u8 list list \<Rightarrow> u8 list" where
  "answers na [] = (if na then [] else [0x2B])"
| "answers na (p # ps) = (if na then [] else [0x2B]) @ frame (ascii (answer p)) @ answers (na \<or> no_ack_request p) ps"

lemma query_command:
  assumes "is_query p"
  shows "rsp_command dbg S (length p) (got p st) =
    Ok (reply (answer p) ((got p st)\<lparr>st_noack := st_noack st \<or> no_ack_request p\<rparr>), None)"
proof -
  obtain c cs where p: "p = c # cs"
    using assms by (cases p) (auto simp: is_query_def)
  have na: "(got p st)\<lparr>st_noack := st_noack st\<rparr> = got p st"
    by (simp add: got_def)
  have na_Q: "\<not> no_ack_request p" if "c \<noteq> of_char CHR ''Q''"
    using that p by (auto simp: no_ack_request_def ascii_def)
  have c0: "idx (st_inbuf (got p st)) 0 = Ok c" and hd: "hd p = c"
    by (simp_all add: p idx_def)
  have Q: "cmd_Q (length p) (got p st) = Ok (reply (if no_ack_request p then ''OK'' else '''') ((got p st)\<lparr>st_noack := st_noack st \<or> no_ack_request p\<rparr>))"
    by (cases "no_ack_request p") (simp_all add: cmd_Q_def starts_got na no_ack_request_def del: got_rest(5))
  have q: "cmd_q (length p) (got p st) = Ok (reply (answer_q p) (got p st))"
    by (simp add: cmd_q_def query_reply_eq answer_q_def del: got_rest)
  consider "c = of_char CHR ''?''" | "c = of_char CHR ''H''" | "c = of_char CHR ''q''" | "c = of_char CHR ''Q''"
    using assms p by (auto simp: is_query_def)
  then show ?thesis
    unfolding rsp_command_def answer_def hd c0 Q q rbind.simps Let_def
    using na_Q by cases (simp_all add: answered_def na Q del: got_rest)
qed

lemma answers_loop:
  assumes "\<forall>p\<in>set ps. is_query p \<and> 0x23 \<notin> set p \<and> length p \<le> INBUF_LEN" "length (st_inbuf st) = INBUF_LEN"
  shows "\<exists>st'. run_loop dbg S (concat (map frame ps) @ frame (ascii ''k'') @ rx) st = Ok (Some (rx, st', KillTask)) \<and>
    st_out st' = st_out st @ answers (st_noack st) ps \<and> bp_mem st' = bp_mem st \<and> bp_tbl st' = bp_tbl st \<and> st_tf st' = st_tf st"
  using assms
proof (induction ps arbitrary: st)
  case Nil
  have "run_loop dbg S (frame (ascii ''k'') @ rx) st = Ok (Some (rx, got (ascii ''k'') st, KillTask))"
    using Nil by (subst run_packet) (simp_all add: ascii_def INBUF_LEN_def rsp_command_def Let_def idx_def)
  then show ?case
    by simp
next
  case (Cons p ps)
  let ?st = "reply (answer p) ((got p st)\<lparr>st_noack := st_noack st \<or> no_ack_request p\<rparr>)"
  have p: "is_query p" "0x23 \<notin> set p" "length p \<le> INBUF_LEN" "p \<noteq> []"
    using Cons.prems(1) by (auto simp: is_query_def)
  have "length (st_inbuf ?st) = INBUF_LEN"
    using p(3) Cons.prems(2) by simp
  note IH = Cons.IH [OF _ this]
  have "run_loop dbg S (frame p @ concat (map frame ps) @ frame (ascii ''k'') @ rx) st =
      run_loop dbg S (concat (map frame ps) @ frame (ascii ''k'') @ rx) ?st"
    using run_packet [OF p(2,4,3) Cons.prems(2)] query_command [OF p(1)] by simp
  then show ?case
    using IH Cons.prems(1) by auto
qed

text \<open>C22: a session of queries ends and answers. A session that starts outside the stub and receives any number of
  well-framed query packets and then a kill request returns with the kill outcome, leaves the unread input
  unread, and has sent the stop reply, then for every packet an acknowledgement, as long as they have
  not been switched off, and exactly its answer; the program's registers and memory are untouched.\<close>

theorem query_session_ends:
  assumes "\<forall>p\<in>set ps. is_query p \<and> 0x23 \<notin> set p \<and> length p \<le> INBUF_LEN" "length (st_inbuf st) = INBUF_LEN" "\<not> st_active st"
  shows "\<exists>st' stop. serve dbg S (concat (map frame ps) @ frame (ascii ''k'') @ rx) st = Ok (Some (rx, st', KillTask)) \<and>
    send_t_stop 5 1 (tf_rip (st_tf st)) (st_out st) = Ok stop \<and> st_out st' = stop @ answers (st_noack st) ps \<and>
    \<not> st_active st' \<and> bp_mem st' = bp_mem st \<and> bp_tbl st' = bp_tbl st \<and> st_tf st' = st_tf st"
proof -
  obtain stop where stop: "send_t_stop 5 1 (tf_rip (st_tf st)) (st_out st) = Ok stop"
    by (simp add: stop_reply_frame)
  show ?thesis
    using answers_loop [OF assms(1), of "st\<lparr>st_active := True, st_out := stop\<rparr>" dbg S rx] assms(2,3)
    by (auto simp: serve_def rsp_run_def stop)
qed

end
