(* ===== verification/Rsp_Break.thy ===== *)
theory Rsp_Break
  imports Rsp_Props
begin

unbundle bit_operations_syntax

text \<open>
  What becomes of a breakpoint that is hit: the trap handler takes the trap instruction out and
  rewinds the program, the session runs, and the choice of the debugger decides whether the entry
  is planted again.
\<close>

section \<open>Hitting and planting\<close>

lemma find_slot_None: "find_slot a es k free = None \<longleftrightarrow> free = None \<and> (\<forall>e\<in>set es. \<exists>bp. e = Some bp \<and> bp_addr bp \<noteq> a)"
  by (induction a es k free rule: find_slot.induct) auto

lemma enter_hit:
  assumes "bp_ok st" "a \<in> armed_set st"
  obtains m t where "on_breakpoint_enter (a + 1) st = Ok (a, Some a, st\<lparr>bp_mem := m, bp_tbl := t\<rparr>)"
    "mapped m = mapped (bp_mem st)" "sticky m = sticky (bp_mem st)" "mapped m a"
proof -
  obtain bp where bp: "entries st a = Some bp" "bp_armed bp"
    using assms(2) by (auto simp: armed_set_def is_armed_def split: option.splits)
  then have "\<not> (\<forall>bp. Some bp \<in> set (bp_tbl st) \<longrightarrow> \<not> (bp_addr bp = a \<and> bp_armed bp))"
    using assms(1) by (auto simp: entries_def entry_of_iff bp_ok_def in_set_conv_nth)
  then obtain i bq where f: "find_bp (\<lambda>bp. bp_addr bp = a \<and> bp_armed bp) (bp_tbl st) 0 = Some (i, bq)"
    unfolding find_bp_None [symmetric, of _ _ 0] by (metis option.exhaust surj_pair)
  have "mapped (bp_mem st) a"
    using assms(1) bp by (auto simp: bp_ok_def planted_ok_def split: option.splits)
  then show thesis
    by (intro that [where m = "if sticky (bp_mem st) a then (bp_mem st)\<lparr>ram := (ram (bp_mem st))(a := bp_orig bq)\<rparr> else bp_mem st"
          and t = "(bp_tbl st)[i := Some (bq\<lparr>bp_armed := False\<rparr>)]"])
      (simp_all add: on_breakpoint_enter_def Let_def f poke_eq)
qed

lemma insert_plants:
  assumes "bp_ok st" "traps_in st" "find_slot a (bp_tbl st) 0 None \<noteq> None" "mapped (bp_mem st) a" "sticky (bp_mem st) a"
  obtains m t where "bp_insert a st = Ok (True, st\<lparr>bp_mem := m, bp_tbl := t\<rparr>)" "bp_ok (st\<lparr>bp_mem := m, bp_tbl := t\<rparr>)"
    "a \<in> armed_set (st\<lparr>bp_mem := m, bp_tbl := t\<rparr>)" "ram m a = 0xCC"
proof -
  obtain i where i: "find_slot a (bp_tbl st) 0 None = Some i"
    using assms(3) by blast
  have "\<exists>m t. bp_insert a st = Ok (True, st\<lparr>bp_mem := m, bp_tbl := t\<rparr>)"
  proof (cases "case bp_tbl st ! i of Some bp \<Rightarrow> bp_armed bp | None \<Rightarrow> False")
    case True
    then have "bp_insert a st = Ok (True, st\<lparr>bp_mem := bp_mem st, bp_tbl := bp_tbl st\<rparr>)"
      using i by (simp add: bp_insert_def)
    then show ?thesis
      by blast
  next
    case False
    then show ?thesis
      using i assms(4,5) by (auto simp: bp_insert_def poke_eq read_byte_def)
  qed
  then obtain m t where mt: "bp_insert a st = Ok (True, st\<lparr>bp_mem := m, bp_tbl := t\<rparr>)"
    by blast
  have s: "bp_ok (st\<lparr>bp_mem := m, bp_tbl := t\<rparr>)" "a \<in> armed_set (st\<lparr>bp_mem := m, bp_tbl := t\<rparr>)" "traps_in (st\<lparr>bp_mem := m, bp_tbl := t\<rparr>)"
    using insert_spec [OF assms(1) mt] assms(2) by auto
  then have "ram m a = 0xCC"
    by (auto simp: traps_in_def armed_set_def)
  then show thesis
    using that mt s(1,2) by blast
qed

section \<open>Sessions of one packet\<close>

lemma serve_loop:
  assumes "\<not> st_active st" "\<And>out. \<exists>st'. run_loop dbg S rx (st\<lparr>st_active := True, st_out := out\<rparr>) = Ok (Some (rx', st', oc)) \<and> P (st'\<lparr>st_active := False\<rparr>)"
  obtains st' where "serve dbg S rx st = Ok (Some (rx', st', oc))" "P st'"
proof -
  obtain stop where stop: "send_t_stop 5 1 (tf_rip (st_tf st)) (st_out st) = Ok stop"
    by (simp add: stop_reply_frame)
  obtain st' where "run_loop dbg S rx (st\<lparr>st_active := True, st_out := stop\<rparr>) = Ok (Some (rx', st', oc))" "P (st'\<lparr>st_active := False\<rparr>)"
    using assms(2) by blast
  then show thesis
    using assms(1) by (intro that [of "st'\<lparr>st_active := False\<rparr>"]) (simp_all add: serve_def rsp_run_def stop)
qed

lemma run_c:
  assumes "length (st_inbuf st) = INBUF_LEN" "st_bkpt st = None"
  shows "run_loop dbg S (frame (ascii ''c'') @ rx) st =
    Ok (Some (rx, (got (ascii ''c'') st)\<lparr>st_tf := clear_tf (st_tf st)\<rparr>, Continue))"
  using assms
  by (subst run_packet)
    (simp_all add: ascii_def INBUF_LEN_def rsp_command_def Let_def idx_def ended_def resume_continue_def)

lemma run_s:
  assumes "length (st_inbuf st) = INBUF_LEN"
  shows "run_loop dbg S (frame (ascii ''s'') @ rx) st =
    Ok (Some (rx, resume_step (got (ascii ''s'') st), SingleStep))"
  using assms
  by (subst run_packet) (simp_all add: ascii_def INBUF_LEN_def rsp_command_def Let_def idx_def)

section \<open>Resuming\<close>

text \<open>The trap handler around a session that is resumed with \<open>Continue\<close>.\<close>

lemma trap_continue:
  assumes "bp_ok st" "traps_in st" "a \<in> armed_set st" "tf_rip (st_tf st) = a + 1" "sticky (bp_mem st) a" "\<not> st_active st"
    and "\<And>m t out. on_breakpoint_enter (a + 1) st = Ok (a, Some a, st\<lparr>bp_mem := m, bp_tbl := t\<rparr>) \<Longrightarrow>
      mapped m a \<Longrightarrow> sticky m = sticky (bp_mem st) \<Longrightarrow>
      \<exists>st2. run_loop dbg S rx (st\<lparr>bp_mem := m, bp_tbl := t, st_tf := (st_tf st)\<lparr>tf_rip := a\<rparr>, st_active := True, st_out := out\<rparr>) = Ok (Some (rx', st2, Continue)) \<and>
        bp_ok st2 \<and> traps_in st2 \<and> find_slot a (bp_tbl st2) 0 None \<noteq> None \<and> mapped (bp_mem st2) a \<and> sticky (bp_mem st2) a \<and> tf_rip (st_tf st2) = a"
  shows "\<exists>st'. isr_bp_rust dbg S rx st = Ok (Some (rx', st', Resumed)) \<and> tf_rip (st_tf st') = a \<and> a \<in> armed_set st' \<and> ram (bp_mem st') a = 0xCC"
proof -
  obtain m t where e: "on_breakpoint_enter (a + 1) st = Ok (a, Some a, st\<lparr>bp_mem := m, bp_tbl := t\<rparr>)" "sticky m = sticky (bp_mem st)" "mapped m a"
    using enter_hit [OF assms(1,3)] by blast
  let ?st1 = "st\<lparr>bp_mem := m, bp_tbl := t, st_tf := (st_tf st)\<lparr>tf_rip := a\<rparr>\<rparr>"
  let ?P = "\<lambda>st2. bp_ok st2 \<and> traps_in st2 \<and> find_slot a (bp_tbl st2) 0 None \<noteq> None \<and> mapped (bp_mem st2) a \<and> sticky (bp_mem st2) a \<and> tf_rip (st_tf st2) = a"
  have active: "?P st2 \<Longrightarrow> ?P (st2\<lparr>st_active := False\<rparr>)" for st2
    using same_table [of "st2\<lparr>st_active := False\<rparr>" st2] by simp
  have "\<exists>st2. run_loop dbg S rx (?st1\<lparr>st_active := True, st_out := out\<rparr>) = Ok (Some (rx', st2, Continue)) \<and> ?P (st2\<lparr>st_active := False\<rparr>)" for out
    using assms(7) [OF e(1,3,2), of out] active by (auto simp del: bp_state.simps)
  then obtain st2 where st2: "serve dbg S rx ?st1 = Ok (Some (rx', st2, Continue))" "?P st2"
    using assms(6) serve_loop [of ?st1 dbg S rx rx' Continue ?P] by auto
  obtain m3 t3 where ins: "bp_insert a st2 = Ok (True, st2\<lparr>bp_mem := m3, bp_tbl := t3\<rparr>)"
    "a \<in> armed_set (st2\<lparr>bp_mem := m3, bp_tbl := t3\<rparr>)" "ram m3 a = 0xCC"
    using insert_plants [of st2 a] st2(2) by blast
  have "isr_bp_rust dbg S rx st = Ok (Some (rx', st2\<lparr>bp_mem := m3, bp_tbl := t3\<rparr>, Resumed))"
    using st2(1) by (simp add: isr_bp_rust_def debug_trap_def assms(4) e(1) on_resume_continue_def ins(1))
  then show ?thesis
    using ins st2(2) by (intro exI [of _ "st2\<lparr>bp_mem := m3, bp_tbl := t3\<rparr>"]) simp
qed

lemma clear_tf_rip [simp]: "tf_rip (clear_tf t) = tf_rip t"
  by (simp add: clear_tf_def)

lemma slot_of_entry:
  assumes "entries st a \<noteq> None"
  shows "find_slot a (bp_tbl st) 0 None \<noteq> None"
proof -
  obtain bp where "Some bp \<in> set (bp_tbl st)" "bp_addr bp = a"
    using assms by (auto simp: entries_def entry_of_None)
  then show ?thesis
    unfolding find_slot_None by fastforce
qed

text \<open>C36: a breakpoint that is hit and continued is hit again at once. When the program has run into an armed
  breakpoint and the debugger answers the stop with a continue packet, the handler returns with the program
  rewound to the breakpoint's address and the trap instruction already planted there again: the
  instruction under it is never executed.\<close>

theorem continue_traps_again:
  assumes "bp_ok st" "traps_in st" "a \<in> armed_set st" "tf_rip (st_tf st) = a + 1" "sticky (bp_mem st) a" "\<not> st_active st"
    and "st_bkpt st = None" "length (st_inbuf st) = INBUF_LEN"
  shows "\<exists>st'. isr_bp_rust dbg S (frame (ascii ''c'') @ rx) st = Ok (Some (rx, st', Resumed)) \<and>
    tf_rip (st_tf st') = a \<and> a \<in> armed_set st' \<and> ram (bp_mem st') a = 0xCC"
proof (rule trap_continue [OF assms(1-6)])
  fix m t out
  assume e: "on_breakpoint_enter (a + 1) st = Ok (a, Some a, st\<lparr>bp_mem := m, bp_tbl := t\<rparr>)" and m: "mapped m a" "sticky m = sticky (bp_mem st)"
  let ?st1 = "st\<lparr>bp_mem := m, bp_tbl := t\<rparr>"
  let ?st2 = "?st1\<lparr>st_tf := (st_tf st)\<lparr>tf_rip := a\<rparr>, st_active := True, st_out := out\<rparr>"
  let ?st3 = "(got (ascii ''c'') ?st2)\<lparr>st_tf := clear_tf (st_tf ?st2)\<rparr>"
  have run: "run_loop dbg S (frame (ascii ''c'') @ rx) ?st2 = Ok (Some (rx, ?st3, Continue))"
    using assms(7,8) by (intro run_c) simp_all
  have s: "bp_ok ?st1 \<and> traps_in ?st1 \<and> entries ?st1 a \<noteq> None"
    using enter_spec [OF assms(1) e] assms(2,3) by simp
  have "bp_ok ?st3 \<and> traps_in ?st3"
    using s same_table [of ?st3 ?st1] by simp
  moreover have "find_slot a (bp_tbl ?st3) 0 None \<noteq> None"
    using slot_of_entry [of ?st1 a] s by simp
  ultimately show "\<exists>st2. run_loop dbg S (frame (ascii ''c'') @ rx) ?st2 = Ok (Some (rx, st2, Continue)) \<and>
      bp_ok st2 \<and> traps_in st2 \<and> find_slot a (bp_tbl st2) 0 None \<noteq> None \<and> mapped (bp_mem st2) a \<and> sticky (bp_mem st2) a \<and> tf_rip (st_tf st2) = a"
    using run m assms(5) by (intro exI [of _ ?st3]) simp
qed

lemma run_z0:
  assumes "length (st_inbuf st) = INBUF_LEN" "bp_remove a (got (ascii ''z0,'' @ hex_text a @ ascii '',1'') st) = Ok (b, st1)"
  shows "run_loop dbg S (frame (ascii ''z0,'' @ hex_text a @ ascii '',1'') @ rx) st =
    run_loop dbg S rx (reply (if b then ''OK'' else ''E01'') st1)"
proof -
  let ?p = "ascii ''z0,'' @ hex_text a @ ascii '',1''"
  have p: "0x23 \<notin> set ?p" "?p \<noteq> []" "length ?p \<le> INBUF_LEN"
    using hex_text_facts(5,6) [of a] by (auto simp: ascii_def INBUF_LEN_def)
  have "drop 3 (take (length ?p) (st_inbuf (got ?p st))) = hex_text a @ ascii '',1''"
    by (simp add: ascii_def)
  then have parse: "parse_hex_usize (st_inbuf (got ?p st)) 3 (length ?p) = Ok (Some (a, length (hex_text a)))"
    by (rule parse_hex_text) (simp_all add: ascii_def is_hex_def from_hex_def)
  have st: "starts_with (st_inbuf (got ?p st)) 0 (length ?p) (ascii ''z0,'') = Ok True"
    unfolding starts_got by (simp add: ascii_def)
  have i: "idx (st_inbuf (got ?p st)) 0 = Ok 0x7A"
    by (simp add: ascii_def idx_def)
  have "cmd_z (length ?p) (got ?p st) = Ok (reply (if b then ''OK'' else ''E01'') st1)"
    by (simp only: cmd_z_def parse rbind.simps option.case prod.case assms(2))
  then have "rsp_command dbg S (length ?p) (got ?p st) = Ok (reply (if b then ''OK'' else ''E01'') st1, None)"
    unfolding rsp_command_def i rbind.simps Let_def st answered_def by simp
  then show ?thesis
    by (simp only: run_packet [OF p assms(1)] rbind.simps prod.case option.case)
qed

lemma remove_disarmed:
  assumes "bp_ok st" "entries st a \<noteq> None" "a \<notin> armed_set st"
  obtains t where "bp_remove a st = Ok (True, st\<lparr>bp_tbl := t\<rparr>)" "find_slot a t 0 None \<noteq> None"
proof -
  obtain i bp where f: "find_bp (\<lambda>bp. bp_addr bp = a) (bp_tbl st) 0 = Some (i, bp)"
    using assms(2) by (auto simp: entries_def entry_of_def)
  then have "\<not> bp_armed bp" "i < length (bp_tbl st)"
    using assms(3) find_bp_Some [OF f] by (auto simp: armed_set_def is_armed_def entries_def entry_of_def)
  moreover from this(2) have "find_slot a ((bp_tbl st)[i := None]) 0 None \<noteq> None"
    unfolding find_slot_None using set_update_memI by fastforce
  ultimately show thesis
    using f by (intro that [where t = "(bp_tbl st)[i := None]"]) (simp_all add: bp_remove_def)
qed

text \<open>C35: a removed breakpoint comes back. When the debugger, stopped at a breakpoint, removes that breakpoint, is
  told that it worked, and continues, the trap instruction is planted at its address again and the entry is
  armed: the handler re-inserts the breakpoint it had been hit by, not knowing that it is gone.\<close>

theorem removed_breakpoint_returns:
  assumes "bp_ok st" "traps_in st" "a \<in> armed_set st" "tf_rip (st_tf st) = a + 1" "sticky (bp_mem st) a" "\<not> st_active st"
    and "st_bkpt st = None" "length (st_inbuf st) = INBUF_LEN"
  shows "\<exists>st'. isr_bp_rust dbg S (frame (ascii ''z0,'' @ hex_text a @ ascii '',1'') @ frame (ascii ''c'') @ rx) st = Ok (Some (rx, st', Resumed)) \<and>
    tf_rip (st_tf st') = a \<and> a \<in> armed_set st' \<and> ram (bp_mem st') a = 0xCC"
proof (rule trap_continue [OF assms(1-6)])
  fix m t out
  assume e: "on_breakpoint_enter (a + 1) st = Ok (a, Some a, st\<lparr>bp_mem := m, bp_tbl := t\<rparr>)" and m: "mapped m a" "sticky m = sticky (bp_mem st)"
  let ?z = "ascii ''z0,'' @ hex_text a @ ascii '',1''"
  let ?st1 = "st\<lparr>bp_mem := m, bp_tbl := t\<rparr>"
  let ?st2 = "?st1\<lparr>st_tf := (st_tf st)\<lparr>tf_rip := a\<rparr>, st_active := True, st_out := out\<rparr>"
  have s: "bp_ok ?st1" "traps_in ?st1" "entries ?st1 a \<noteq> None" "a \<notin> armed_set ?st1"
    using enter_spec [OF assms(1) e] assms(2,3) by simp_all
  note same = same_table [of "got ?z ?st2" ?st1]
  obtain t' where r: "bp_remove a (got ?z ?st2) = Ok (True, (got ?z ?st2)\<lparr>bp_tbl := t'\<rparr>)" "find_slot a t' 0 None \<noteq> None"
    using remove_disarmed [of "got ?z ?st2" a] s same by auto
  let ?st3 = "reply ''OK'' ((got ?z ?st2)\<lparr>bp_tbl := t'\<rparr>)"
  let ?st4 = "(got (ascii ''c'') ?st3)\<lparr>st_tf := clear_tf (st_tf ?st3)\<rparr>"
  have "run_loop dbg S (frame ?z @ frame (ascii ''c'') @ rx) ?st2 = run_loop dbg S (frame (ascii ''c'') @ rx) ?st3"
    using run_z0 [OF _ r(1)] assms(8) by simp
  also have "\<dots> = Ok (Some (rx, ?st4, Continue))"
    using assms(7,8) hex_text_facts(5) [of a] by (intro run_c) (simp_all add: ascii_def INBUF_LEN_def)
  finally have run: "run_loop dbg S (frame ?z @ frame (ascii ''c'') @ rx) ?st2 = Ok (Some (rx, ?st4, Continue))" .
  have "bp_ok ((got ?z ?st2)\<lparr>bp_tbl := t'\<rparr>) \<and> traps_in ((got ?z ?st2)\<lparr>bp_tbl := t'\<rparr>)"
    using remove_spec [OF _ r(1)] s same by simp
  then have "bp_ok ?st4 \<and> traps_in ?st4"
    using same_table [of ?st4 "(got ?z ?st2)\<lparr>bp_tbl := t'\<rparr>"] by simp
  then show "\<exists>st2. run_loop dbg S (frame ?z @ frame (ascii ''c'') @ rx) ?st2 = Ok (Some (rx, st2, Continue)) \<and>
      bp_ok st2 \<and> traps_in st2 \<and> find_slot a (bp_tbl st2) 0 None \<noteq> None \<and> mapped (bp_mem st2) a \<and> sticky (bp_mem st2) a \<and> tf_rip (st_tf st2) = a"
    using run m assms(5) r(2) by (intro exI [of _ ?st4]) simp
qed

lemma enter_miss:
  assumes "bp_ok st" "rip - 1 \<notin> armed_set st"
  shows "on_breakpoint_enter rip st = Ok (rip, None, st)"
proof (cases "find_bp (\<lambda>bp. bp_addr bp = rip - 1 \<and> bp_armed bp) (bp_tbl st) 0")
  case (Some r)
  then obtain i bp where r: "find_bp (\<lambda>bp. bp_addr bp = rip - 1 \<and> bp_armed bp) (bp_tbl st) 0 = Some (i, bp)"
    by (cases r) auto
  then have "entries st (rip - 1) = Some bp" "bp_armed bp"
    using find_bp_slot [OF r, of "rip - 1"] slot_entry [OF assms(1)] by auto
  then show ?thesis
    using assms(2) by (simp add: armed_set_def is_armed_def)
qed (simp add: on_breakpoint_enter_def Let_def)

lemma trap_missed:
  assumes "bp_ok st" "tf_rip (st_tf st) - 1 \<notin> armed_set st" "\<not> st_active st" "st_bkpt st = None" "length (st_inbuf st) = INBUF_LEN"
  shows "\<exists>st'. isr_db_rust dbg S (frame (ascii ''c'') @ rx) st = Ok (Some (rx, st', Resumed)) \<and>
    tf_rip (st_tf st') = tf_rip (st_tf st) \<and> armed_set st' = armed_set st"
proof -
  let ?Q = "\<lambda>st'. tf_rip (st_tf st') = tf_rip (st_tf st) \<and> bp_tbl st' = bp_tbl st \<and> bp_mem st' = bp_mem st"
  have "\<exists>st'. run_loop dbg S (frame (ascii ''c'') @ rx) (st\<lparr>st_active := True, st_out := out\<rparr>) = Ok (Some (rx, st', Continue)) \<and>
      ?Q (st'\<lparr>st_active := False\<rparr>)" for out
    using assms(4,5) run_c [of "st\<lparr>st_active := True, st_out := out\<rparr>" dbg S rx] by simp
  then obtain st' where st': "serve dbg S (frame (ascii ''c'') @ rx) st = Ok (Some (rx, st', Continue))" "?Q st'"
    using assms(3) serve_loop [of st dbg S "frame (ascii ''c'') @ rx" rx Continue ?Q] by auto
  then show ?thesis
    using enter_miss [OF assms(1,2)] same_table(3) [of st' st]
    by (simp add: isr_db_rust_def debug_trap_def on_resume_continue_def)
qed

lemma set_tf_trace: "tf_rip (set_tf t) = tf_rip t" "bit (tf_rflags (set_tf t)) 8"
  by (simp_all add: set_tf_def bit_simps)

text \<open>C37: stepping off a breakpoint loses it. When the program has run into an armed breakpoint and the debugger
  answers with a step packet, the program is resumed with the trace flag at the breakpoint's address with
  the trap taken out; and when the following single-step trap, at whatever address has no armed
  breakpoint before it, is answered with a continue packet, the breakpoint is still not armed: the
  address that was remembered for planting it again is never looked at.\<close>

theorem step_loses_breakpoint:
  assumes "bp_ok st" "a \<in> armed_set st" "tf_rip (st_tf st) = a + 1" "\<not> st_active st" "st_bkpt st = None" "length (st_inbuf st) = INBUF_LEN"
  shows "\<exists>st1. isr_bp_rust dbg S (frame (ascii ''s'') @ rx) st = Ok (Some (rx, st1, Resumed)) \<and>
    tf_rip (st_tf st1) = a \<and> bit (tf_rflags (st_tf st1)) 8 \<and> bp_replant st1 = Some a \<and> armed_set st1 = armed_set st - {a} \<and>
    (\<forall>rip. rip - 1 \<notin> armed_set st1 \<longrightarrow>
      (\<exists>st2. isr_db_rust dbg S (frame (ascii ''c'') @ rx2) (st1\<lparr>st_tf := (st_tf st1)\<lparr>tf_rip := rip\<rparr>\<rparr>) = Ok (Some (rx2, st2, Resumed)) \<and>
        tf_rip (st_tf st2) = rip \<and> armed_set st2 = armed_set st - {a}))"
proof -
  obtain m t where e: "on_breakpoint_enter (a + 1) st = Ok (a, Some a, st\<lparr>bp_mem := m, bp_tbl := t\<rparr>)"
    using enter_hit [OF assms(1,2)] by blast
  let ?e = "st\<lparr>bp_mem := m, bp_tbl := t\<rparr>"
  let ?st0 = "?e\<lparr>st_tf := (st_tf st)\<lparr>tf_rip := a\<rparr>\<rparr>"
  have ok: "bp_ok ?e" "armed_set ?e = armed_set st - {a}"
    using enter_spec [OF assms(1) e] by simp_all
  let ?P = "\<lambda>st2. bp_tbl st2 = t \<and> bp_mem st2 = m \<and> st_bkpt st2 = None \<and> length (st_inbuf st2) = INBUF_LEN \<and> \<not> st_active st2 \<and>
    tf_rip (st_tf st2) = a \<and> bit (tf_rflags (st_tf st2)) 8"
  have "\<exists>st'. run_loop dbg S (frame (ascii ''s'') @ rx) (?st0\<lparr>st_active := True, st_out := out\<rparr>) = Ok (Some (rx, st', SingleStep)) \<and>
      ?P (st'\<lparr>st_active := False\<rparr>)" for out
    using assms(5,6) run_s [of "?st0\<lparr>st_active := True, st_out := out\<rparr>" dbg S rx]
    by (simp add: resume_step_def set_tf_trace) (simp add: ascii_def INBUF_LEN_def)
  then obtain st2 where st2: "serve dbg S (frame (ascii ''s'') @ rx) ?st0 = Ok (Some (rx, st2, SingleStep))" "?P st2"
    using assms(4) serve_loop [of ?st0 dbg S "frame (ascii ''s'') @ rx" rx SingleStep ?P] by auto
  let ?st1 = "on_resume_step (Some a) st2"
  have trap: "isr_bp_rust dbg S (frame (ascii ''s'') @ rx) st = Ok (Some (rx, ?st1, Resumed))"
    using st2(1) by (simp add: isr_bp_rust_def debug_trap_def assms(3) e)
  have "tf_rip (st_tf ?st1) = a" "bit (tf_rflags (st_tf ?st1)) 8" "bp_replant ?st1 = Some a" "armed_set ?st1 = armed_set st - {a}"
    using st2(2) same_table(3) [of ?st1 ?e] ok(2) by (simp_all add: on_resume_step_def)
  moreover have "\<exists>st3. isr_db_rust dbg S (frame (ascii ''c'') @ rx2) (?st1\<lparr>st_tf := (st_tf ?st1)\<lparr>tf_rip := rip\<rparr>\<rparr>) = Ok (Some (rx2, st3, Resumed)) \<and>
      tf_rip (st_tf st3) = rip \<and> armed_set st3 = armed_set st - {a}" if miss: "rip - 1 \<notin> armed_set ?st1" for rip
  proof -
    let ?s = "?st1\<lparr>st_tf := (st_tf ?st1)\<lparr>tf_rip := rip\<rparr>\<rparr>"
    have same: "bp_ok ?s = bp_ok ?e" "armed_set ?s = armed_set ?e" "armed_set ?st1 = armed_set ?e"
      using same_table [of ?s ?e] same_table [of ?st1 ?e] st2(2) by (simp_all add: on_resume_step_def)
    show ?thesis
      using trap_missed [of ?s dbg S rx2] same ok miss st2(2) by (simp add: on_resume_step_def)
  qed
  ultimately show ?thesis
    using trap by blast
qed

section \<open>A stub that stopped at a breakpoint\<close>

definition hit_stub :: stub where
  "hit_stub = \<lparr>bp_tbl = Some \<lparr>bp_addr = 0x1000, bp_orig = 0x55, bp_armed = True\<rparr> # replicate 63 None, bp_replant = None,
     bp_mem = text_machine\<lparr>ram := (ram text_machine)(0x1000 := 0xCC)\<rparr>, st_tf = TrapFrame_default\<lparr>tf_rip := 0x1001\<rparr>, st_out = [],
     st_inbuf = replicate INBUF_LEN 0, st_outbuf = replicate OUTBUF_LEN 0, st_tmp = replicate TMP_LEN 0, st_noack = False,
     st_bkpt = None, st_active = False\<rparr>"

lemma hit_stub_facts:
  shows "entries hit_stub a = (if a = 0x1000 then Some \<lparr>bp_addr = 0x1000, bp_orig = 0x55, bp_armed = True\<rparr> else None)"
    and "bp_ok hit_stub" "traps_in hit_stub" "armed_set hit_stub = {0x1000}"
    and "tf_rip (st_tf hit_stub) = 0x1000 + 1" "sticky (bp_mem hit_stub) b" "\<not> st_active hit_stub" "st_bkpt hit_stub = None"
      "length (st_inbuf hit_stub) = INBUF_LEN"
proof -
  have none: "find_bp P (replicate n None) k = None" for P n k
    by (simp add: find_bp_None)
  show e: "entries hit_stub a = (if a = 0x1000 then Some \<lparr>bp_addr = 0x1000, bp_orig = 0x55, bp_armed = True\<rparr> else None)" for a
    using none by (simp add: entries_def entry_of_def hit_stub_def)
  have "tbl_ok (bp_tbl hit_stub)"
    by (auto simp: tbl_ok_def hit_stub_def MAX_BP_def nth_Cons' split: if_splits)
  then show "bp_ok hit_stub"
    by (simp add: bp_ok_def e planted_ok_def) (simp add: hit_stub_def text_machine_def)
  show "traps_in hit_stub"
    by (simp add: traps_in_def e is_armed_def) (simp add: hit_stub_def)
  show "armed_set hit_stub = {0x1000}"
    by (auto simp: armed_set_def e is_armed_def split: if_splits)
  show "tf_rip (st_tf hit_stub) = 0x1000 + 1" "sticky (bp_mem hit_stub) b" "\<not> st_active hit_stub" "st_bkpt hit_stub = None"
      "length (st_inbuf hit_stub) = INBUF_LEN"
    by (simp_all add: hit_stub_def text_machine_def)
qed

definition no_sections :: Sections where
  "no_sections = \<lparr>text_start = 0, text_end = 0x2000, rodata_start = 0, rodata_end = 0, data_start = 0x2000, data_end = 0x3000,
     bss_start = 0, bss_end = 0\<rparr>"

theorem continue_traps_again_witness:
  "\<exists>st'. isr_bp_rust True no_sections (frame (ascii ''c'') @ []) hit_stub = Ok (Some ([], st', Resumed)) \<and>
    tf_rip (st_tf st') = 0x1000 \<and> 0x1000 \<in> armed_set st' \<and> ram (bp_mem st') 0x1000 = 0xCC"
  by (rule continue_traps_again) (simp_all add: hit_stub_facts)

theorem removed_breakpoint_returns_witness:
  "\<exists>st'. isr_bp_rust True no_sections (frame (ascii ''z0,'' @ hex_text 0x1000 @ ascii '',1'') @ frame (ascii ''c'') @ []) hit_stub =
      Ok (Some ([], st', Resumed)) \<and>
    tf_rip (st_tf st') = 0x1000 \<and> 0x1000 \<in> armed_set st' \<and> ram (bp_mem st') 0x1000 = 0xCC"
  by (rule removed_breakpoint_returns) (simp_all add: hit_stub_facts)

theorem step_loses_breakpoint_witness:
  "\<exists>st1. isr_bp_rust True no_sections (frame (ascii ''s'') @ []) hit_stub = Ok (Some ([], st1, Resumed)) \<and>
    tf_rip (st_tf st1) = 0x1000 \<and> armed_set st1 = {} \<and>
    (\<exists>st2. isr_db_rust True no_sections (frame (ascii ''c'') @ []) (st1\<lparr>st_tf := (st_tf st1)\<lparr>tf_rip := 0x1003\<rparr>\<rparr>) = Ok (Some ([], st2, Resumed)) \<and>
      armed_set st2 = {})"
proof -
  obtain st1 where st1: "isr_bp_rust True no_sections (frame (ascii ''s'') @ []) hit_stub = Ok (Some ([], st1, Resumed))"
    "tf_rip (st_tf st1) = 0x1000" "armed_set st1 = {}"
    and db: "\<And>rip. \<exists>st2. isr_db_rust True no_sections (frame (ascii ''c'') @ []) (st1\<lparr>st_tf := (st_tf st1)\<lparr>tf_rip := rip\<rparr>\<rparr>) =
      Ok (Some ([], st2, Resumed)) \<and> tf_rip (st_tf st2) = rip \<and> armed_set st2 = {}"
    using step_loses_breakpoint [of hit_stub "0x1000" True no_sections "[]" "[]"] hit_stub_facts(2-9) by auto
  from db [of "0x1003"] obtain st2 where "isr_db_rust True no_sections (frame (ascii ''c'') @ []) (st1\<lparr>st_tf := (st_tf st1)\<lparr>tf_rip := 0x1003\<rparr>\<rparr>) =
      Ok (Some ([], st2, Resumed))" "armed_set st2 = {}"
    by blast
  with st1 show ?thesis
    by blast
qed


theorem query_session_ends_witness:
  "\<exists>st' stop. serve True no_sections (concat (map frame [ascii ''?'', ascii ''QStartNoAckMode'', ascii ''qC'']) @ frame (ascii ''k'') @ [0x41]) hit_stub =
      Ok (Some ([0x41], st', KillTask)) \<and> send_t_stop 5 1 0x1001 [] = Ok stop \<and>
    st_out st' = stop @ [0x2B] @ frame (ascii ''S05'') @ [0x2B] @ frame (ascii ''OK'') @ frame (ascii ''QC1'')"
proof -
  have "\<forall>p\<in>set [ascii ''?'', ascii ''QStartNoAckMode'', ascii ''qC'']. is_query p \<and> 0x23 \<notin> set p \<and> length p \<le> INBUF_LEN"
    by (simp add: is_query_def ascii_def INBUF_LEN_def)
  note s = query_session_ends [OF this hit_stub_facts(9) hit_stub_facts(7), of True no_sections "[0x41]"]
  have "answers False [ascii ''?'', ascii ''QStartNoAckMode'', ascii ''qC''] =
      [0x2B] @ frame (ascii ''S05'') @ [0x2B] @ frame (ascii ''OK'') @ frame (ascii ''QC1'')"
    by code_simp
  moreover have "st_out hit_stub = []" "st_noack hit_stub = False"
    by (simp_all add: hit_stub_def)
  ultimately show ?thesis
    using s hit_stub_facts(5) by auto
qed

end
