(* ===== verification/Rsp_Mem.thy ===== *)
theory Rsp_Mem
  imports Rsp_Break
begin

unbundle bit_operations_syntax

text \<open>The memory packets: what a write stores, what a read shows, and where the two go wrong.\<close>

section \<open>Loops over bytes\<close>

lemma decode_loop_hexs:
  assumes "drop (off + i * 2) inbuf = hexs bs @ rest" "i + length bs \<le> length tmp"
  shows "decode_loop inbuf off (length bs) i (tmp, out) = Ok (take i tmp @ bs @ drop (i + length bs) tmp, out)"
  using assms
proof (induction bs arbitrary: i tmp)
  case (Cons b bs)
  have len: "off + i * 2 + 1 < length inbuf"
    using arg_cong [OF Cons.prems(1), of length] by (simp add: hexb_def)
  have nth: "inbuf ! (off + i * 2) = hex4 (drop_bit 4 b AND 0xF)" "inbuf ! (off + i * 2 + 1) = hex4 (b AND 0xF)"
    using arg_cong [OF Cons.prems(1), of "\<lambda>xs. xs ! 0"] arg_cong [OF Cons.prems(1), of "\<lambda>xs. xs ! 1"] len by (simp_all add: hexb_def)
  have idx: "idx inbuf (off + i * 2) = Ok (hex4 (drop_bit 4 b AND 0xF))" "idx inbuf (off + i * 2 + 1) = Ok (hex4 (b AND 0xF))"
    using len nth by (simp_all add: idx_def)
  have "drop (off + Suc i * 2) inbuf = hexs bs @ rest"
    using arg_cong [OF Cons.prems(1), of "drop 2"] by (simp add: hexb_def algebra_simps)
  then have "decode_loop inbuf off (length bs) (Suc i) (tmp[i := b], out) = Ok (take (Suc i) (tmp[i := b]) @ bs @ drop (Suc i + length bs) (tmp[i := b]), out)"
    using Cons.prems(2) by (intro Cons.IH) simp_all
  moreover have "take (Suc i) (tmp[i := b]) = take i tmp @ [b]"
    using Cons.prems(2) by (simp add: take_Suc_conv_app_nth)
  moreover have "i < length tmp"
    using Cons.prems(2) by simp
  ultimately show ?case
    by (simp only: length_Cons decode_loop.simps idx rbind.simps from_hex_hex4 [OF low_nibble] option.case prod.case byte_nibbles if_True) simp
qed simp

lemma write_bytes_ok:
  assumes "\<forall>k<length bs. mapped m (a + of_nat k) \<and> sticky m (a + of_nat k) \<and> \<not> (cr0_wp m \<and> ro_page m (a + of_nat k))" "length bs \<le> 2 ^ 32"
  shows "\<exists>m'. write_bytes a bs m = Ok m' \<and> (\<forall>k<length bs. ram m' (a + of_nat k) = bs ! k)"
  using assms
proof (induction bs arbitrary: a m)
  case (Cons b bs)
  let ?m = "m\<lparr>ram := (ram m)(a := b)\<rparr>"
  have w: "write_byte a b m = Ok ?m"
    using Cons.prems(1) [rule_format, of 0] by (auto simp: write_byte_def)
  have "mapped ?m (a + 1 + of_nat k) \<and> sticky ?m (a + 1 + of_nat k) \<and> \<not> (cr0_wp ?m \<and> ro_page ?m (a + 1 + of_nat k))" if "k < length bs" for k
    using Cons.prems(1) [rule_format, of "Suc k"] that by (simp add: add.assoc)
  then obtain m' where m': "write_bytes (a + 1) bs ?m = Ok m'" "\<forall>k<length bs. ram m' (a + 1 + of_nat k) = bs ! k"
    using Cons.IH [of ?m "a + 1"] Cons.prems(2) by auto
  have "a \<noteq> a + 1 + of_nat k" if "k < length bs" for k
  proof -
    have "unat (of_nat (Suc k) :: u64) = Suc k"
      using that Cons.prems(2) by (intro unat_of_nat_64) simp
    then have "of_nat (Suc k) \<noteq> (0 :: u64)"
      by (metis Zero_not_Suc unat_0)
    then show ?thesis
      by (simp add: add.assoc)
  qed
  then have "ram m' a = b"
    using write_bytes_frame [OF m'(1), of a] by fastforce
  then have "ram m' (a + of_nat k) = (b # bs) ! k" if "k < length (b # bs)" for k
    using m'(2) that by (cases k) (simp_all add: add.assoc)
  then show ?case
    using w m'(1) by auto
qed simp

lemma dump_mem_eq:
  assumes "\<forall>k<n. mapped m (a + of_nat k)"
  shows "dump_mem m a n ow = put_bytes (map (\<lambda>k. ram m (a + of_nat k)) [0..<n]) ow"
  using assms
proof (induction n arbitrary: a ow)
  case (Suc n)
  have "map (\<lambda>k. ram m (a + of_nat k)) [0..<Suc n] = ram m a # map (\<lambda>k. ram m (a + 1 + of_nat k)) [0..<n]"
    by (simp add: upt_conv_Cons map_Suc_upt [symmetric] add.assoc del: upt_Suc)
  moreover have "mapped m (a + 1 + of_nat k)" if "k < n" for k
    using Suc.prems [rule_format, of "Suc k"] that by (simp add: add.assoc)
  moreover have "read_byte m a = Ok (ram m a)"
    using Suc.prems [rule_format, of 0] by (simp add: read_byte_def)
  ultimately show ?case
    using Suc.IH [of "a + 1"] by (cases "put8 (ram m a) ow") simp_all
qed simp

section \<open>The packets\<close>

definition m_packet :: "u64 \<Rightarrow> u64 \<Rightarrow> u8 list" where
  "m_packet a n = ascii ''m'' @ hex_text a @ 0x2C # hex_text n"

definition M_packet :: "u64 \<Rightarrow> u64 \<Rightarrow> u8 list \<Rightarrow> u8 list" where
  "M_packet a n ds = ascii ''M'' @ hex_text a @ 0x2C # hex_text n @ 0x3A # ds"

lemma m_packet_facts:
  "0x23 \<notin> set (m_packet a n)" "m_packet a n \<noteq> []" "length (m_packet a n) \<le> INBUF_LEN" "m_packet a n ! 0 = 0x6D"
  using hex_text_facts(5,6) [of a] hex_text_facts(5,6) [of n] by (auto simp: m_packet_def ascii_def INBUF_LEN_def)

lemma m_parse: "parse_addr_len (st_inbuf (got (m_packet a n) st)) 1 (length (m_packet a n)) =
    Ok (Some (a, n, length (hex_text a) + 1 + length (hex_text n)))"
  by (rule parse_addr_len_text [where rest = "[]"]) (simp_all add: m_packet_def ascii_def)

lemma M_packet_facts:
  assumes "0x23 \<notin> set ds" "length ds \<le> 2 * TMP_LEN"
  shows "0x23 \<notin> set (M_packet a n ds)" "M_packet a n ds \<noteq> []" "length (M_packet a n ds) \<le> INBUF_LEN" "M_packet a n ds ! 0 = 0x4D"
  using assms hex_text_facts(5,6) [of a] hex_text_facts(5,6) [of n] by (auto simp: M_packet_def ascii_def INBUF_LEN_def TMP_LEN_def)

lemma M_parse: "parse_addr_len (st_inbuf (got (M_packet a n ds) st)) 1 (length (M_packet a n ds)) =
    Ok (Some (a, n, length (hex_text a) + 1 + length (hex_text n)))"
  by (rule parse_addr_len_text [where rest = "0x3A # ds"]) (simp_all add: M_packet_def ascii_def is_hex_def from_hex_def)

lemma set_hexs: "0x23 \<notin> set (hexs bs)"
proof (induction bs)
  case (Cons b bs)
  then show ?case
    using hex4_graphic [OF low_nibble, of b] hex4_graphic [OF low_nibble, of "drop_bit 4 b"] by (auto simp: hexb_def)
qed simp

text \<open>A read that the policy, or the window around the stack pointer, allows.\<close>

definition m_allowed :: "Sections \<Rightarrow> stub \<Rightarrow> u64 \<Rightarrow> u64 \<Rightarrow> bool" where
  "m_allowed S st a n \<longleftrightarrow> n \<noteq> 0 \<and> n \<le> of_nat (OUTBUF_LEN div 2) \<and> can_read S a n \<or>
     saturating_sub (tf_rsp (st_tf st)) (128 * 1024) \<le> a \<and> saturating_add a n \<le> saturating_add (tf_rsp (st_tf st)) (128 * 1024)"

lemma m_command:
  assumes "m_allowed S st a n"
  shows "rsp_command dbg S (length (m_packet a n)) (got (m_packet a n) st) =
    rbind (dump_mem (bp_mem st) a (unat n) (st_outbuf st, 0)) (\<lambda>(outbuf, w).
    rbind (send_pkt_raw outbuf w (st_out (got (m_packet a n) st))) (\<lambda>out.
      Ok ((got (m_packet a n) st)\<lparr>st_outbuf := outbuf, st_out := out\<rparr>, None)))"
proof -
  let ?g = "got (m_packet a n) st"
  have i: "idx (st_inbuf ?g) 0 = Ok 0x6D"
    using m_packet_facts(2,4) by (auto simp: idx_def nth_append)
  have ob: "st_outbuf ?g = st_outbuf st"
    by (simp add: got_def)
  have "cmd_m S (length (m_packet a n)) ?g =
    rbind (dump_mem (bp_mem st) a (unat n) (st_outbuf st, 0)) (\<lambda>(outbuf, w).
    rbind (send_pkt_raw outbuf w (st_out ?g)) (\<lambda>out. Ok (?g\<lparr>st_outbuf := outbuf, st_out := out\<rparr>)))"
    using assms unfolding cmd_m_def m_parse rbind.simps option.case prod.case Let_def got_rest(2,4) ob m_allowed_def by auto
  then show ?thesis
    unfolding rsp_command_def i rbind.simps Let_def answered_def
    by (cases "dump_mem (bp_mem st) a (unat n) (st_outbuf st, 0)")
      (auto simp: split_beta rbind_assoc simp del: got_rest)
qed

lemma M_command:
  assumes "n \<noteq> 0" "unat n \<le> TMP_LEN" "can_write S a n" "length ds = 2 * unat n" "0x23 \<notin> set ds"
    and "\<And>off. drop off (st_inbuf (got (M_packet a n ds) st)) = ds @ drop (length (M_packet a n ds)) (st_inbuf st) \<Longrightarrow>
      decode_loop (st_inbuf (got (M_packet a n ds) st)) off (unat n) 0 (st_tmp st, st_out (got (M_packet a n ds) st)) = Ok (tmp, out)"
    and "write_bytes a (take (unat n) tmp) (bp_mem st) = Ok m"
  shows "rsp_command dbg S (length (M_packet a n ds)) (got (M_packet a n ds) st) =
    Ok (reply ''OK'' ((got (M_packet a n ds) st)\<lparr>st_tmp := tmp, st_out := out, bp_mem := m\<rparr>), None)"
proof -
  let ?p = "M_packet a n ds" and ?u = "length (hex_text a) + 1 + length (hex_text n)"
  let ?g = "got ?p st"
  have len: "length ?p = 1 + ?u + 1 + length ds"
    by (simp add: M_packet_def ascii_def)
  have nth: "?p ! (1 + ?u) = 0x3A"
    by (simp add: M_packet_def ascii_def nth_append)
  have i: "idx (st_inbuf ?g) 0 = Ok 0x4D" "idx (st_inbuf ?g) (1 + ?u) = Ok 0x3A"
    using M_packet_facts(2,4) [OF assms(5)] assms(2,4) len nth by (auto simp: idx_def nth_append)
  have "drop (1 + ?u + 1) ?p = ds"
    by (simp add: M_packet_def ascii_def)
  then have "drop (1 + ?u + 1) (st_inbuf ?g) = ds @ drop (length ?p) (st_inbuf st)"
    using len by simp
  note dec = assms(6) [OF this]
  have "\<not> of_nat TMP_LEN < n"
    using assms(2) by (simp add: word_less_nat_alt TMP_LEN_def)
  moreover have "\<not> length ?p \<le> 1 + ?u" "length ?p - (1 + ?u + 1) = unat n * 2" "st_tmp ?g = st_tmp st"
    using len assms(4) by (simp_all add: got_def)
  ultimately have "cmd_M S (length ?p) ?g = Ok (reply ''OK'' (?g\<lparr>st_tmp := tmp, st_out := out, bp_mem := m\<rparr>))"
    using assms(1,3) unfolding cmd_M_def M_parse rbind.simps option.case prod.case Let_def
    by (simp only: if_False i rbind.simps dec got_rest(2) assms(7) prod.case) simp
  then show ?thesis
    unfolding rsp_command_def i(1) rbind.simps Let_def answered_def by simp
qed

lemma got_bufs [simp]: "st_tmp (got p st) = st_tmp st" "st_outbuf (got p st) = st_outbuf st"
  by (simp_all add: got_def)

lemma can_write_read: "can_write S a n \<Longrightarrow> can_read S a n"
  by (auto simp: can_write_def can_read_def in_any_range_def)

text \<open>C20: what is written is read back. A memory write packet for at most \<open>TMP_LEN\<close> bytes of a range that the policy
  allows, and that is mapped and writable, is acknowledged and stores exactly its bytes; a memory read
  packet for the same range that follows is answered with exactly the digits of those bytes; and the
  session goes on with the rest of the input.\<close>

theorem write_then_read:
  assumes "bs \<noteq> []" "length bs \<le> TMP_LEN" "n = of_nat (length bs)" "can_write S a n"
    and "\<forall>k<length bs. mapped (bp_mem st) (a + of_nat k) \<and> sticky (bp_mem st) (a + of_nat k) \<and> \<not> (cr0_wp (bp_mem st) \<and> ro_page (bp_mem st) (a + of_nat k))"
    and "length (st_inbuf st) = INBUF_LEN" "length (st_outbuf st) = OUTBUF_LEN" "length (st_tmp st) = TMP_LEN" "st_noack st"
  shows "\<exists>st'. run_loop dbg S (frame (M_packet a n (hexs bs)) @ frame (m_packet a n) @ rx) st = run_loop dbg S rx st' \<and>
    st_out st' = st_out st @ frame (ascii ''OK'') @ frame (hexs bs) \<and> (\<forall>k<length bs. ram (bp_mem st') (a + of_nat k) = bs ! k)"
proof -
  let ?p = "M_packet a n (hexs bs)" and ?q = "m_packet a n"
  have n: "unat n = length bs" "n \<noteq> 0"
    using assms(1-3) unat_of_nat_64 [of "length bs"] by (auto simp: TMP_LEN_def)
  have pf: "0x23 \<notin> set ?p" "?p \<noteq> []" "length ?p \<le> INBUF_LEN"
    using M_packet_facts [OF set_hexs, of bs a n] assms(2) by simp_all
  obtain m where m: "write_bytes a bs (bp_mem st) = Ok m" "\<forall>k<length bs. ram m (a + of_nat k) = bs ! k"
    using write_bytes_ok [OF assms(5)] assms(2) by (auto simp: TMP_LEN_def)
  let ?tmp = "bs @ drop (length bs) (st_tmp st)"
  have cmd: "rsp_command dbg S (length ?p) (got ?p st) = Ok (reply ''OK'' ((got ?p st)\<lparr>st_tmp := ?tmp, st_out := st_out (got ?p st), bp_mem := m\<rparr>), None)"
    using n assms(2,4,8) m(1) set_hexs decode_loop_hexs [where bs = bs and i = 0 and tmp = "st_tmp st"]
    by (intro M_command) auto
  let ?st1 = "reply ''OK'' ((got ?p st)\<lparr>st_tmp := ?tmp, st_out := st_out (got ?p st), bp_mem := m\<rparr>)"
  have 1: "run_loop dbg S (frame ?p @ frame ?q @ rx) st = run_loop dbg S (frame ?q @ rx) ?st1"
    using run_packet [OF pf assms(6)] cmd by simp
  have len: "length (st_inbuf ?st1) = INBUF_LEN" "length (st_outbuf ?st1) = OUTBUF_LEN"
    using pf(3) assms(6,7) by simp_all
  have bytes: "map (\<lambda>k. ram m (a + of_nat k)) [0..<length bs] = bs"
    using m(2) by (intro nth_equalityI) simp_all
  have "dump_mem m a (length bs) (st_outbuf st, 0) = Ok (hexs bs @ drop (2 * length bs) (st_outbuf st), 2 * length bs)"
    using assms(2,5,7) write_bytes_rest [OF m(1)] put_bytes_eq [of 0 bs "st_outbuf st"]
    by (subst dump_mem_eq) (auto simp: bytes OUTBUF_LEN_def TMP_LEN_def)
  moreover have "m_allowed S ?st1 a n"
    using assms(2,4) can_write_read n unfolding m_allowed_def by (auto simp: OUTBUF_LEN_def TMP_LEN_def word_le_nat_alt)
  ultimately have "rsp_command dbg S (length ?q) (got ?q ?st1) = Ok ((got ?q ?st1)\<lparr>st_outbuf := hexs bs @ drop (2 * length bs) (st_outbuf st),
      st_out := st_out (got ?q ?st1) @ frame (hexs bs)\<rparr>, None)"
    using m_command [of S ?st1 a n dbg] n(1) send_pkt_raw_eq [of "2 * length bs" "hexs bs @ drop (2 * length bs) (st_outbuf st)"] by simp
  then have 2: "run_loop dbg S (frame ?q @ rx) ?st1 = run_loop dbg S rx ((got ?q ?st1)\<lparr>st_outbuf := hexs bs @ drop (2 * length bs) (st_outbuf st),
      st_out := st_out (got ?q ?st1) @ frame (hexs bs)\<rparr>)"
    using run_packet [OF m_packet_facts(1-3) len(1)] by simp
  show ?thesis
    unfolding 1 2 by (rule exI, rule conjI, rule refl) (use m(2) assms(9) in simp)
qed

text \<open>C38: a bad digit does not stop a memory write. When the two digits of a one-byte write packet are not hexadecimal,
  the stub answers with an error and then with a success, and stores at the address whatever byte an
  earlier packet left in its decoding buffer.\<close>

theorem bad_digit_still_writes:
  assumes "from_hex x = None" "x \<noteq> 0x23" "y \<noteq> 0x23" "can_write S a 1"
    and "mapped (bp_mem st) a" "sticky (bp_mem st) a" "\<not> (cr0_wp (bp_mem st) \<and> ro_page (bp_mem st) a)"
    and "length (st_inbuf st) = INBUF_LEN" "length (st_tmp st) = TMP_LEN" "st_noack st"
  shows "\<exists>st'. run_loop dbg S (frame (M_packet a 1 [x, y]) @ rx) st = run_loop dbg S rx st' \<and>
    st_out st' = st_out st @ frame (ascii ''E00'') @ frame (ascii ''OK'') \<and> ram (bp_mem st') a = st_tmp st ! 0"
proof -
  let ?p = "M_packet a 1 [x, y]"
  let ?g = "got ?p st"
  have pf: "0x23 \<notin> set ?p" "?p \<noteq> []" "length ?p \<le> INBUF_LEN"
    using M_packet_facts [of "[x, y]" a 1] assms(2,3) by (simp_all add: TMP_LEN_def)
  obtain t ts where tmp: "st_tmp st = t # ts"
    using assms(9) by (cases "st_tmp st") (auto simp: TMP_LEN_def)
  have w: "write_bytes a (take (unat 1) (st_tmp st)) (bp_mem st) = Ok ((bp_mem st)\<lparr>ram := (ram (bp_mem st))(a := t)\<rparr>)"
    using assms(5-7) tmp by (simp add: write_byte_def)
  have dec: "decode_loop (st_inbuf ?g) off (unat 1) 0 (st_tmp st, st_out ?g) = Ok (st_tmp st, send_pkt (ascii ''E00'') (st_out ?g))"
    if "drop off (st_inbuf ?g) = [x, y] @ r" for off r
  proof -
    have "idx (st_inbuf ?g) off = Ok x" "idx (st_inbuf ?g) (off + 1) = Ok y"
      using arg_cong [OF that, of length] arg_cong [OF that, of "\<lambda>xs. xs ! 0"] arg_cong [OF that, of "\<lambda>xs. xs ! 1"]
      by (simp_all add: idx_def del: got_rest)
    then show ?thesis
      using assms(1) by (simp del: got_rest)
  qed
  have "rsp_command dbg S (length ?p) ?g = Ok (reply ''OK'' (?g\<lparr>st_tmp := st_tmp st, st_out := send_pkt (ascii ''E00'') (st_out ?g),
      bp_mem := (bp_mem st)\<lparr>ram := (ram (bp_mem st))(a := t)\<rparr>\<rparr>), None)"
    using assms(2-4) w dec by (intro M_command) (auto simp: TMP_LEN_def)
  then have 1: "run_loop dbg S (frame ?p @ rx) st = run_loop dbg S rx (reply ''OK'' (?g\<lparr>st_tmp := st_tmp st,
      st_out := send_pkt (ascii ''E00'') (st_out ?g), bp_mem := (bp_mem st)\<lparr>ram := (ram (bp_mem st))(a := t)\<rparr>\<rparr>))"
    using run_packet [OF pf assms(8)] by simp
  show ?thesis
    unfolding 1 by (rule exI, rule conjI, rule refl) (use tmp assms(10) in \<open>simp add: send_pkt_eq\<close>)
qed

lemma put_bytes_overflow: "w \<le> length out \<Longrightarrow> length out < w + 2 * length bs \<Longrightarrow> put_bytes bs (out, w) = Panic OutOfBuffer"
proof (induction bs arbitrary: out w)
  case (Cons b bs)
  then show ?case
    by (cases "w + 1 < length out") (simp_all add: put8_def)
qed simp

text \<open>C39: a long read near the stack overruns the output buffer. A memory read of more than half the output buffer is
  refused by the policy, but not when it lies within 128 KiB of the stopped program's stack pointer: then, on
  mapped memory, the digits are written past the end of the buffer.\<close>

theorem stack_window_overflow:
  assumes "saturating_sub (tf_rsp (st_tf st)) (128 * 1024) \<le> a" "saturating_add a n \<le> saturating_add (tf_rsp (st_tf st)) (128 * 1024)"
    and "OUTBUF_LEN div 2 < unat n" "\<forall>k<unat n. mapped (bp_mem st) (a + of_nat k)"
    and "length (st_inbuf st) = INBUF_LEN" "length (st_outbuf st) = OUTBUF_LEN"
  shows "run_loop dbg S (frame (m_packet a n) @ rx) st = Panic OutOfBuffer"
proof -
  have "dump_mem (bp_mem st) a (unat n) (st_outbuf st, 0) = Panic OutOfBuffer"
    using assms(3,4,6) by (subst dump_mem_eq) (auto simp: OUTBUF_LEN_def intro!: put_bytes_overflow)
  moreover have "m_allowed S st a n"
    using assms(1,2) by (simp add: m_allowed_def)
  ultimately show ?thesis
    using run_packet [OF m_packet_facts(1-3) assms(5)] m_command by simp
qed

section \<open>Applied\<close>

definition open_stub :: stub where
  "open_stub = hit_stub\<lparr>bp_mem := \<lparr>ram = (\<lambda>a. 0), mapped = (\<lambda>a. True), ro_page = (\<lambda>a. False), sticky = (\<lambda>a. True), cr0_wp = True\<rparr>,
     st_tf := TrapFrame_default\<lparr>tf_rsp := 0x10000\<rparr>, st_noack := True\<rparr>"

lemma open_stub_facts:
  "length (st_inbuf open_stub) = INBUF_LEN" "length (st_outbuf open_stub) = OUTBUF_LEN" "length (st_tmp open_stub) = TMP_LEN"
  "st_noack open_stub" "mapped (bp_mem open_stub) a" "sticky (bp_mem open_stub) a" "\<not> ro_page (bp_mem open_stub) a"
  "tf_rsp (st_tf open_stub) = 0x10000" "st_out open_stub = []" "st_tmp open_stub ! 0 = 0"
  by (simp_all add: open_stub_def hit_stub_def TMP_LEN_def)

lemma open_write: "can_write no_sections 0x2000 1" "can_write no_sections 0x2000 2"
  by (simp_all add: can_write_iff write_ranges_def no_sections_def)

theorem write_then_read_witness:
  "\<exists>st'. run_loop True no_sections (frame (M_packet 0x2000 2 (hexs [0xAB, 0xCD])) @ frame (m_packet 0x2000 2) @ []) open_stub = run_loop True no_sections [] st' \<and>
    st_out st' = frame (ascii ''OK'') @ frame (hexs [0xAB, 0xCD]) \<and> ram (bp_mem st') 0x2000 = 0xAB \<and> ram (bp_mem st') 0x2001 = 0xCD"
  using write_then_read [of "[0xAB, 0xCD]" 2 no_sections "0x2000" open_stub True "[]"] open_stub_facts open_write
  by (auto simp: TMP_LEN_def less_Suc_eq)

theorem bad_digit_still_writes_witness:
  "\<exists>st'. run_loop True no_sections (frame (M_packet 0x2000 1 [0x78, 0x79]) @ []) open_stub = run_loop True no_sections [] st' \<and>
    st_out st' = frame (ascii ''E00'') @ frame (ascii ''OK'') \<and> ram (bp_mem st') 0x2000 = 0"
  using bad_digit_still_writes [of "0x78" "0x79" no_sections "0x2000" open_stub True "[]"] open_stub_facts open_write
  by (simp add: from_hex_def)

theorem stack_window_overflow_witness:
  "run_loop True no_sections (frame (m_packet 0x10000 0x1001) @ []) open_stub = Panic OutOfBuffer"
  using stack_window_overflow [of open_stub "0x10000" "0x1001" True no_sections "[]"] open_stub_facts
  by (simp add: OUTBUF_LEN_def saturating_sub_def saturating_add_def)

end
