(* ===== verification/Rsp_Types.thy ===== *)
theory Rsp_Types
  imports Rsp_Mem
begin

unbundle bit_operations_syntax

text \<open>
  The sizes of the stub's static buffers and of its breakpoint table as a type of its state: every operation
  keeps them, and with them no index or slice of the stub is out of range, whatever arrives on the line.
\<close>

definition stub_wt :: "stub \<Rightarrow> bool" where
  "stub_wt st \<longleftrightarrow> length (st_inbuf st) = INBUF_LEN \<and> length (st_outbuf st) = OUTBUF_LEN \<and> length (st_tmp st) = TMP_LEN \<and>
     length (bp_tbl st) = MAX_BP"

text \<open>A result that satisfies \<open>P\<close>, or a panic that is not one of indexing or unwrapping.\<close>

definition safe :: "('a \<Rightarrow> bool) \<Rightarrow> 'a res \<Rightarrow> bool" where
  "safe P r = (case r of Ok x \<Rightarrow> P x | Panic p \<Rightarrow> p \<notin> {OutOfRange, UnwrapNone})"

lemma safe_Ok: "P x \<Longrightarrow> safe P (Ok x)"
  by (simp add: safe_def)

lemma safe_Panic: "p \<notin> {OutOfRange, UnwrapNone} \<Longrightarrow> safe P (Panic p)"
  by (simp add: safe_def)

lemma safe_bind: "safe Q r \<Longrightarrow> (\<And>x. r = Ok x \<Longrightarrow> Q x \<Longrightarrow> safe P (f x)) \<Longrightarrow> safe P (rbind r f)"
  by (cases r) (simp_all add: safe_def)

lemma safe_if: "(c \<Longrightarrow> safe P a) \<Longrightarrow> (\<not> c \<Longrightarrow> safe P b) \<Longrightarrow> safe P (if c then a else b)"
  by simp

lemma safe_mono: "safe Q r \<Longrightarrow> (\<And>x. Q x \<Longrightarrow> P x) \<Longrightarrow> safe P r"
  by (cases r) (simp_all add: safe_def)

lemma safe_idx: "i < length xs \<Longrightarrow> safe (\<lambda>_. True) (idx xs i)"
  by (simp add: safe_def idx_def)

section \<open>Parsing\<close>

lemma safe_parse_loop: "tot \<le> length inbuf \<Longrightarrow> safe (\<lambda>_. True) (parse_hex_loop inbuf off tot n i)"
proof (induction inbuf off tot n i rule: parse_hex_loop.induct)
  case (1 inbuf off tot n i)
  show ?case
  proof (cases "off + i < tot")
    case True
    then show ?thesis
      using 1 by (subst parse_hex_loop.simps) (auto simp: idx_def safe_Ok split: option.splits)
  next
    case False
    then show ?thesis
      by (subst parse_hex_loop.simps) (simp add: safe_Ok)
  qed
qed

lemma safe_parse_hex: "tot \<le> length inbuf \<Longrightarrow> safe (\<lambda>_. True) (parse_hex_usize inbuf off tot)"
  unfolding parse_hex_usize_def by (rule safe_bind [OF safe_parse_loop]) (auto simp: safe_Ok split_beta)

lemma safe_parse_addr_len:
  assumes "tot \<le> length inbuf"
  shows "safe (\<lambda>_. True) (parse_addr_len inbuf off tot)"
proof -
  have tail: "safe (\<lambda>_. True) (rbind (parse_hex_usize inbuf o2 tot) (\<lambda>r2. case r2 of None \<Rightarrow> Ok None | Some (len, ul) \<Rightarrow> Ok (Some (addr, len, ua + 1 + ul))))"
    for o2 addr ua
    by (rule safe_bind [OF safe_parse_hex [OF assms]]) (auto simp: safe_Ok split: option.splits)
  show ?thesis
    unfolding parse_addr_len_def
    by (rule safe_bind [OF safe_parse_hex [OF assms]])
      (use assms tail in \<open>auto simp: safe_Ok idx_def split: option.splits\<close>)
qed

lemma safe_starts_loop: "i + length pat \<le> length inbuf \<Longrightarrow> safe (\<lambda>_. True) (starts_loop inbuf i pat)"
  by (simp add: starts_loop_eq safe_Ok)

lemma safe_starts: "tot \<le> length inbuf \<Longrightarrow> safe (\<lambda>_. True) (starts_with inbuf 0 tot pat)"
  by (auto simp: starts_with_def intro: safe_starts_loop safe_Ok)

section \<open>Writing into the buffers\<close>

lemma safe_put8: "length (fst ow) = n \<Longrightarrow> safe (\<lambda>ow'. length (fst ow') = n) (put8 v ow)"
  by (cases ow) (simp add: put8_def safe_def)

lemma safe_put_bytes: "length (fst ow) = n \<Longrightarrow> safe (\<lambda>ow'. length (fst ow') = n) (put_bytes bs ow)"
  by (induction bs arbitrary: ow) (auto intro: safe_bind safe_put8 safe_Ok)

lemma safe_put_each:
  assumes "\<And>v ow. length (fst ow) = n \<Longrightarrow> safe (\<lambda>ow'. length (fst ow') = n) (put v ow)" "length (fst ow) = n"
  shows "safe (\<lambda>ow'. length (fst ow') = n) (put_each put vs ow)"
  using assms(2)
proof (induction vs arbitrary: ow)
  case (Cons v vs)
  show ?case
    unfolding put_each.simps by (rule safe_bind [OF assms(1) [OF Cons.prems] Cons.IH])
qed (simp add: safe_Ok)

lemmas safe_puts = safe_put8 safe_put_bytes [where bs = "le_bytes 2 v" for v :: u16, folded put16_def]
  safe_put_bytes [where bs = "le_bytes 4 v" for v :: u32, folded put32_def] safe_put_bytes [where bs = "le_bytes 8 v" for v :: u64, folded put64_def]

lemma safe_put_bind:
  "safe (\<lambda>ow. length (fst ow) = n) r \<Longrightarrow> (\<And>ow. length (fst ow) = n \<Longrightarrow> safe P (f ow)) \<Longrightarrow> safe P (rbind r f)"
  by (rule safe_bind)

lemma safe_write_g: "length out = n \<Longrightarrow> safe (\<lambda>ow. length (fst ow) = n) (write_g out t)"
  unfolding write_g_def
  by (intro safe_put_bind [where n = n]; (rule safe_put_each safe_puts)+; (assumption | simp))

lemma safe_read_byte: "safe (\<lambda>_. True) (read_byte m a)"
  by (simp add: read_byte_def safe_def)

lemma safe_write_byte: "safe (\<lambda>_. True) (write_byte a v m)"
  by (simp add: write_byte_def safe_def)

lemma safe_write_bytes: "safe (\<lambda>_. True) (write_bytes a bs m)"
  by (induction bs arbitrary: a m) (auto intro!: safe_bind [OF safe_write_byte] safe_Ok)

lemma safe_dump: "length (fst ow) = n \<Longrightarrow> safe (\<lambda>ow'. length (fst ow') = n) (dump_mem m a k ow)"
proof (induction k arbitrary: a ow)
  case (Suc k)
  show ?case
    unfolding dump_mem.simps by (rule safe_bind [OF safe_read_byte], rule safe_bind [OF safe_put8 [OF Suc.prems]], rule Suc.IH)
qed (simp add: safe_Ok)

lemma safe_decode:
  assumes "off + 2 * (i + n) \<le> length inbuf" "length (fst to) = k"
  shows "safe (\<lambda>to'. length (fst to') = k) (decode_loop inbuf off n i to)"
  using assms
proof (induction inbuf off n i to rule: decode_loop.induct)
  case (2 inbuf off n i tmp out)
  have i: "off + i * 2 < length inbuf" "off + i * 2 + 1 < length inbuf"
    using "2.prems"(1) by simp_all
  show ?case
    using "2.IH" "2.prems" i by (auto simp: idx_def safe_def split: option.splits)
qed (simp add: safe_Ok)

section \<open>Commands\<close>

lemma wt_upd [simp]:
  "stub_wt (reply p st) = stub_wt st" "stub_wt (st\<lparr>st_out := out\<rparr>) = stub_wt st" "stub_wt (st\<lparr>st_tf := t\<rparr>) = stub_wt st"
  "stub_wt (st\<lparr>st_noack := na\<rparr>) = stub_wt st" "stub_wt (st\<lparr>bp_mem := m\<rparr>) = stub_wt st" "stub_wt (st\<lparr>st_bkpt := bk\<rparr>) = stub_wt st"
  "stub_wt (st\<lparr>st_active := ac\<rparr>) = stub_wt st" "stub_wt (st\<lparr>bp_replant := h\<rparr>) = stub_wt st"
  by (simp_all add: stub_wt_def)

lemma safe_with_wp: "(\<And>m. safe (\<lambda>_. True) (f m)) \<Longrightarrow> safe (\<lambda>_. True) (with_wp_disabled f m)"
  by (auto simp: with_wp_disabled_def intro: safe_bind safe_Ok)

lemma safe_insert:
  assumes "stub_wt st"
  shows "safe (\<lambda>(b, st'). stub_wt st') (bp_insert a st)"
  unfolding bp_insert_def
  by (cases "find_slot a (bp_tbl st) 0 None")
    (use assms in \<open>auto intro!: safe_Ok safe_bind [OF safe_read_byte] safe_bind [OF safe_with_wp [OF safe_write_byte]] simp: stub_wt_def\<close>)

lemma safe_remove:
  assumes "stub_wt st"
  shows "safe (\<lambda>(b, st'). stub_wt st') (bp_remove a st)"
proof -
  have "safe (\<lambda>_. True) (with_wp_disabled (write_byte a v) m)" for v m
    by (rule safe_with_wp [OF safe_write_byte])
  then show ?thesis
    unfolding bp_remove_def using assms
    by (auto intro!: safe_Ok safe_bind [of "\<lambda>_. True"] simp: stub_wt_def split: option.splits)
qed

lemma safe_q: "stub_wt st \<Longrightarrow> len \<le> INBUF_LEN \<Longrightarrow> safe stub_wt (cmd_q len st)"
proof -
  assume wt: "stub_wt st" "len \<le> INBUF_LEN"
  then have "safe (\<lambda>_. True) (query_reply qs (st_inbuf st) len)" for qs
    by (induction qs) (auto intro!: safe_Ok safe_bind [OF safe_starts] simp: stub_wt_def)
  then show "safe stub_wt (cmd_q len st)"
    unfolding cmd_q_def using wt by (auto intro!: safe_bind [of "\<lambda>_. True"] safe_Ok)
qed

lemma safe_Q: "stub_wt st \<Longrightarrow> len \<le> INBUF_LEN \<Longrightarrow> safe stub_wt (cmd_Q len st)"
  unfolding cmd_Q_def by (rule safe_bind [OF safe_starts]) (auto simp: safe_Ok stub_wt_def reply_def)

lemma safe_send_raw: "safe (\<lambda>_. True) (send_pkt_raw buf n out)"
  by (simp add: send_pkt_raw_def safe_def)

lemma safe_g: "stub_wt st \<Longrightarrow> safe stub_wt (cmd_g st)"
  unfolding cmd_g_def
  by (rule safe_bind [OF safe_write_g [OF refl]])
    (auto intro!: safe_bind [OF safe_send_raw] safe_Ok simp: stub_wt_def split_beta)

lemma safe_G: "stub_wt st \<Longrightarrow> len \<le> INBUF_LEN \<Longrightarrow> safe stub_wt (cmd_G len st)"
  by (auto simp: cmd_G_def Let_def slice_def stub_wt_def split_beta G_HEX_LEN_def INBUF_LEN_def intro!: safe_Ok)

lemma safe_m:
  assumes "stub_wt st" "len \<le> INBUF_LEN"
  shows "safe stub_wt (cmd_m S len st)"
proof -
  have "safe (\<lambda>_. True) (parse_addr_len (st_inbuf st) 1 len)"
    using assms by (intro safe_parse_addr_len) (simp add: stub_wt_def)
  moreover have "safe stub_wt (rbind (dump_mem (bp_mem st) a n (st_outbuf st, 0)) (\<lambda>(outbuf, w).
      rbind (send_pkt_raw outbuf w (st_out st)) (\<lambda>out. Ok (st\<lparr>st_outbuf := outbuf, st_out := out\<rparr>))))" for a n
    by (rule safe_bind [OF safe_dump [OF refl]])
      (use assms(1) in \<open>auto intro!: safe_bind [OF safe_send_raw] safe_Ok simp: stub_wt_def split_beta\<close>)
  ultimately show ?thesis
    unfolding cmd_m_def Let_def using assms(1)
    by (auto intro!: safe_bind [of "\<lambda>_. True"] safe_Ok split: option.splits)
qed

lemma safe_M:
  assumes "stub_wt st" "len \<le> INBUF_LEN"
  shows "safe stub_wt (cmd_M S len st)"
proof -
  have parse: "safe (\<lambda>_. True) (parse_addr_len (st_inbuf st) 1 len)"
    using assms by (intro safe_parse_addr_len) (simp add: stub_wt_def)
  have colon: "safe (\<lambda>_. True) (if len \<le> 1 + used then Ok True else rbind (idx (st_inbuf st) (1 + used)) (\<lambda>b. Ok (b \<noteq> 0x3A)))" for used
    using assms by (auto simp: stub_wt_def idx_def safe_Ok)
  have stores: "safe stub_wt (rbind (decode_loop (st_inbuf st) off (unat wlen) 0 (st_tmp st, st_out st)) (\<lambda>(tmp, out).
      rbind (write_bytes addr (take (unat wlen) tmp) (bp_mem st)) (\<lambda>m. Ok (reply ''OK'' (st\<lparr>st_tmp := tmp, st_out := out, bp_mem := m\<rparr>)))))"
    if "len - off = unat wlen * 2" "wlen \<noteq> 0" for off wlen addr
  proof -
    have "unat wlen \<noteq> 0"
      using that(2) by (simp add: unat_eq_zero)
    then have "off + 2 * (0 + unat wlen) \<le> length (st_inbuf st)"
      using that(1) assms by (simp add: stub_wt_def)
    from safe_decode [OF this refl] show ?thesis
      by (rule safe_bind) (use assms(1) in \<open>auto intro!: safe_bind [OF safe_write_bytes] safe_Ok simp: stub_wt_def split_beta reply_def\<close>)
  qed
  show ?thesis
    unfolding cmd_M_def Let_def
  proof (rule safe_bind [OF parse], goal_cases)
    case (1 r)
    show ?case
    proof (cases r)
      case (Some p)
      then show ?thesis
        by (cases p; simp only: option.case prod.case)
          (intro safe_bind [OF colon] safe_if safe_Ok stores; simp add: assms(1))
    qed (simp add: safe_Ok assms(1))
  qed
qed

lemma safe_Z: "stub_wt st \<Longrightarrow> len \<le> INBUF_LEN \<Longrightarrow> safe stub_wt (cmd_Z len st)" "stub_wt st \<Longrightarrow> len \<le> INBUF_LEN \<Longrightarrow> safe stub_wt (cmd_z len st)"
proof -
  assume wt: "stub_wt st" "len \<le> INBUF_LEN"
  have parse: "safe (\<lambda>_. True) (parse_hex_usize (st_inbuf st) 3 len)"
    using wt by (intro safe_parse_hex) (simp add: stub_wt_def)
  have "safe stub_wt (rbind (bp_insert a st) (\<lambda>(ok, st'). Ok (reply (p ok) st')))" "safe stub_wt (rbind (bp_remove a st) (\<lambda>(ok, st'). Ok (reply (p ok) st')))" for a p
    by (rule safe_bind [OF safe_insert [OF wt(1)]], auto intro: safe_Ok) (rule safe_bind [OF safe_remove [OF wt(1)]], auto intro: safe_Ok)
  then show "safe stub_wt (cmd_Z len st)" "safe stub_wt (cmd_z len st)"
    unfolding cmd_Z_def cmd_z_def using wt(1)
    by (auto intro!: safe_bind [OF parse] safe_Ok split: option.splits)
qed

lemma safe_continue: "stub_wt st \<Longrightarrow> safe stub_wt (resume_continue dbg st)"
proof -
  assume wt: "stub_wt st"
  have add: "safe (\<lambda>_. True) (u_add dbg a (1 :: u64))" for a
    by (simp add: u_add_def safe_def)
  show ?thesis
    unfolding resume_continue_def Let_def using wt
    by (auto intro!: safe_Ok safe_bind [OF safe_write_byte] safe_bind [OF add] split: option.splits)
qed

definition step_wt :: "stub \<times> Outcome option \<Rightarrow> bool" where
  "step_wt x \<longleftrightarrow> stub_wt (fst x)"

lemma safe_answered: "safe stub_wt r \<Longrightarrow> safe step_wt (answered r)" "safe stub_wt r \<Longrightarrow> safe step_wt (ended oc r)"
  by (cases r; simp add: safe_def answered_def ended_def step_wt_def)+

lemma safe_command:
  assumes "stub_wt st" "len \<le> INBUF_LEN"
  shows "safe step_wt (rsp_command dbg S len st)"
proof -
  have first: "safe (\<lambda>_. True) (idx (st_inbuf st) 0)"
    using assms(1) by (intro safe_idx) (simp add: stub_wt_def INBUF_LEN_def)
  have starts: "safe (\<lambda>_. True) (starts_with (st_inbuf st) 0 len pat)" for pat
    using assms by (intro safe_starts) (simp add: stub_wt_def)
  show ?thesis
    unfolding rsp_command_def Let_def
    by (intro safe_bind [OF first] safe_if safe_bind [OF starts] safe_answered safe_q safe_Q safe_g safe_G safe_m safe_M safe_Z
          safe_continue safe_Ok assms)
      (simp_all add: step_wt_def assms(1) resume_step_def)
qed

section \<open>Sessions\<close>

lemma recv_body_wt:
  "recv_body rx inbuf len cks = Some (rx', inbuf', len', cks') \<Longrightarrow> len \<le> INBUF_LEN \<Longrightarrow> length inbuf' = length inbuf \<and> len' \<le> INBUF_LEN"
  by (induction rx inbuf len cks rule: recv_body.induct) (auto split: if_splits)

lemma recv_pkt_wt:
  "recv_pkt_len na rx out inbuf = Some (rx', out', inbuf', len) \<Longrightarrow> length inbuf' = length inbuf \<and> len \<le> INBUF_LEN"
proof (induction na rx out inbuf rule: recv_pkt_len.induct)
  case (1 na rx out inbuf)
  show ?case
    using "1.prems" "1.IH"
    by (subst (asm) recv_pkt_len.simps)
      (fastforce simp: Let_def INBUF_LEN_def split: list.splits if_splits option.splits prod.splits dest: recv_body_wt)
qed

definition session_wt :: "(u8 list \<times> stub \<times> 'a) option \<Rightarrow> bool" where
  "session_wt r = (case r of None \<Rightarrow> True | Some (rx, st, oc) \<Rightarrow> stub_wt st)"

lemma session_wt_simps [simp]: "session_wt None" "session_wt (Some (rx, st, oc)) = stub_wt st"
  by (simp_all add: session_wt_def)

lemma safe_loop: "stub_wt st \<Longrightarrow> safe session_wt (run_loop dbg S rx st)"
proof (induction dbg S rx st rule: run_loop.induct)
  case (1 dbg S rx st)
  show ?case
  proof (cases "recv_pkt_len (st_noack st) rx (st_out st) (st_inbuf st)")
    case None
    then show ?thesis
      by (subst run_loop.simps) (simp add: safe_Ok)
  next
    case (Some p)
    then obtain rx1 out inbuf len where r: "recv_pkt_len (st_noack st) rx (st_out st) (st_inbuf st) = Some (rx1, out, inbuf, len)"
      by (cases p) simp
    let ?st = "st\<lparr>st_out := out, st_inbuf := inbuf\<rparr>"
    have wt: "stub_wt ?st" "len \<le> INBUF_LEN"
      using recv_pkt_wt [OF r] "1.prems" by (simp_all add: stub_wt_def)
    note eq = run_loop.simps [of dbg S rx st, unfolded r option.case prod.case Let_def]
    have next1: "safe session_wt (run_loop dbg S rx1 (reply '''' ?st))" if "len = 0"
      using "1.IH"(1) [OF r refl refl refl refl that] wt(1) by simp
    have next2: "safe session_wt (run_loop dbg S rx1 st2)" if "len \<noteq> 0" "rsp_command dbg S len ?st = Ok (st2, None)" "stub_wt st2" for st2
      using "1.IH"(2) [OF r refl refl refl refl that(1,2) refl refl that(3)] .
    show ?thesis
      unfolding eq
      by (intro safe_if next1 safe_bind [OF safe_command [OF wt]])
        (auto simp: step_wt_def split: option.splits intro!: next2 safe_Ok)
  qed
qed

lemma safe_serve:
  assumes "stub_wt st"
  shows "safe session_wt (serve dbg S rx st)"
proof -
  have "safe session_wt (rsp_run dbg S rx st1)" if "stub_wt st1" for st1
    using safe_loop [of "st1\<lparr>st_out := out\<rparr>" dbg S rx for out] that by (simp add: rsp_run_def stop_reply_frame)
  from this [of "st\<lparr>st_active := True\<rparr>"] show ?thesis
    unfolding serve_def using assms
    by (intro safe_if safe_Ok safe_bind [of session_wt]) (auto simp: safe_Ok split: option.splits)
qed

lemma safe_enter:
  assumes "stub_wt st"
  shows "safe (\<lambda>(rip', hit, st'). stub_wt st') (on_breakpoint_enter rip st)"
  unfolding on_breakpoint_enter_def Let_def
  by (cases "find_bp (\<lambda>bp. bp_addr bp = rip - 1 \<and> bp_armed bp) (bp_tbl st) 0")
    (use assms in \<open>auto intro!: safe_Ok safe_bind [OF safe_with_wp [OF safe_write_byte]] simp: stub_wt_def\<close>)

lemma safe_resume: "stub_wt st \<Longrightarrow> safe stub_wt (on_resume_continue hit st)"
  by (cases hit) (auto simp: on_resume_continue_def intro!: safe_bind [OF safe_insert] safe_Ok)

lemma safe_trap:
  assumes "stub_wt st"
  shows "safe session_wt (debug_trap dbg S rx st)"
  unfolding debug_trap_def
proof (rule safe_bind [OF safe_enter [OF assms]], goal_cases)
  case (1 x)
  obtain rip hit st1 where x: "x = (rip, hit, st1)"
    by (cases x)
  have "stub_wt (st1\<lparr>st_tf := (st_tf st1)\<lparr>tf_rip := rip\<rparr>\<rparr>)"
    using 1 x by simp
  note served = safe_serve [OF this, of dbg S rx]
  show ?case
    unfolding x prod.case
    by (rule safe_bind [OF served])
      (auto intro!: safe_Ok safe_bind [OF safe_resume] simp: on_resume_step_def split: option.splits Outcome.splits)
qed

text \<open>
  C16: The stub is type safe. Started with buffers and a breakpoint table of their declared sizes, a
  breakpoint trap on any input returns them with these sizes, or it waits for more input, or it panics,
  but never because an index, a slice or an unwrapped option of the stub is out of range.
\<close>

theorem stub_type_safe:
  assumes "stub_wt st"
  shows "case isr_bp_rust dbg S rx st of
      Ok None \<Rightarrow> True
    | Ok (Some (rx', st', e)) \<Rightarrow> stub_wt st'
    | Panic p \<Rightarrow> p \<noteq> OutOfRange \<and> p \<noteq> UnwrapNone"
  using safe_trap [OF assms, of dbg S rx] unfolding isr_bp_rust_def safe_def session_wt_def
  by (auto split: res.splits option.splits)

theorem stub_type_safe_witness:
  "\<exists>st'. isr_bp_rust True no_sections (frame (ascii ''c'') @ []) (hit_stub\<lparr>st_tf := TrapFrame_default\<lparr>tf_rip := 0x1800\<rparr>\<rparr>) = Ok (Some ([], st', Resumed)) \<and>
    stub_wt st'"
proof -
  let ?st = "hit_stub\<lparr>st_tf := TrapFrame_default\<lparr>tf_rip := 0x1800\<rparr>\<rparr>"
  have same: "bp_ok ?st" "armed_set ?st = {0x1000}"
    using same_table [of ?st hit_stub] hit_stub_facts(2,4) by simp_all
  then obtain st' where t: "isr_bp_rust True no_sections (frame (ascii ''c'') @ []) ?st = Ok (Some ([], st', Resumed))"
    using trap_missed [of ?st True no_sections "[]"] hit_stub_facts(7-9) by (auto simp: isr_bp_rust_def isr_db_rust_def)
  have "stub_wt ?st"
    by (simp add: stub_wt_def hit_stub_def MAX_BP_def)
  from stub_type_safe [OF this, of True no_sections "frame (ascii ''c'') @ []"] t show ?thesis
    by (simp del: append_Nil2)
qed

end
