(* ===== verification/Madt.thy ===== *)
theory Madt
  imports Bootinfo
begin

unbundle bit_operations_syntax

text \<open>
  Finding and parsing the ACPI table of processors (\<^verbatim>\<open>acpi/madt.rs\<close>, \<^verbatim>\<open>acpi/mod.rs\<close>). Memory is a
  function from virtual addresses to bytes; the firmware's tables are read through the
  direct map, at \<open>hhdm + phys\<close>. Reading a field through a cast pointer is reading its bytes.
\<close>

section \<open>Data\<close>

record CpuEntry =
  ce_apic_id :: u32
  ce_enabled :: bool
  ce_is_x2apic :: bool

record IoApic =
  ia_id :: u8
  ia_mmio_base_phys :: u64
  ia_gsi_base :: u32

record MadtInfo =
  mi_lapic_phys :: u64
  mi_cpus :: "CpuEntry list"
  mi_ioapics :: "IoApic list"

text \<open>The fields of a table header that \<open>sdt_valid\<close> fills in; it leaves the others zero.\<close>

record SdtHeader =
  sh_sig :: "u8 list"
  sh_length :: u32
  sh_rev :: u8
  sh_checksum :: u8

definition PLAPIC :: u8 where
  "PLAPIC = 0"

definition IOAPIC :: u8 where
  "IOAPIC = 1"

definition LAPIC_ADDR_OVERRIDE :: u8 where
  "LAPIC_ADDR_OVERRIDE = 5"

definition PLX2APIC :: u8 where
  "PLX2APIC = 9"

section \<open>Tables\<close>

definition checksum_ok :: "u8 list \<Rightarrow> bool" where
  "checksum_ok bytes \<longleftrightarrow> fold (\<lambda>b acc. acc + b) bytes 0 = 0"

definition read_phys_slice :: "bool \<Rightarrow> (u64 \<Rightarrow> u8) \<Rightarrow> u64 \<Rightarrow> u64 \<Rightarrow> nat \<Rightarrow> u8 list res" where
  "read_phys_slice dbg mem hhdm phys len =
     rbind (u_add dbg hhdm phys) (\<lambda>base. Ok (map (\<lambda>i. mem (base + of_nat i)) [0..<len]))"

definition sdt_valid :: "bool \<Rightarrow> (u64 \<Rightarrow> u8) \<Rightarrow> u64 \<Rightarrow> u64 \<Rightarrow> SdtHeader option res" where
  "sdt_valid dbg mem hhdm phys =
     rbind (read_phys_slice dbg mem hhdm phys 36) (\<lambda>hdr_bytes.
     rbind (slice hdr_bytes 0 4) (\<lambda>sig.
     rbind (slice hdr_bytes 4 8) (\<lambda>lb.
     rbind (idx hdr_bytes 8) (\<lambda>revision.
     rbind (idx hdr_bytes 9) (\<lambda>cks.
       let hdr = \<lparr>sh_sig = sig, sh_length = from_le lb, sh_rev = revision, sh_checksum = cks\<rparr> in
       if sh_length hdr < 36 then Ok None
       else rbind (read_phys_slice dbg mem hhdm phys (unat (sh_length hdr))) (\<lambda>bytes.
         Ok (if \<not> checksum_ok bytes then None else Some hdr)))))))"

text \<open>
  The search loops over the pointer array of a root table, pointers of 8 bytes in the XSDT and of
  4 bytes in the RSDT: \<open>n\<close> entries are left, \<open>i\<close> is the next.
\<close>

fun find_loop :: "bool \<Rightarrow> (u64 \<Rightarrow> u8) \<Rightarrow> u64 \<Rightarrow> u64 \<Rightarrow> u8 list \<Rightarrow> nat \<Rightarrow> nat \<Rightarrow> nat \<Rightarrow> (u64 \<times> u32) option res" where
  "find_loop dbg mem hhdm root want width 0 i = Ok None"
| "find_loop dbg mem hhdm root want width (Suc n) i =
     rbind (u_add dbg root 36) (\<lambda>a1.
     rbind (u_mul dbg (of_nat i) (of_nat width)) (\<lambda>o1.
     rbind (u_add dbg a1 o1) (\<lambda>a2.
     rbind (read_phys_slice dbg mem hhdm a2 width) (\<lambda>ptr_bytes.
       let table_phys = from_le ptr_bytes in
       rbind (sdt_valid dbg mem hhdm table_phys) (\<lambda>r.
         case r of
           Some thdr \<Rightarrow>
             if sh_sig thdr = want then Ok (Some (table_phys, sh_length thdr))
             else find_loop dbg mem hhdm root want width n (Suc i)
         | None \<Rightarrow> find_loop dbg mem hhdm root want width n (Suc i))))))"

definition find_sdt_by_sig_xsdt :: "bool \<Rightarrow> (u64 \<Rightarrow> u8) \<Rightarrow> u64 \<Rightarrow> u64 \<Rightarrow> u8 list \<Rightarrow> (u64 \<times> u32) option res" where
  "find_sdt_by_sig_xsdt dbg mem hhdm xsdt_phys want =
     rbind (sdt_valid dbg mem hhdm xsdt_phys) (\<lambda>r.
       case r of
         None \<Rightarrow> Ok None
       | Some xsdt \<Rightarrow> find_loop dbg mem hhdm xsdt_phys want 8 ((unat (sh_length xsdt) - 36) div 8) 0)"

definition find_sdt_by_sig_rsdt :: "bool \<Rightarrow> (u64 \<Rightarrow> u8) \<Rightarrow> u64 \<Rightarrow> u64 \<Rightarrow> u8 list \<Rightarrow> (u64 \<times> u32) option res" where
  "find_sdt_by_sig_rsdt dbg mem hhdm rsdt_phys want =
     rbind (sdt_valid dbg mem hhdm rsdt_phys) (\<lambda>r.
       case r of
         None \<Rightarrow> Ok None
       | Some rsdt \<Rightarrow> find_loop dbg mem hhdm rsdt_phys want 4 ((unat (sh_length rsdt) - 36) div 4) 0)"

section \<open>The processor table\<close>

text \<open>One entry at position \<open>p\<close>; indexing past the end of the table panics.\<close>

definition madt_entry :: "u8 list \<Rightarrow> nat \<Rightarrow> u8 \<Rightarrow> u8 \<Rightarrow> MadtInfo \<Rightarrow> MadtInfo res" where
  "madt_entry bytes p typ len mi =
     (if typ = PLAPIC \<and> 8 \<le> unat len then
        rbind (idx bytes (p + 3)) (\<lambda>apic_id.
        rbind (slice bytes (p + 4) (p + 8)) (\<lambda>fb.
          Ok (mi\<lparr>mi_cpus := mi_cpus mi @
            [\<lparr>ce_apic_id = ucast apic_id, ce_enabled = ((from_le fb :: u32) AND 1 \<noteq> 0), ce_is_x2apic = False\<rparr>]\<rparr>)))
      else if typ = IOAPIC \<and> 12 \<le> unat len then
        rbind (idx bytes (p + 2)) (\<lambda>aid.
        rbind (slice bytes (p + 4) (p + 8)) (\<lambda>bb.
        rbind (slice bytes (p + 8) (p + 12)) (\<lambda>gb.
          Ok (mi\<lparr>mi_ioapics := mi_ioapics mi @
            [\<lparr>ia_id = aid, ia_mmio_base_phys = ucast (from_le bb :: u32), ia_gsi_base = from_le gb\<rparr>]\<rparr>))))
      else if typ = LAPIC_ADDR_OVERRIDE \<and> 12 \<le> unat len then
        rbind (slice bytes (p + 4) (p + 12)) (\<lambda>ab. Ok (mi\<lparr>mi_lapic_phys := from_le ab\<rparr>))
      else if typ = PLX2APIC \<and> 16 \<le> unat len then
        rbind (slice bytes (p + 4) (p + 8)) (\<lambda>ib.
        rbind (slice bytes (p + 8) (p + 12)) (\<lambda>fb.
          Ok (mi\<lparr>mi_cpus := mi_cpus mi @
            [\<lparr>ce_apic_id = from_le ib, ce_enabled = ((from_le fb :: u32) AND 1 \<noteq> 0), ce_is_x2apic = True\<rparr>]\<rparr>)))
      else Ok mi)"

function madt_loop :: "u8 list \<Rightarrow> nat \<Rightarrow> nat \<Rightarrow> MadtInfo \<Rightarrow> MadtInfo res" where
  "madt_loop bytes madt_len p mi =
     (if p + 2 \<le> madt_len then
        rbind (idx bytes p) (\<lambda>typ.
        rbind (idx bytes (p + 1)) (\<lambda>len.
          if unat len = 0 then Ok mi
          else rbind (madt_entry bytes p typ len mi) (\<lambda>mi'. madt_loop bytes madt_len (p + unat len) mi')))
      else Ok mi)"
  by pat_completeness auto
termination
  by (relation "measure (\<lambda>(bytes, madt_len, p, mi). madt_len - p)") auto

declare madt_loop.simps [simp del]

section \<open>Discovery\<close>

definition RSDP_SIG :: "u8 list" where
  "RSDP_SIG = map of_char ''RSD PTR ''"

definition APIC_SIG :: "u8 list" where
  "APIC_SIG = map of_char ''APIC''"

text \<open>The address of the XSDT: only from a long enough root pointer whose extended checksum is right.\<close>

definition xsdt_addr_of :: "bool \<Rightarrow> (u64 \<Rightarrow> u8) \<Rightarrow> BootInfo \<Rightarrow> u8 \<Rightarrow> u64 res" where
  "xsdt_addr_of dbg mem boot revision =
     (if 2 \<le> revision then
        rbind (read_phys_slice dbg mem (hhdm_base boot) (rsdp_addr boot) 36) (\<lambda>r2_bytes.
          let total_len = unat (from_le (take 4 (drop 20 r2_bytes)) :: u32) in
          if 36 \<le> total_len then
            rbind (read_phys_slice dbg mem (hhdm_base boot) (rsdp_addr boot) total_len) (\<lambda>all.
              Ok (if checksum_ok all then from_le (take 8 (drop 24 r2_bytes)) else 0))
          else Ok 0)
      else Ok 0)"

definition find_madt :: "bool \<Rightarrow> (u64 \<Rightarrow> u8) \<Rightarrow> BootInfo \<Rightarrow> u64 \<Rightarrow> u32 \<Rightarrow> (u64 \<times> u32) option res" where
  "find_madt dbg mem boot xsdt_addr rsdt_addr =
     (let by_rsdt = (if rsdt_addr \<noteq> 0 then find_sdt_by_sig_rsdt dbg mem (hhdm_base boot) (ucast rsdt_addr) APIC_SIG else Ok None) in
      if xsdt_addr \<noteq> 0 then
        rbind (find_sdt_by_sig_xsdt dbg mem (hhdm_base boot) xsdt_addr APIC_SIG) (\<lambda>r.
          case r of Some v \<Rightarrow> Ok (Some v) | None \<Rightarrow> by_rsdt)
      else by_rsdt)"

definition discover :: "bool \<Rightarrow> (u64 \<Rightarrow> u8) \<Rightarrow> BootInfo \<Rightarrow> MadtInfo option res" where
  "discover dbg mem boot =
     (if rsdp_addr boot = 0 then Ok None
      else
        rbind (read_phys_slice dbg mem (hhdm_base boot) (rsdp_addr boot) 20) (\<lambda>r1_bytes.
          if take 8 r1_bytes \<noteq> RSDP_SIG \<or> \<not> checksum_ok r1_bytes then Ok None
          else
            rbind (idx r1_bytes 15) (\<lambda>revision.
            rbind (xsdt_addr_of dbg mem boot revision) (\<lambda>xsdt_addr.
            rbind (find_madt dbg mem boot xsdt_addr (from_le (take 4 (drop 16 r1_bytes)))) (\<lambda>madt.
              case madt of
                None \<Rightarrow> Ok None
              | Some (madt_phys, madt_len) \<Rightarrow>
                  rbind (read_phys_slice dbg mem (hhdm_base boot) madt_phys (unat madt_len)) (\<lambda>madt_bytes.
                  rbind (read_phys_slice dbg mem (hhdm_base boot) madt_phys 44) (\<lambda>mh.
                  rbind (madt_loop madt_bytes (unat madt_len) 44
                      \<lparr>mi_lapic_phys = ucast (from_le (take 4 (drop 36 mh)) :: u32), mi_cpus = [], mi_ioapics = []\<rparr>) (\<lambda>mi.
                    Ok (Some mi)))))))))"

end
