(* ===== verification/Apic.thy ===== *)
theory Apic
  imports Prelude
begin

unbundle bit_operations_syntax

text \<open>
  The local interrupt controller (\<^verbatim>\<open>arch/x86_64/apic.rs\<close>), through model-specific registers in its newer mode and
  through memory-mapped registers in the older one.

  The state is what the code reads and writes: the registers, the two globals, the sequence of register
  writes, and for how many more polls the hardware reports the last command as being delivered. How
  many polls that is after a command is a parameter \<open>lat\<close>; the waiting loops end when it is used up.
  The feature bits of CPUID leaf 1 are a parameter.
\<close>

section \<open>Registers\<close>

datatype reg_write = WrMsr u32 u64 | WrMmio u64 u32

record lapic =
  la_msr :: "u32 \<Rightarrow> u64"
  la_mmio :: "u64 \<Rightarrow> u32"
  la_mode :: u8
  la_hhdm :: u64
  la_busy :: nat
  la_log :: "reg_write list"

definition MSR_IA32_APIC_BASE :: u32 where
  "MSR_IA32_APIC_BASE = 0x1B"

definition MSR_X2APIC_APICID :: u32 where
  "MSR_X2APIC_APICID = 0x802"

definition MSR_X2APIC_TPR :: u32 where
  "MSR_X2APIC_TPR = 0x808"

definition MSR_X2APIC_EOI :: u32 where
  "MSR_X2APIC_EOI = 0x80B"

definition MSR_X2APIC_SIVR :: u32 where
  "MSR_X2APIC_SIVR = 0x80F"

definition MSR_X2APIC_ICR :: u32 where
  "MSR_X2APIC_ICR = 0x830"

definition MSR_X2APIC_LVT_TIMER :: u32 where
  "MSR_X2APIC_LVT_TIMER = 0x832"

definition MSR_X2APIC_INIT_COUNT :: u32 where
  "MSR_X2APIC_INIT_COUNT = 0x838"

definition LAPIC_ID_OFF :: u64 where
  "LAPIC_ID_OFF = 0x20 div 4"

definition LAPIC_TPR_OFF :: u64 where
  "LAPIC_TPR_OFF = 0x80 div 4"

definition LAPIC_EOI_OFF :: u64 where
  "LAPIC_EOI_OFF = 0xB0 div 4"

definition LAPIC_SIVR_OFF :: u64 where
  "LAPIC_SIVR_OFF = 0xF0 div 4"

definition LAPIC_ICRLO :: u64 where
  "LAPIC_ICRLO = 0x300 div 4"

definition LAPIC_ICRHI :: u64 where
  "LAPIC_ICRHI = 0x310 div 4"

definition LAPIC_LVT_TMR :: u64 where
  "LAPIC_LVT_TMR = 0x320 div 4"

definition LAPIC_INITCNT :: u64 where
  "LAPIC_INITCNT = 0x380 div 4"

definition LAPIC_DCR :: u64 where
  "LAPIC_DCR = 0x3E0 div 4"

definition APIC_PHYS_MASK :: u64 where
  "APIC_PHYS_MASK = 0xFFFFF000"

definition TIMER_VECTOR :: u8 where
  "TIMER_VECTOR = 0x40"

definition rdmsr :: "u32 \<Rightarrow> lapic \<Rightarrow> u64" where
  "rdmsr r st = la_msr st r"

definition wrmsr :: "u32 \<Rightarrow> u64 \<Rightarrow> lapic \<Rightarrow> lapic" where
  "wrmsr r v st = st\<lparr>la_msr := (la_msr st)(r := v), la_log := la_log st @ [WrMsr r v]\<rparr>"

definition has_x2apic :: "u32 \<Rightarrow> bool" where
  "has_x2apic ecx \<longleftrightarrow> ecx AND push_bit 21 1 \<noteq> 0"

text \<open>A 32-bit register at a dword offset from a pointer.\<close>

definition vol_read :: "u64 \<Rightarrow> u64 \<Rightarrow> lapic \<Rightarrow> u32" where
  "vol_read base off st = la_mmio st (base + 4 * off)"

definition vol_write :: "u64 \<Rightarrow> u64 \<Rightarrow> u32 \<Rightarrow> lapic \<Rightarrow> lapic" where
  "vol_write base off v st =
     st\<lparr>la_mmio := (la_mmio st)(base + 4 * off := v), la_log := la_log st @ [WrMmio (base + 4 * off) v]\<rparr>"

section \<open>The mode\<close>

datatype Mode = Unknown | X2Apic | XApicPhys u64 | XApic u64

definition store_mode :: "Mode \<Rightarrow> lapic \<Rightarrow> lapic" where
  "store_mode m st = st\<lparr>la_mode := (case m of Unknown \<Rightarrow> 0 | X2Apic \<Rightarrow> 1 | XApicPhys phys \<Rightarrow> 2 | XApic base \<Rightarrow> 3)\<rparr>"

definition apic_phys :: "lapic \<Rightarrow> u64" where
  "apic_phys st = rdmsr MSR_IA32_APIC_BASE st AND APIC_PHYS_MASK"

definition load_mode :: "bool \<Rightarrow> lapic \<Rightarrow> Mode res" where
  "load_mode dbg st =
     (if la_mode st = 1 then Ok X2Apic
      else if la_mode st = 2 then Ok (XApicPhys (apic_phys st))
      else if la_mode st = 3 then rbind (u_add dbg (la_hhdm st) (apic_phys st)) (\<lambda>base. Ok (XApic base))
      else Ok Unknown)"

definition mmio :: "bool \<Rightarrow> lapic \<Rightarrow> u64 option res" where
  "mmio dbg st =
     rbind (load_mode dbg st) (\<lambda>m.
       case m of
         XApic b \<Rightarrow> rbind (u_add dbg (la_hhdm st) (apic_phys st)) (\<lambda>base. Ok (Some base))
       | _ \<Rightarrow> Ok None)"

definition mmio_read :: "bool \<Rightarrow> u64 \<Rightarrow> lapic \<Rightarrow> u32 res" where
  "mmio_read dbg off st =
     rbind (mmio dbg st) (\<lambda>r. Ok (case r of Some ptr \<Rightarrow> vol_read ptr off st | None \<Rightarrow> 0))"

definition mmio_write :: "bool \<Rightarrow> u64 \<Rightarrow> u32 \<Rightarrow> lapic \<Rightarrow> lapic res" where
  "mmio_write dbg off v st =
     rbind (mmio dbg st) (\<lambda>r. Ok (case r of Some ptr \<Rightarrow> vol_write ptr off v st | None \<Rightarrow> st))"

section \<open>Bringing it up\<close>

definition APIC_EN :: u64 where
  "APIC_EN = push_bit 11 1"

definition X2APIC_EN :: u64 where
  "X2APIC_EN = push_bit 10 1"

definition enabled_base :: "u32 \<Rightarrow> u64 \<Rightarrow> u64" where
  "enabled_base ecx base = (if has_x2apic ecx then (base OR APIC_EN) OR X2APIC_EN else (base OR APIC_EN) AND NOT X2APIC_EN)"

definition early_init :: "u32 \<Rightarrow> lapic \<Rightarrow> lapic" where
  "early_init ecx st =
     (let base = enabled_base ecx (rdmsr MSR_IA32_APIC_BASE st);
          st1 = wrmsr MSR_IA32_APIC_BASE base st
      in if base AND X2APIC_EN \<noteq> 0 then store_mode X2Apic st1
         else store_mode (XApicPhys (base AND APIC_PHYS_MASK)) st1)"

definition apic_paging :: "bool \<Rightarrow> u64 \<Rightarrow> lapic \<Rightarrow> lapic res" where
  "apic_paging dbg hhdm st =
     (let st1 = st\<lparr>la_hhdm := hhdm\<rparr> in
      rbind (load_mode dbg st1) (\<lambda>m.
        case m of
          XApicPhys phys \<Rightarrow> rbind (u_add dbg hhdm phys) (\<lambda>base. Ok (store_mode (XApic base) st1))
        | _ \<Rightarrow> Ok st1))"

definition apic_ap_init :: "bool \<Rightarrow> u32 \<Rightarrow> u64 \<Rightarrow> lapic \<Rightarrow> lapic res" where
  "apic_ap_init dbg ecx hhdm st =
     (let base = enabled_base ecx (rdmsr MSR_IA32_APIC_BASE st);
          st1 = (wrmsr MSR_IA32_APIC_BASE base st)\<lparr>la_hhdm := hhdm\<rparr>
      in if base AND X2APIC_EN \<noteq> 0 then Ok (store_mode X2Apic st1)
         else rbind (u_add dbg hhdm (base AND APIC_PHYS_MASK)) (\<lambda>b. Ok (store_mode (XApic b) st1)))"

definition lapic_id :: "bool \<Rightarrow> u32 \<Rightarrow> lapic \<Rightarrow> (u32 \<times> lapic) res" where
  "lapic_id dbg ecx st =
     (let base = rdmsr MSR_IA32_APIC_BASE st;
          new_base = enabled_base ecx base;
          st1 = (if new_base \<noteq> base then
                   (let st' = wrmsr MSR_IA32_APIC_BASE new_base st
                    in if new_base AND X2APIC_EN \<noteq> 0 then store_mode X2Apic st' else st')
                 else st)
      in rbind (load_mode dbg st1) (\<lambda>m.
           case m of
             X2Apic \<Rightarrow> Ok (ucast (rdmsr MSR_X2APIC_APICID st1), st1)
           | XApic b \<Rightarrow> rbind (mmio_read dbg LAPIC_ID_OFF st1) (\<lambda>v. Ok (drop_bit 24 v, st1))
           | _ \<Rightarrow> rbind (u_add dbg (la_hhdm st1) (new_base AND APIC_PHYS_MASK)) (\<lambda>p.
                   Ok (drop_bit 24 (vol_read p LAPIC_ID_OFF st1), st1))))"

section \<open>Writes in each mode\<close>

text \<open>
  The shape most operations share: one action through a model-specific register, one through the
  mapped registers, and one for the modes before the mapping is known.
\<close>

definition by_mode :: "bool \<Rightarrow> (lapic \<Rightarrow> lapic res) \<Rightarrow> (lapic \<Rightarrow> lapic res) \<Rightarrow> (lapic \<Rightarrow> lapic res) \<Rightarrow> lapic \<Rightarrow> lapic res" where
  "by_mode dbg x2 x other st =
     rbind (load_mode dbg st) (\<lambda>m. case m of X2Apic \<Rightarrow> x2 st | XApic b \<Rightarrow> x st | _ \<Rightarrow> other st)"

text \<open>The best-effort path: through the cached base of the direct map.\<close>

definition at_cached :: "bool \<Rightarrow> (u64 \<Rightarrow> lapic \<Rightarrow> lapic) \<Rightarrow> lapic \<Rightarrow> lapic res" where
  "at_cached dbg f st = rbind (u_add dbg (la_hhdm st) (apic_phys st)) (\<lambda>base. Ok (f base st))"

definition open_all_irqs :: "bool \<Rightarrow> lapic \<Rightarrow> lapic res" where
  "open_all_irqs dbg = by_mode dbg (\<lambda>st. Ok (wrmsr MSR_X2APIC_TPR 0 st)) (mmio_write dbg LAPIC_TPR_OFF 0) Ok"

definition set_svr :: "bool \<Rightarrow> u8 \<Rightarrow> bool \<Rightarrow> lapic \<Rightarrow> lapic res" where
  "set_svr dbg vector enable =
     (let val = (ucast vector OR (if enable then push_bit 8 1 else 0) :: u32) in
      by_mode dbg (\<lambda>st. Ok (wrmsr MSR_X2APIC_SIVR (ucast val) st)) (mmio_write dbg LAPIC_SIVR_OFF val)
        (at_cached dbg (\<lambda>base. vol_write base LAPIC_SIVR_OFF val)))"

definition eoi :: "bool \<Rightarrow> lapic \<Rightarrow> lapic res" where
  "eoi dbg =
     by_mode dbg (\<lambda>st. Ok (wrmsr MSR_X2APIC_EOI 0 st)) (mmio_write dbg LAPIC_EOI_OFF 0)
       (at_cached dbg (\<lambda>base. vol_write base LAPIC_EOI_OFF 0))"

text \<open>A command to another processor, the high half with the destination first in the older mode.\<close>

definition x_command :: "bool \<Rightarrow> nat \<Rightarrow> u32 \<Rightarrow> u32 \<Rightarrow> lapic \<Rightarrow> lapic res" where
  "x_command dbg lat dest lo st =
     rbind (mmio_write dbg LAPIC_ICRHI (push_bit 24 dest) st) (\<lambda>st1.
     rbind (mmio_write dbg LAPIC_ICRLO lo st1) (\<lambda>st2. Ok (st2\<lparr>la_busy := lat\<rparr>)))"

definition x2_command :: "nat \<Rightarrow> u32 \<Rightarrow> u64 \<Rightarrow> lapic \<Rightarrow> lapic" where
  "x2_command lat dest lo st = (wrmsr MSR_X2APIC_ICR (push_bit 32 (ucast dest) OR lo) st)\<lparr>la_busy := lat\<rparr>"

definition cached_command :: "nat \<Rightarrow> u32 \<Rightarrow> u32 \<Rightarrow> u64 \<Rightarrow> lapic \<Rightarrow> lapic" where
  "cached_command lat dest lo base st =
     (vol_write base LAPIC_ICRLO lo (vol_write base LAPIC_ICRHI (push_bit 24 dest) st))\<lparr>la_busy := lat\<rparr>"

definition ipi_fixed :: "bool \<Rightarrow> nat \<Rightarrow> u32 \<Rightarrow> u8 \<Rightarrow> lapic \<Rightarrow> lapic res" where
  "ipi_fixed dbg lat dest vector =
     by_mode dbg (\<lambda>st. Ok (x2_command lat dest (push_bit 8 0 OR ucast vector) st))
       (x_command dbg lat dest (push_bit 8 0 OR ucast vector))
       (at_cached dbg (cached_command lat dest (push_bit 8 0 OR ucast vector)))"

definition timer_count :: "u32 \<Rightarrow> u32" where
  "timer_count hz = (if hz = 0 then 100000 else 10000000 div max hz 1)"

definition start_timer_hz :: "bool \<Rightarrow> u32 \<Rightarrow> lapic \<Rightarrow> lapic res" where
  "start_timer_hz dbg hz =
     by_mode dbg
       (\<lambda>st. Ok (wrmsr MSR_X2APIC_INIT_COUNT (ucast (timer_count hz))
                  (wrmsr MSR_X2APIC_LVT_TIMER (push_bit 17 1 OR ucast TIMER_VECTOR) st)))
       (\<lambda>st. rbind (mmio_write dbg LAPIC_DCR 0b1011 st) (\<lambda>st1.
             rbind (mmio_write dbg LAPIC_LVT_TMR (push_bit 17 1 OR ucast TIMER_VECTOR) st1) (\<lambda>st2.
               mmio_write dbg LAPIC_INITCNT (timer_count hz) st2)))
       Ok"

section \<open>Starting other processors\<close>

text \<open>One poll of the delivery status: whether it is set, and one poll less to go.\<close>

definition icr_busy :: "lapic \<Rightarrow> bool \<times> lapic" where
  "icr_busy st = (0 < la_busy st, st\<lparr>la_busy := la_busy st - 1\<rparr>)"

function icr_spin :: "lapic \<Rightarrow> lapic" where
  "icr_spin st = (let (busy, st1) = icr_busy st in if busy then icr_spin st1 else st1)"
  by pat_completeness auto
termination
  by (relation "measure la_busy") (auto simp: icr_busy_def)

declare icr_spin.simps [simp del]

definition icr_wait :: "bool \<Rightarrow> lapic \<Rightarrow> lapic res" where
  "icr_wait dbg = by_mode dbg (\<lambda>st. Ok (icr_spin st)) (\<lambda>st. Ok (icr_spin st)) Ok"

definition INIT_ASSERT :: "'l::len word" where
  "INIT_ASSERT = (push_bit 8 0b101 OR push_bit 15 1) OR push_bit 14 1"

definition INIT_DEASSERT :: "'l::len word" where
  "INIT_DEASSERT = push_bit 8 0b101 OR push_bit 15 1"

definition send_init :: "bool \<Rightarrow> nat \<Rightarrow> u32 \<Rightarrow> lapic \<Rightarrow> lapic res" where
  "send_init dbg lat dest =
     by_mode dbg
       (\<lambda>st. rbind (icr_wait dbg (x2_command lat dest INIT_ASSERT st)) (\<lambda>st1.
             icr_wait dbg (x2_command lat dest INIT_DEASSERT st1)))
       (\<lambda>st. rbind (x_command dbg lat dest INIT_ASSERT st) (\<lambda>st1.
             rbind (icr_wait dbg st1) (\<lambda>st2.
             rbind (x_command dbg lat dest INIT_DEASSERT st2) (\<lambda>st3. icr_wait dbg st3))))
       (at_cached dbg (\<lambda>base st.
          icr_spin (cached_command lat dest INIT_DEASSERT base (icr_spin (cached_command lat dest INIT_ASSERT base st)))))"

definition send_startup :: "bool \<Rightarrow> nat \<Rightarrow> u32 \<Rightarrow> u8 \<Rightarrow> lapic \<Rightarrow> lapic res" where
  "send_startup dbg lat dest vector =
     by_mode dbg
       (\<lambda>st. icr_wait dbg (x2_command lat dest (ucast (vector AND 0xFF) OR push_bit 8 0b110) st))
       (\<lambda>st. rbind (x_command dbg lat dest (ucast (vector AND 0xFF) OR push_bit 8 0b110) st) (icr_wait dbg))
       (at_cached dbg (\<lambda>base st. icr_spin (cached_command lat dest (ucast (vector AND 0xFF) OR push_bit 8 0b110) base st)))"

end
