(* ===== verification/Smp.thy ===== *)
theory Smp
  imports Kernel_Mem Madt Apic
begin

unbundle bit_operations_syntax

text \<open>
  Starting the other processors (\<^verbatim>\<open>arch/x86_64/smp.rs\<close>): the trampoline in low memory, the block of start
  parameters that every processor reads, a stack for each of them, the start-up commands, and the
  wait for their answer.

  What the code under \<^verbatim>\<open>src\<close> does not determine is a field of \<open>smp_env\<close>: the assembled trampoline with
  the places of its two pointers, the addresses of the root table and of \<open>ap_entry\<close>, the feature bits,
  the time commands take, and what the other processors do to memory between two looks at the ready
  flag. The delay loops have no effect on this state.
\<close>

section \<open>Memory as the code writes it\<close>

definition poke :: "u64 \<Rightarrow> u8 list \<Rightarrow> (u64 \<Rightarrow> u8) \<Rightarrow> u64 \<Rightarrow> u8" where
  "poke p bs m = (\<lambda>a. if unat p \<le> unat a \<and> unat a < unat p + length bs then bs ! (unat a - unat p) else m a)"

definition peek :: "u64 \<Rightarrow> nat \<Rightarrow> (u64 \<Rightarrow> u8) \<Rightarrow> u8 list" where
  "peek p n m = map (\<lambda>i. m (p + of_nat i)) [0..<n]"

section \<open>The parameter block\<close>

record ApBoot =
  ab_ready_flag :: u32
  ab_pad :: u32
  ab_cr3 :: u64
  ab_gdt_ptr :: u64
  ab_idt_ptr :: u64
  ab_stack_top :: u64
  ab_entry64 :: u64
  ab_hhdm :: u64

definition ApBoot_bytes :: "ApBoot \<Rightarrow> u8 list" where
  "ApBoot_bytes b = le_bytes 4 (ab_ready_flag b) @ le_bytes 4 (ab_pad b) @ le_bytes 8 (ab_cr3 b) @ le_bytes 8 (ab_gdt_ptr b) @
     le_bytes 8 (ab_idt_ptr b) @ le_bytes 8 (ab_stack_top b) @ le_bytes 8 (ab_entry64 b) @ le_bytes 8 (ab_hhdm b)"

section \<open>State\<close>

record smp_env =
  se_dbg :: bool
  se_ecx :: u32
  se_lat :: nat
  se_cr3 :: u64
  se_entry :: u64
  se_blob :: "u8 list"
  se_p32 :: u64
  se_p64 :: u64
  se_world :: "u32 \<Rightarrow> nat \<Rightarrow> (u64 \<Rightarrow> u8) \<Rightarrow> u64 \<Rightarrow> u8"

text \<open>\<open>sm_kicks\<close> records the memory each processor was started with, for the theorems.\<close>

record ('pt, 'h) smp =
  sm_mem :: "('pt, 'h) MemState"
  sm_lapic :: lapic
  sm_hhdm :: u64
  sm_ports :: "(u16 \<times> u8) list"
  sm_kicks :: "(u32 \<times> (u64 \<Rightarrow> u8)) list"

definition TRAMP_PHYS :: u64 where
  "TRAMP_PHYS = 0x1000"

definition AP_STACK_PAGES :: u64 where
  "AP_STACK_PAGES = 8"

definition write_mem :: "u64 \<Rightarrow> u8 list \<Rightarrow> ('pt, 'h) smp \<Rightarrow> ('pt, 'h) smp" where
  "write_mem p bs st = st\<lparr>sm_mem := (sm_mem st)\<lparr>km_mem := poke p bs (km_mem (sm_mem st))\<rparr>\<rparr>"

definition in_mem :: "(('pt, 'h) MemState \<Rightarrow> ('pt, 'h) MemState res) \<Rightarrow> ('pt, 'h) smp \<Rightarrow> ('pt, 'h) smp res" where
  "in_mem f st = rbind (f (sm_mem st)) (\<lambda>m. Ok (st\<lparr>sm_mem := m\<rparr>))"

definition in_lapic :: "(lapic \<Rightarrow> lapic res) \<Rightarrow> ('pt, 'h) smp \<Rightarrow> ('pt, 'h) smp res" where
  "in_lapic f st = rbind (f (sm_lapic st)) (\<lambda>l. Ok (st\<lparr>sm_lapic := l\<rparr>))"

section \<open>One processor\<close>

definition program_warm_reset :: "bool \<Rightarrow> u64 \<Rightarrow> u64 \<Rightarrow> ('pt, 'h) smp \<Rightarrow> ('pt, 'h) smp res" where
  "program_warm_reset dbg tramp_phys hhdm st =
     (let st1 = st\<lparr>sm_ports := sm_ports st @ [(0x70, 0x0F), (0x71, 0x0A)]\<rparr> in
      rbind (u_add dbg hhdm 0x467) (\<lambda>wrv_seg.
      rbind (u_add dbg hhdm 0x469) (\<lambda>wrv_off.
        Ok (write_mem wrv_off (le_bytes 2 (0 :: u16))
              (write_mem wrv_seg (le_bytes 2 (ucast (drop_bit 4 tramp_phys) :: u16)) st1)))))"

text \<open>\<open>wait_ready\<close>: poll number \<open>i\<close> of at most \<open>n\<close> more.\<close>

primrec wait_ready :: "(nat \<Rightarrow> (u64 \<Rightarrow> u8) \<Rightarrow> u64 \<Rightarrow> u8) \<Rightarrow> u64 \<Rightarrow> nat \<Rightarrow> nat \<Rightarrow> (u64 \<Rightarrow> u8) \<Rightarrow> bool \<times> (u64 \<Rightarrow> u8)" where
  "wait_ready world flag_ptr i 0 m = (False, m)"
| "wait_ready world flag_ptr i (Suc n) m =
     (let m1 = world i m in
      if (from_le (peek flag_ptr 4 m1) :: u32) \<noteq> 0 then (True, m1) else wait_ready world flag_ptr (Suc i) n m1)"

definition WAIT_SPINS :: nat where
  "WAIT_SPINS = 4000"

definition kick :: "smp_env \<Rightarrow> u32 \<Rightarrow> u8 \<Rightarrow> ('pt, 'h) smp \<Rightarrow> ('pt, 'h) smp res" where
  "kick E ap vector st =
     (let st1 = st\<lparr>sm_kicks := sm_kicks st @ [(ap, km_mem (sm_mem st))]\<rparr> in
      rbind (in_lapic (send_init (se_dbg E) (se_lat E) ap) st1) (\<lambda>st2.
      rbind (in_lapic (send_startup (se_dbg E) (se_lat E) ap vector) st2) (\<lambda>st3.
        in_lapic (send_startup (se_dbg E) (se_lat E) ap vector) st3)))"

definition boot_block :: "smp_env \<Rightarrow> u64 \<Rightarrow> u64 \<Rightarrow> ApBoot" where
  "boot_block E hhdm stk_top =
     \<lparr>ab_ready_flag = 0, ab_pad = 0, ab_cr3 = se_cr3 E, ab_gdt_ptr = 0, ab_idt_ptr = 0, ab_stack_top = stk_top,
      ab_entry64 = se_entry E, ab_hhdm = hhdm\<rparr>"

definition start_cpu ::
  "smp_env \<Rightarrow> ('pt, 'h) kenv \<Rightarrow> u64 \<Rightarrow> u64 \<Rightarrow> u64 \<Rightarrow> u64 \<Rightarrow> u8 \<Rightarrow> u32 \<Rightarrow> ('pt, 'h) smp \<Rightarrow> ('pt, 'h) smp res" where
  "start_cpu E K hhdm ab_va ab_pa tramp_virt vector ap st =
     rbind (vmap_alloc_pages K AP_STACK_PAGES (sm_mem st)) (\<lambda>(r, m).
     rbind (expect r) (\<lambda>stk_va.
     rbind (u_add (se_dbg E) stk_va (AP_STACK_PAGES * 4096)) (\<lambda>stk_end.
     rbind (u_sub (se_dbg E) stk_end 8) (\<lambda>stk_top.
       let st1 = st\<lparr>sm_mem := m\<rparr> in
       if stk_va = 0 then Ok st1
       else
         rbind (u_add (se_dbg E) tramp_virt (se_p32 E)) (\<lambda>p32.
         rbind (u_add (se_dbg E) tramp_virt (se_p64 E)) (\<lambda>p64.
           let st2 = write_mem ab_va (ApBoot_bytes (boot_block E hhdm stk_top)) st1;
               st3 = write_mem stk_top (le_bytes 8 ab_va) st2;
               st4 = write_mem p64 (le_bytes 8 ab_pa) (write_mem p32 (le_bytes 4 (ucast ab_pa :: u32)) st3)
           in rbind (kick E ap vector st4) (\<lambda>st5.
                let (ok, mem') = wait_ready (se_world E ap) ab_va 0 WAIT_SPINS (km_mem (sm_mem st5))
                in Ok (st5\<lparr>sm_mem := (sm_mem st5)\<lparr>km_mem := mem'\<rparr>\<rparr>))))))))"

fun start_cpus ::
  "smp_env \<Rightarrow> ('pt, 'h) kenv \<Rightarrow> u64 \<Rightarrow> u64 \<Rightarrow> u64 \<Rightarrow> u64 \<Rightarrow> u8 \<Rightarrow> u32 \<Rightarrow> CpuEntry list \<Rightarrow> ('pt, 'h) smp \<Rightarrow> ('pt, 'h) smp res" where
  "start_cpus E K hhdm ab_va ab_pa tramp_virt vector bsp_id [] st = Ok st"
| "start_cpus E K hhdm ab_va ab_pa tramp_virt vector bsp_id (c # cs) st =
     (if ce_apic_id c = bsp_id then start_cpus E K hhdm ab_va ab_pa tramp_virt vector bsp_id cs st
      else
        rbind (start_cpu E K hhdm ab_va ab_pa tramp_virt vector (ce_apic_id c) st) (\<lambda>st1.
          start_cpus E K hhdm ab_va ab_pa tramp_virt vector bsp_id cs st1))"

section \<open>All of them\<close>

text \<open>What the first part of \<open>boot_all_aps\<close> leaves in its local variables for the loop.\<close>

record smp_plan =
  pl_cpus :: "CpuEntry list"
  pl_bsp_id :: u32
  pl_ab_va :: u64
  pl_ab_pa :: u64
  pl_tramp_virt :: u64
  pl_vector :: u8

text \<open>
  The part of \<open>boot_all_aps\<close> before the loop; it returns nothing in the cases in which the code gives up.
  Where the code prints and loops forever because the root table lies above four gibibytes, the result
  is \<open>Panic Fatal\<close>.
\<close>

definition smp_setup :: "smp_env \<Rightarrow> ('pt, 'h) kenv \<Rightarrow> BootInfo \<Rightarrow> ('pt, 'h) smp \<Rightarrow> (smp_plan option \<times> ('pt, 'h) smp) res" where
  "smp_setup E K boot st =
     (let dbg = se_dbg E; hhdm = hhdm_base boot; st0 = st\<lparr>sm_hhdm := hhdm\<rparr> in
      rbind (discover dbg (km_mem (sm_mem st0)) boot) (\<lambda>r.
      case r of
        None \<Rightarrow> Ok (None, st0)
      | Some m \<Rightarrow>
          if 4096 < length (se_blob E) then Ok (None, st0)
          else
            rbind (in_mem (map_identity_4k K 0x8000) st0) (\<lambda>st1.
            rbind (in_mem (map_identity_4k K 0x9000) st1) (\<lambda>st2.
            rbind (u_add dbg hhdm TRAMP_PHYS) (\<lambda>tramp_virt.
              let st3 = write_mem tramp_virt (se_blob E) st2;
                  vector = ucast (drop_bit 12 TRAMP_PHYS AND 0xFF)
              in rbind (program_warm_reset dbg TRAMP_PHYS hhdm st3) (\<lambda>st4.
                 rbind (lapic_id dbg (se_ecx E) (sm_lapic st4)) (\<lambda>(bsp_id, l).
                 rbind (alloc_one_phys_page_hhdm K (sm_mem st4)) (\<lambda>((ab_va, ab_pa), m5).
                 rbind (in_mem (map_identity_4k K (ab_pa AND NOT 0xFFF)) (st4\<lparr>sm_lapic := l, sm_mem := m5\<rparr>)) (\<lambda>st6.
                   if 2 ^ 32 \<le> unat (se_cr3 E) then Panic Fatal
                   else Ok (Some \<lparr>pl_cpus = filter ce_enabled (mi_cpus m), pl_bsp_id = bsp_id, pl_ab_va = ab_va, pl_ab_pa = ab_pa,
                                  pl_tramp_virt = tramp_virt, pl_vector = vector\<rparr>, st6))))))))))"

definition boot_all_aps :: "smp_env \<Rightarrow> ('pt, 'h) kenv \<Rightarrow> BootInfo \<Rightarrow> ('pt, 'h) smp \<Rightarrow> ('pt, 'h) smp res" where
  "boot_all_aps E K boot st =
     rbind (smp_setup E K boot st) (\<lambda>(r, st1).
       case r of
         None \<Rightarrow> Ok st1
       | Some p \<Rightarrow> start_cpus E K (hhdm_base boot) (pl_ab_va p) (pl_ab_pa p) (pl_tramp_virt p) (pl_vector p) (pl_bsp_id p) (pl_cpus p) st1)"

end
