(* ===== verification/Madt_Props.thy ===== *)
theory Madt_Props
  imports Madt Bytes
begin

unbundle bit_operations_syntax

text \<open>
  Discovery against a specification of the tables: what firmware writes into memory is described by
  a list of entries and its encoding, and discovery returns exactly those entries.
\<close>

section \<open>Entries and their bytes\<close>

datatype MadtItem =
    LocalApic u8 u8 u32
  | IoApicItem u8 u32 u32
  | LapicOverride u64
  | X2Apic u32 u32 u32
  | OtherItem u8 "u8 list"

fun enc :: "MadtItem \<Rightarrow> u8 list" where
  "enc (LocalApic uid aid flags) = [0, 8, uid, aid] @ le_bytes 4 flags"
| "enc (IoApicItem aid base gsi) = [1, 12, aid, 0] @ le_bytes 4 base @ le_bytes 4 gsi"
| "enc (LapicOverride addr) = [5, 12, 0, 0] @ le_bytes 8 addr"
| "enc (X2Apic aid flags uid) = [9, 16, 0, 0] @ le_bytes 4 aid @ le_bytes 4 flags @ le_bytes 4 uid"
| "enc (OtherItem t body) = [t, of_nat (length body + 2)] @ body"

fun item_ok :: "MadtItem \<Rightarrow> bool" where
  "item_ok (OtherItem t body) \<longleftrightarrow> t \<notin> {0, 1, 5, 9} \<and> length body \<le> 253"
| "item_ok i \<longleftrightarrow> True"

fun apply_item :: "MadtItem \<Rightarrow> MadtInfo \<Rightarrow> MadtInfo" where
  "apply_item (LocalApic uid aid flags) mi =
     mi\<lparr>mi_cpus := mi_cpus mi @ [\<lparr>ce_apic_id = ucast aid, ce_enabled = (flags AND 1 \<noteq> 0), ce_is_x2apic = False\<rparr>]\<rparr>"
| "apply_item (IoApicItem aid base gsi) mi =
     mi\<lparr>mi_ioapics := mi_ioapics mi @ [\<lparr>ia_id = aid, ia_mmio_base_phys = ucast base, ia_gsi_base = gsi\<rparr>]\<rparr>"
| "apply_item (LapicOverride addr) mi = mi\<lparr>mi_lapic_phys := addr\<rparr>"
| "apply_item (X2Apic aid flags uid) mi =
     mi\<lparr>mi_cpus := mi_cpus mi @ [\<lparr>ce_apic_id = aid, ce_enabled = (flags AND 1 \<noteq> 0), ce_is_x2apic = True\<rparr>]\<rparr>"
| "apply_item (OtherItem t body) mi = mi"

text \<open>Reading from the middle of a list of bytes.\<close>

lemma at_drop:
  assumes "drop p bytes = as @ bs"
  shows "i < length as \<Longrightarrow> idx bytes (p + i) = Ok (as ! i)"
    and "i \<le> j \<Longrightarrow> 0 < j \<Longrightarrow> j \<le> length as \<Longrightarrow> slice bytes (p + i) (p + j) = Ok (take (j - i) (drop i as))"
proof -
  have len: "length bytes - p = length as + length bs"
    using arg_cong [OF assms, of length] by simp
  show "idx bytes (p + i) = Ok (as ! i)" if "i < length as"
    using arg_cong [OF assms, of "\<lambda>xs. xs ! i"] len that by (simp add: idx_def nth_append)
  show "slice bytes (p + i) (p + j) = Ok (take (j - i) (drop i as))" if "i \<le> j" "0 < j" "j \<le> length as"
    using arg_cong [OF assms, of "drop i"] len that by (simp add: slice_def add.commute)
qed

lemma enc_head:
  assumes "item_ok e"
  shows "2 \<le> length (enc e)" "unat (enc e ! 1) = length (enc e)"
proof -
  show "2 \<le> length (enc e)"
    by (cases e) simp_all
  have "unat (of_nat (length body + 2) :: u8) = length body + 2" if "length body \<le> 253" for body :: "u8 list"
    using that by (simp only: unsigned_of_nat) (simp add: take_bit_nat_eq_self)
  then show "unat (enc e ! 1) = length (enc e)"
    using assms by (cases e) simp_all
qed

lemma madt_entry_enc:
  assumes "item_ok e" "drop p bytes = enc e @ rest"
  shows "madt_entry bytes p (enc e ! 0) (enc e ! 1) mi = Ok (apply_item e mi)"
proof (cases e)
  case (LocalApic uid aid flags)
  then show ?thesis
    using at_drop [OF assms(2), of 3] at_drop(2) [OF assms(2), of 4 8]
    by (simp add: madt_entry_def PLAPIC_def from_le_32)
next
  case (IoApicItem aid base gsi)
  then show ?thesis
    using at_drop [OF assms(2), of 2] at_drop(2) [OF assms(2), of 4 8] at_drop(2) [OF assms(2), of 8 12]
    by (simp add: madt_entry_def PLAPIC_def IOAPIC_def from_le_32)
next
  case (LapicOverride addr)
  then show ?thesis
    using at_drop(2) [OF assms(2), of 4 12]
    by (simp add: madt_entry_def PLAPIC_def IOAPIC_def LAPIC_ADDR_OVERRIDE_def from_le_64)
next
  case (X2Apic aid flags uid)
  then show ?thesis
    using at_drop(2) [OF assms(2), of 4 8] at_drop(2) [OF assms(2), of 8 12]
    by (simp add: madt_entry_def PLAPIC_def IOAPIC_def LAPIC_ADDR_OVERRIDE_def PLX2APIC_def from_le_32)
next
  case (OtherItem t body)
  then show ?thesis
    using assms(1) by (simp add: madt_entry_def PLAPIC_def IOAPIC_def LAPIC_ADDR_OVERRIDE_def PLX2APIC_def)
qed

lemma madt_loop_items:
  assumes "\<forall>e\<in>set es. item_ok e" "drop p bytes = concat (map enc es)" "p \<le> length bytes"
  shows "madt_loop bytes (length bytes) p mi = Ok (fold apply_item es mi)"
  using assms
proof (induction es arbitrary: p mi)
  case Nil
  then show ?case
    by (subst madt_loop.simps) simp
next
  case (Cons e es)
  have d: "drop p bytes = enc e @ concat (map enc es)" and ok: "item_ok e"
    using Cons.prems by simp_all
  have len: "length bytes = p + length (enc e) + length (concat (map enc es))"
    using arg_cong [OF d, of length] Cons.prems(3) enc_head(1) [OF ok] by simp
  have rest: "drop (p + length (enc e)) bytes = concat (map enc es)"
    using arg_cong [OF d, of "drop (length (enc e))"] by (simp add: add.commute)
  have "madt_loop bytes (length bytes) p mi = madt_loop bytes (length bytes) (p + length (enc e)) (apply_item e mi)"
  proof -
    have "0 < length (enc e)" "1 < length (enc e)"
      using enc_head(1) [OF ok] by linarith+
    then have i: "idx bytes p = Ok (enc e ! 0)" "idx bytes (p + 1) = Ok (enc e ! 1)"
      using at_drop(1) [OF d, of 0] at_drop(1) [OF d, of 1] by (simp_all only: add_0_right simp_thms)
    have "p + 2 \<le> length bytes" "unat (enc e ! 1) \<noteq> 0"
      using enc_head [OF ok] len by auto
    then show ?thesis
      by (simp only: madt_loop.simps [of bytes "length bytes" p] i rbind.simps if_True if_False madt_entry_enc [OF ok d] enc_head(2) [OF ok])
  qed
  then show ?case
    using Cons.IH [OF _ rest] Cons.prems(1) len by simp
qed

section \<open>Tables in memory\<close>

definition holds :: "(u64 \<Rightarrow> u8) \<Rightarrow> u64 \<Rightarrow> u64 \<Rightarrow> u8 list \<Rightarrow> bool" where
  "holds mem hhdm phys t \<longleftrightarrow> unat hhdm + unat phys + length t < 2 ^ 64 \<and> (\<forall>i<length t. mem (hhdm + phys + of_nat i) = t ! i)"

lemma read_holds:
  assumes "holds mem hhdm phys t" "n \<le> length t"
  shows "read_phys_slice dbg mem hhdm phys n = Ok (take n t)"
proof -
  have "map (\<lambda>i. mem (hhdm + phys + of_nat i)) [0..<n] = take n t"
    using assms by (intro nth_equalityI) (simp_all add: holds_def)
  then show ?thesis
    using assms by (simp add: read_phys_slice_def u_add_def holds_def)
qed

definition is_sdt :: "u8 list \<Rightarrow> u8 list \<Rightarrow> bool" where
  "is_sdt sig t \<longleftrightarrow> 36 \<le> length t \<and> length t < 2 ^ 32 \<and> take 4 t = sig \<and> take 4 (drop 4 t) = le_bytes 4 (of_nat (length t) :: u32) \<and> checksum_ok t"

lemma sdt_valid_holds:
  assumes "holds mem hhdm phys t" "is_sdt sig t"
  shows "\<exists>h. sdt_valid dbg mem hhdm phys = Ok (Some h) \<and> sh_sig h = sig \<and> sh_length h = of_nat (length t)"
proof -
  have r: "read_phys_slice dbg mem hhdm phys 36 = Ok (take 36 t)"
    using assms by (intro read_holds) (simp_all add: is_sdt_def)
  have len: "unat (of_nat (length t) :: u32) = length t"
    using assms(2) by (simp add: is_sdt_def unsigned_of_nat take_bit_nat_eq_self)
  then have all: "read_phys_slice dbg mem hhdm phys (unat (of_nat (length t) :: u32)) = Ok t"
    using read_holds [OF assms(1), of "length t"] by simp
  have s: "slice (take 36 t) 0 4 = Ok sig" "slice (take 36 t) 4 8 = Ok (le_bytes 4 (of_nat (length t) :: u32))"
    using assms(2) by (simp_all add: is_sdt_def slice_def drop_take)
  have i: "\<exists>a b. idx (take 36 t) 8 = Ok a \<and> idx (take 36 t) 9 = Ok b"
    using assms(2) by (simp add: is_sdt_def idx_def)
  have "\<not> (of_nat (length t) :: u32) < 36"
    using assms(2) len by (simp add: is_sdt_def word_less_nat_alt)
  then show ?thesis
    using i assms(2) unfolding sdt_valid_def r s rbind.simps from_le_32 Let_def
    by (auto simp: all is_sdt_def from_le_32)
qed

text \<open>A table that a search for a signature passes over.\<close>

definition passed_over :: "bool \<Rightarrow> (u64 \<Rightarrow> u8) \<Rightarrow> u64 \<Rightarrow> u8 list \<Rightarrow> u64 \<Rightarrow> bool" where
  "passed_over dbg mem hhdm want q \<longleftrightarrow>
     (\<exists>r. sdt_valid dbg mem hhdm q = Ok r \<and> (case r of Some h \<Rightarrow> sh_sig h \<noteq> want | None \<Rightarrow> True))"

lemma holds_drop:
  assumes "holds mem hhdm phys t" "k \<le> length t"
  shows "holds mem hhdm (phys + of_nat k) (drop k t)"
proof -
  have "unat (of_nat k :: u64) = k"
    using assms by (intro unat_of_nat_64) (simp add: holds_def)
  then have "unat (phys + of_nat k) = unat phys + k"
    using assms by (subst unat_add_ok) (simp_all add: holds_def)
  moreover have "mem (hhdm + (phys + of_nat k) + of_nat i) = t ! (k + i)" if "i < length t - k" for i
    using assms that by (auto simp: holds_def add.assoc dest!: spec [of _ "k + i"])
  ultimately show ?thesis
    using assms by (simp add: holds_def)
qed

lemma nth_concat_le: "j < length ps \<Longrightarrow> take 8 (drop (8 * j) (concat (map (le_bytes 8) ps))) = le_bytes 8 (ps ! j)"
proof (induction ps arbitrary: j)
  case (Cons p ps)
  then show ?case
    by (cases j) simp_all
qed simp

lemma find_loop_step:
  assumes "holds mem hhdm root t" "drop 36 t = concat (map (le_bytes 8) ps)" "36 \<le> length t" "j < length ps"
  shows "find_loop dbg mem hhdm root want 8 (Suc n) j =
    rbind (sdt_valid dbg mem hhdm (ps ! j)) (\<lambda>r.
      case r of
        Some thdr \<Rightarrow> if sh_sig thdr = want then Ok (Some (ps ! j, sh_length thdr)) else find_loop dbg mem hhdm root want 8 n (Suc j)
      | None \<Rightarrow> find_loop dbg mem hhdm root want 8 n (Suc j))"
proof -
  have len: "length t = 36 + 8 * length ps"
    using arg_cong [OF assms(2), of length] assms(3) by (simp add: length_concat comp_def sum_list_triv)
  have t64: "unat hhdm + unat root + length t < 2 ^ 64"
    using assms(1) by (simp add: holds_def)
  have j: "unat (of_nat j :: u64) = j"
    using assms(4) len t64 by (intro unat_of_nat_64) simp
  have j8: "unat (of_nat j * 8 :: u64) = 8 * j"
    using assms(4) len t64 unat_of_nat_64 [of "8 * j"] by (simp add: mult.commute)
  have a1: "unat (root + 36) = unat root + 36"
    using t64 len by (subst unat_add_ok) simp_all
  have ok: "u_add dbg root 36 = Ok (root + 36)" "u_mul dbg (of_nat j) (of_nat 8) = Ok (of_nat j * 8 :: u64)"
    "u_add dbg (root + 36) (of_nat j * 8) = Ok (root + 36 + of_nat j * 8)"
    using t64 len assms(4) j j8 a1 by (simp_all add: u_add_def u_mul_def)
  have "root + 36 + of_nat j * 8 = root + of_nat (36 + 8 * j)"
    by (simp add: algebra_simps)
  moreover have "take 8 (drop (36 + 8 * j) t) = le_bytes 8 (ps ! j)"
    using nth_concat_le [OF assms(4)] assms(2) by (metis drop_drop add.commute)
  ultimately have "read_phys_slice dbg mem hhdm (root + 36 + of_nat j * 8) 8 = Ok (le_bytes 8 (ps ! j))"
    using read_holds [OF holds_drop [OF assms(1), of "36 + 8 * j"], of 8 dbg] len assms(4) by (simp only: length_drop)
  then show ?thesis
    by (simp only: find_loop.simps ok rbind.simps Let_def from_le_64)
qed

lemma find_loop_first:
  assumes "holds mem hhdm root t" "drop 36 t = concat (map (le_bytes 8) (qs @ m # rs))" "36 \<le> length t"
    and "\<forall>q\<in>set qs. passed_over dbg mem hhdm want q" "sdt_valid dbg mem hhdm m = Ok (Some h)" "sh_sig h = want"
    and "i \<le> length qs"
  shows "find_loop dbg mem hhdm root want 8 (length (qs @ m # rs) - i) i = Ok (Some (m, sh_length h))"
  using assms(7)
proof (induction "length qs - i" arbitrary: i)
  case 0
  then have i: "i = length qs"
    by simp
  show ?case
    using find_loop_step [OF assms(1-3), of i dbg want "length rs"] assms(5,6) by (simp add: i)
next
  case (Suc x)
  then have i: "i < length qs"
    by simp
  have q: "(qs @ m # rs) ! i = qs ! i" "passed_over dbg mem hhdm want (qs ! i)"
    using i assms(4) by (simp_all add: nth_append)
  have n: "length (qs @ m # rs) - i = Suc (length (qs @ m # rs) - Suc i)"
    using i by simp
  have "find_loop dbg mem hhdm root want 8 (length (qs @ m # rs) - i) i = find_loop dbg mem hhdm root want 8 (length (qs @ m # rs) - Suc i) (Suc i)"
    using find_loop_step [OF assms(1-3), of i dbg want] q i unfolding n by (auto simp: passed_over_def split: option.splits)
  then show ?case
    using Suc.hyps(1) [of "Suc i"] Suc.hyps(2) i by simp
qed

section \<open>Discovery\<close>

text \<open>A root pointer of revision 2 or later, with the address of the extended table.\<close>

definition rsdp_ok :: "u64 \<Rightarrow> u8 list \<Rightarrow> bool" where
  "rsdp_ok xsdt r \<longleftrightarrow> length r = 36 \<and> take 8 r = RSDP_SIG \<and> checksum_ok (take 20 r) \<and> checksum_ok r \<and> 2 \<le> r ! 15 \<and>
     take 4 (drop 20 r) = le_bytes 4 (36 :: u32) \<and> take 8 (drop 24 r) = le_bytes 8 xsdt"

text \<open>A processor table with its default local-interrupt-controller address and its entries.\<close>

definition madt_table :: "u32 \<Rightarrow> MadtItem list \<Rightarrow> u8 list \<Rightarrow> bool" where
  "madt_table lapic es t \<longleftrightarrow> is_sdt APIC_SIG t \<and> 44 \<le> length t \<and> take 4 (drop 36 t) = le_bytes 4 lapic \<and>
     drop 44 t = concat (map enc es) \<and> (\<forall>e\<in>set es. item_ok e)"

lemma rsdp_xsdt:
  assumes "holds mem (hhdm_base boot) (rsdp_addr boot) r" "rsdp_ok xsdt r"
  shows "read_phys_slice dbg mem (hhdm_base boot) (rsdp_addr boot) 20 = Ok (take 20 r)"
    and "xsdt_addr_of dbg mem boot (r ! 15) = Ok xsdt"
  using assms read_holds [OF assms(1), of 20 dbg] read_holds [OF assms(1), of 36 dbg]
  by (simp_all add: rsdp_ok_def xsdt_addr_of_def from_le_32 from_le_64 Let_def del: le_bytes.simps)

lemma discover_found:
  assumes "rsdp_addr boot \<noteq> 0" "holds mem (hhdm_base boot) (rsdp_addr boot) r" "rsdp_ok xsdt r" "xsdt \<noteq> 0"
    and "holds mem (hhdm_base boot) xsdt t" "is_sdt sig t" "drop 36 t = concat (map (le_bytes 8) (qs @ m # rs))"
    and "\<forall>q\<in>set qs. passed_over dbg mem (hhdm_base boot) APIC_SIG q"
    and "holds mem (hhdm_base boot) m a" "madt_table lapic es a"
  shows "discover dbg mem boot = Ok (Some (fold apply_item es \<lparr>mi_lapic_phys = ucast lapic, mi_cpus = [], mi_ioapics = []\<rparr>))"
proof -
  let ?h = "hhdm_base boot"
  obtain hx where x: "sdt_valid dbg mem ?h xsdt = Ok (Some hx)" "sh_length hx = of_nat (length t)"
    using sdt_valid_holds [OF assms(5,6)] by blast
  obtain ha where a: "sdt_valid dbg mem ?h m = Ok (Some ha)" "sh_sig ha = APIC_SIG" "sh_length ha = of_nat (length a)"
    using sdt_valid_holds [OF assms(9), of APIC_SIG] assms(10) unfolding madt_table_def by blast
  have lens: "unat (of_nat (length t) :: u32) = length t" "unat (of_nat (length a) :: u32) = length a" "36 \<le> length t"
    using assms(6,10) by (simp_all add: is_sdt_def madt_table_def unsigned_of_nat take_bit_nat_eq_self)
  have "(length t - 36) div 8 = length (qs @ m # rs)"
    using arg_cong [OF assms(7), of length] by (simp add: length_concat comp_def sum_list_triv)
  then have "find_sdt_by_sig_xsdt dbg mem ?h xsdt APIC_SIG = Ok (Some (m, of_nat (length a)))"
    using find_loop_first [OF assms(5,7) lens(3) assms(8) a(1,2), of 0] x lens(1) a(3) by (simp add: find_sdt_by_sig_xsdt_def)
  then have find: "find_madt dbg mem boot xsdt rsdt = Ok (Some (m, of_nat (length a)))" for rsdt
    using assms(4) by (simp add: find_madt_def Let_def)
  have "madt_loop a (length a) 44 mi = Ok (fold apply_item es mi)" for mi
    using assms(10) by (intro madt_loop_items) (simp_all add: madt_table_def)
  moreover have "read_phys_slice dbg mem ?h m (length a) = Ok a" "read_phys_slice dbg mem ?h m 44 = Ok (take 44 a)"
    using assms(10) read_holds [OF assms(9)] by (simp_all add: madt_table_def)
  moreover have "take 4 (drop 36 (take 44 a)) = le_bytes 4 lapic"
    using assms(10) by (simp add: madt_table_def drop_take)
  moreover have "idx (take 20 r) 15 = Ok (r ! 15)" "take 8 (take 20 r) = RSDP_SIG" "checksum_ok (take 20 r)"
    using assms(3) by (simp_all add: rsdp_ok_def idx_def)
  ultimately show ?thesis
    unfolding discover_def using assms(1)
    by (simp only: if_False rsdp_xsdt [OF assms(2,3)] rbind.simps simp_thms find option.case prod.case lens(2) from_le_32)
qed

text \<open>C15: the processors the firmware describes are found. When the root pointer is valid and leads to a valid
  extended table, and the first valid processor table among the tables it lists holds the entries \<open>es\<close>,
  discovery does not panic and returns exactly those entries: every processor in table order with its
  identifier and enabled flag, every I/O interrupt controller, the last overriding address of the local
  one or else the default; entries of other kinds are skipped.\<close>

theorem discover_exact:
  assumes "rsdp_addr boot \<noteq> 0" "holds mem (hhdm_base boot) (rsdp_addr boot) r" "rsdp_ok xsdt r" "xsdt \<noteq> 0"
    and "holds mem (hhdm_base boot) xsdt t" "is_sdt sig t" "drop 36 t = concat (map (le_bytes 8) (qs @ m # rs))"
    and "\<forall>q\<in>set qs. passed_over dbg mem (hhdm_base boot) APIC_SIG q"
    and "holds mem (hhdm_base boot) m a" "madt_table lapic es a"
  shows "discover dbg mem boot = Ok (Some (fold apply_item es \<lparr>mi_lapic_phys = ucast lapic, mi_cpus = [], mi_ioapics = []\<rparr>))"
  by (rule discover_found [OF assms])



section \<open>Applied\<close>

definition rsdp_bytes :: "u8 list" where
  "rsdp_bytes = [82, 83, 68, 32, 80, 84, 82, 32, 223, 0, 0, 0, 0, 0, 0, 2, 0, 0, 0, 0, 36, 0, 0, 0, 0, 32, 0, 0, 0, 0, 0, 0, 188, 0, 0, 0]"

definition xsdt_bytes :: "u8 list" where
  "xsdt_bytes = [88, 83, 68, 84, 44, 0, 0, 0, 1, 96, 0, 0, 0, 0, 0, 0, 0, 0, 0, 0, 0, 0, 0, 0, 0, 0, 0, 0, 0, 0, 0, 0, 0, 0, 0, 0, 0, 48, 0, 0, 0, 0, 0, 0]"

definition madt_bytes :: "u8 list" where
  "madt_bytes = [65, 80, 73, 67, 64, 0, 0, 0, 1, 236, 0, 0, 0, 0, 0, 0, 0, 0, 0, 0, 0, 0, 0, 0, 0, 0, 0, 0, 0, 0, 0, 0, 0, 0, 0, 0, 0, 0, 224, 254, 0, 0, 0, 0, 0, 8, 0, 3, 1, 0, 0, 0, 1, 12, 1, 0, 0, 0, 192, 254, 0, 0, 0, 0]"

definition acpi_mem :: "u64 \<Rightarrow> u8" where
  "acpi_mem a =
     (if 0x1000 \<le> a \<and> a < 0x1024 then rsdp_bytes ! unat (a - 0x1000)
      else if 0x2000 \<le> a \<and> a < 0x202C then xsdt_bytes ! unat (a - 0x2000)
      else if 0x3000 \<le> a \<and> a < 0x3040 then madt_bytes ! unat (a - 0x3000)
      else 0)"

definition acpi_boot :: BootInfo where
  "acpi_boot = \<lparr>rsdp_addr = 0x1000, memory_map = [], framebuffer = \<lparr>fb_addr = 0, fb_width = 0, fb_height = 0, fb_pitch = 0, fb_bpp = 0,
     fb_pixel_format = 0\<rparr>, kernel_phys_base = 0, kernel_virt_base = 0, early_heap_paddr = 0, early_heap_len = 0, hhdm_base = 0,
     low32_pool_paddr = 0, low32_pool_len = 0\<rparr>"

lemma holdsI:
  assumes "unat hhdm + unat phys + length t < 2 ^ 64" "map (\<lambda>i. mem (hhdm + phys + of_nat i)) [0..<length t] = t"
  shows "holds mem hhdm phys t"
proof -
  have "mem (hhdm + phys + of_nat i) = t ! i" if "i < length t" for i
    using arg_cong [OF assms(2), of "\<lambda>xs. xs ! i"] that by simp
  then show ?thesis
    using assms(1) by (simp add: holds_def)
qed

lemma acpi_facts:
  "holds acpi_mem 0 0x1000 rsdp_bytes" "holds acpi_mem 0 0x2000 xsdt_bytes" "holds acpi_mem 0 0x3000 madt_bytes"
  "rsdp_ok 0x2000 rsdp_bytes" "is_sdt (map of_char ''XSDT'') xsdt_bytes"
  "drop 36 xsdt_bytes = concat (map (le_bytes 8) ([] @ (0x3000 :: u64) # []))"
  "madt_table 0xFEE00000 [LocalApic 0 3 1, IoApicItem 1 0xFEC00000 0] madt_bytes"
proof -
  have lens: "length rsdp_bytes = 36" "length xsdt_bytes = 44" "length madt_bytes = 64"
    by (simp_all add: rsdp_bytes_def xsdt_bytes_def madt_bytes_def)
  show "holds acpi_mem 0 0x1000 rsdp_bytes" "holds acpi_mem 0 0x2000 xsdt_bytes" "holds acpi_mem 0 0x3000 madt_bytes"
    by (rule holdsI, simp add: lens, code_simp)+
  have "take 4 xsdt_bytes = map of_char ''XSDT''" "take 4 (drop 4 xsdt_bytes) = le_bytes 4 (44 :: u32)" "checksum_ok xsdt_bytes"
    "take 4 madt_bytes = APIC_SIG" "take 4 (drop 4 madt_bytes) = le_bytes 4 (64 :: u32)" "checksum_ok madt_bytes"
    "take 4 (drop 36 madt_bytes) = le_bytes 4 (0xFEE00000 :: u32)"
    "drop 44 madt_bytes = concat (map enc [LocalApic 0 3 1, IoApicItem 1 0xFEC00000 0])"
    by code_simp+
  then show "madt_table 0xFEE00000 [LocalApic 0 3 1, IoApicItem 1 0xFEC00000 0] madt_bytes" "is_sdt (map of_char ''XSDT'') xsdt_bytes"
    by (simp_all only: madt_table_def is_sdt_def lens) simp_all
  show "rsdp_ok 0x2000 rsdp_bytes" "drop 36 xsdt_bytes = concat (map (le_bytes 8) ([] @ (0x3000 :: u64) # []))"
    by code_simp+
qed

definition acpi_info :: MadtInfo where
  "acpi_info = \<lparr>mi_lapic_phys = 0xFEE00000, mi_cpus = [\<lparr>ce_apic_id = 3, ce_enabled = True, ce_is_x2apic = False\<rparr>],
     mi_ioapics = [\<lparr>ia_id = 1, ia_mmio_base_phys = 0xFEC00000, ia_gsi_base = 0\<rparr>]\<rparr>"

lemma acpi_boot_fields: "hhdm_base acpi_boot = 0" "rsdp_addr acpi_boot = 0x1000"
  by (simp_all add: acpi_boot_def)

lemma acpi_discover: "discover True acpi_mem acpi_boot = Ok (Some acpi_info)"
  using discover_found [of acpi_boot acpi_mem rsdp_bytes "0x2000" xsdt_bytes _ "[]" "0x3000" "[]" True madt_bytes,
      OF _ _ acpi_facts(4) _ _ acpi_facts(5,6) _ _ acpi_facts(7)] acpi_facts(1-3)
  by (simp add: acpi_boot_fields acpi_info_def)

theorem discover_exact_witness: "discover True acpi_mem acpi_boot = Ok (Some acpi_info)"
  using discover_exact [of acpi_boot acpi_mem rsdp_bytes "0x2000" xsdt_bytes _ "[]" "0x3000" "[]" True madt_bytes,
      OF _ _ acpi_facts(4) _ _ acpi_facts(5,6) _ _ acpi_facts(7)] acpi_facts(1-3)
  by (simp add: acpi_boot_fields acpi_info_def)

end
