(* ===== verification/Kernel_Windows.thy ===== *)
theory Kernel_Windows
  imports Kernel_Mem
begin

unbundle bit_operations_syntax

text \<open>
  What the windows of the kernel address space are backed by (\<^verbatim>\<open>mem/mod.rs\<close>): every page that
  \<open>vmap_alloc_pages\<close> returns, and every page of an allocation of the demand-mapped heap, translates
  to a frame of its own that was free before.

  The page-table operations are those of the \<^verbatim>\<open>x86_64\<close> crate; \<open>mapper_api\<close> states what it documents of
  \<open>map_to\<close> on a page that is not mapped yet, and that translation goes by pages.
\<close>

section \<open>The page-table crate\<close>

definition canonical :: "u64 \<Rightarrow> bool" where
  "canonical va \<longleftrightarrow> va < 0x800000000000 \<or> 0xFFFF800000000000 \<le> va"

definition map_page :: "(u64 \<Rightarrow> u64 option) \<Rightarrow> u64 \<Rightarrow> u64 \<Rightarrow> u64 \<Rightarrow> u64 option" where
  "map_page t page frame = (\<lambda>va. if va AND NOT 0xFFF = page then Some (frame + (va AND 0xFFF)) else t va)"

text \<open>
  Mapping an unmapped page takes some number of frames, at most three, from the given allocator for
  the missing tables. If the allocator runs dry nothing is mapped; if it panics so does the call.
\<close>

definition map_to_outcome ::
  "'pt x86_ops \<Rightarrow> frame_fn \<Rightarrow> u64 \<Rightarrow> u64 \<Rightarrow> 'pt \<Rightarrow> FrameState \<Rightarrow> (MapToError option \<times> 'pt \<times> FrameState) res \<Rightarrow> nat \<Rightarrow> bool" where
  "map_to_outcome X alloc page frame pt fs r k =
     (case take_frames alloc k fs of
        Panic p \<Rightarrow> r = Panic p
      | Ok (gs, fs') \<Rightarrow>
          if length gs < k then
            \<exists>pt'. r = Ok (Some FrameAllocationFailed, pt', fs') \<and> x_translate X pt' = x_translate X pt
          else
            \<exists>pt'. r = Ok (None, pt', fs') \<and> x_translate X pt' = map_page (x_translate X pt) page frame)"

definition mapper_api :: "'pt x86_ops \<Rightarrow> bool" where
  "mapper_api X \<longleftrightarrow>
     (\<forall>va. canonical va \<longrightarrow> x_virt_page X va = Ok (va AND NOT 0xFFF)) \<and>
     (\<forall>pt va. x_translate X pt va = None \<longleftrightarrow> x_translate X pt (va AND NOT 0xFFF) = None) \<and>
     (\<forall>alloc page frame flags tflags pt fs.
        page AND 0xFFF = 0 \<longrightarrow> x_translate X pt page = None \<longrightarrow>
        (\<exists>k\<le>3. map_to_outcome X alloc page frame pt fs (x_map_to X alloc page frame flags tflags pt fs) k))"

section \<open>One page\<close>

text \<open>The invariant of a guard that \<open>TinyAllocGuard::new\<close> accepts: the bump allocator is in place and stays there.\<close>

definition seeded_inv :: "(u64 \<times> u64) hvec_ops \<Rightarrow> (u64 \<Rightarrow> u64 res) \<Rightarrow> Resv list \<Rightarrow> FrameState \<Rightarrow> bool" where
  "seeded_inv hv phys_frame resv fs \<longleftrightarrow> guard_inv hv phys_frame resv fs \<and> frame_alloc fs \<noteq> None"

lemma alloc_keeps_seed:
  assumes "TinyAllocGuard_allocate_frame hv phys_frame dbg resv fs = Ok (r, fs')" "frame_alloc fs \<noteq> None"
  shows "frame_alloc fs' \<noteq> None"
  using assms by (auto simp: TinyAllocGuard_allocate_frame_def Let_def split: option.splits prod.splits)

interpretation seeded: frame_source "TinyAllocGuard_allocate_frame hv phys_frame dbg resv" "guard_pool resv"
  "seeded_inv hv phys_frame resv"
proof
  fix fs
  assume "seeded_inv hv phys_frame resv fs"
  then show "alloc_post (seeded_inv hv phys_frame resv) (guard_pool resv) fs (TinyAllocGuard_allocate_frame hv phys_frame dbg resv fs)"
    using TinyAllocGuard_allocate_frame_spec [of hv phys_frame resv fs dbg] alloc_keeps_seed [of hv phys_frame dbg resv fs]
    by (auto simp: seeded_inv_def alloc_post_def split: res.splits option.splits)
qed

definition frames_ok :: "('pt, 'h) kenv \<Rightarrow> ('pt, 'h) MemState \<Rightarrow> bool" where
  "frames_ok K st \<longleftrightarrow> seeded_inv (ke_usable_vec K) (x_phys_frame (ke_x86 K)) (km_resv st) (km_frames st)"

lemma frames_ok_guard: "frames_ok K st \<Longrightarrow> take_guard st = Some (km_frames st)"
  by (auto simp: frames_ok_def seeded_inv_def take_guard_def TinyAllocGuard_new_def)

definition kpool :: "('pt, 'h) MemState \<Rightarrow> nat set" where
  "kpool st = guard_pool (km_resv st) (km_frames st)"

definition translation :: "('pt, 'h) kenv \<Rightarrow> ('pt, 'h) MemState \<Rightarrow> u64 \<Rightarrow> u64 option" where
  "translation K st = x_translate (ke_x86 K) (km_pt st)"

text \<open>Only the page table and the frame allocators differ.\<close>

definition paging_only :: "('pt, 'h) MemState \<Rightarrow> ('pt, 'h) MemState \<Rightarrow> bool" where
  "paging_only st st' \<longleftrightarrow> st' = st\<lparr>km_pt := km_pt st', km_frames := km_frames st'\<rparr>"

lemma paging_only_refl [simp]: "paging_only st st"
  by (simp add: paging_only_def)

lemma paging_only_trans: "paging_only st st1 \<Longrightarrow> paging_only st1 st2 \<Longrightarrow> paging_only st st2"
  by (cases st; cases st1; cases st2) (simp add: paging_only_def)

lemma paging_only_upd [simp]: "paging_only st (st\<lparr>km_frames := fs\<rparr>)" "paging_only st (st\<lparr>km_pt := pt, km_frames := fs\<rparr>)"
  by (cases st, simp add: paging_only_def)+

lemma paging_only_resv: "paging_only st st' \<Longrightarrow> km_resv st' = km_resv st"
  by (cases st; cases st') (simp add: paging_only_def)

lemma pool_pages:
  assumes "frames_ok K st" "p \<in> kpool st"
  shows "4096 dvd p" "p < 2 ^ 52"
proof -
  obtain lo hi where "p \<in> free_pages (km_resv st) lo hi" "hi \<le> 2 ^ 52"
    using assms unfolding frames_ok_def seeded_inv_def kpool_def guard_inv_def guard_pool_def
    by (fastforce simp: bump_pool_def usable_pool_def bump_inv_def usable_inv_def range_ok_def list_all_iff split: option.splits)
  then show "4096 dvd p" "p < 2 ^ 52"
    by (auto simp: free_pages_def)
qed

lemma finite_kpool: "finite (kpool st)"
  by (auto simp: kpool_def guard_pool_def bump_pool_def usable_pool_def split: option.splits)

lemma page_frame_id:
  assumes "page_aligned f" "unat f < 2 ^ 52"
  shows "pa_mask_52 f AND NOT 0xFFF = f"
proof -
  have "pa_mask_52 f = take_bit 52 f"
    by (simp add: pa_mask_52_def take_bit_eq_mask mask_eq_exp_minus_1)
  also have "\<dots> = f"
    using assms(2) by (simp add: word_unat_eq_iff unsigned_take_bit_eq take_bit_nat_eq_self_iff)
  finally have "pa_mask_52 f = f" .
  then show ?thesis
    using align_down_id [OF assms(1)] by (simp add: align_down_def)
qed

lemma kernel_alloc_some:
  assumes "frames_ok K st" "kpool st \<noteq> {}"
  obtains f st' where "kernel_alloc K st = Ok (Some f, st')" "frames_ok K st'" "unat f \<in> kpool st"
    "kpool st' = kpool st - {unat f}" "paging_only st st'" "km_pt st' = km_pt st"
proof -
  have inv: "seeded_inv (ke_usable_vec K) (x_phys_frame (ke_x86 K)) (km_resv st) (km_frames st)"
    using assms(1) by (simp add: frames_ok_def)
  from seeded.alloc_law [OF this, of "ke_dbg K"] assms(2) obtain f fs where
    f: "kalloc_frame K (km_resv st) (km_frames st) = Ok (Some f, fs)"
      "seeded_inv (ke_usable_vec K) (x_phys_frame (ke_x86 K)) (km_resv st) fs"
      "unat f \<in> kpool st" "guard_pool (km_resv st) fs = kpool st - {unat f}"
    by (auto simp: alloc_post_def kalloc_frame_def kpool_def split: res.splits option.splits)
  then show thesis
    by (intro that [of f "st\<lparr>km_frames := fs\<rparr>"]) (simp_all add: kernel_alloc_def frames_ok_def kpool_def)
qed

lemma page_base: "page_aligned va \<Longrightarrow> va AND NOT 0xFFF = va" "page_aligned va \<Longrightarrow> va AND 0xFFF = 0"
proof -
  assume "page_aligned va"
  then show a: "va AND NOT 0xFFF = va"
    using align_down_id [of va] by (simp add: align_down_def)
  have "va AND 0xFFF = (va AND NOT 0xFFF) AND 0xFFF"
    using a by simp
  also have "\<dots> = 0"
    by (simp add: and.assoc)
  finally show "va AND 0xFFF = 0" .
qed

lemma map_to_fresh:
  assumes "mapper_api (ke_x86 K)" "frames_ok K st" "page AND 0xFFF = 0" "translation K st page = None" "3 \<le> card (kpool st)"
  obtains gs :: "u64 list" and st' where "map_to K page frame flags tflags st = Ok (None, st')" "frames_ok K st'" "length gs \<le> 3"
    "unat ` set gs \<subseteq> kpool st" "kpool st' = kpool st - unat ` set gs" "paging_only st st'"
    "translation K st' = map_page (translation K st) page frame"
proof -
  let ?alloc = "kalloc_frame K (km_resv st)"
  obtain k where k: "k \<le> 3" "map_to_outcome (ke_x86 K) ?alloc page frame (km_pt st) (km_frames st)
      (x_map_to (ke_x86 K) ?alloc page frame flags tflags (km_pt st) (km_frames st)) k"
    using assms(1,3,4) unfolding mapper_api_def translation_def by blast
  have inv: "seeded_inv (ke_usable_vec K) (x_phys_frame (ke_x86 K)) (km_resv st) (km_frames st)"
    using assms(2) by (simp add: frames_ok_def)
  from seeded.take_frames_spec [OF this, of "ke_dbg K" k] finite_kpool [of st] k(1) assms(5)
  obtain gs fs where gs: "take_frames ?alloc k (km_frames st) = Ok (gs, fs)"
      "seeded_inv (ke_usable_vec K) (x_phys_frame (ke_x86 K)) (km_resv st) fs" "length gs = k"
      "unat ` set gs \<subseteq> kpool st" "guard_pool (km_resv st) fs = kpool st - unat ` set gs"
    by (auto simp: kalloc_frame_def kpool_def min_def)
  with k(2) obtain pt' where "x_map_to (ke_x86 K) ?alloc page frame flags tflags (km_pt st) (km_frames st) = Ok (None, pt', fs)"
    "x_translate (ke_x86 K) pt' = map_page (x_translate (ke_x86 K) (km_pt st)) page frame"
    by (auto simp: map_to_outcome_def)
  with gs k(1) show thesis
    by (intro that [of "st\<lparr>km_pt := pt', km_frames := fs\<rparr>" gs]) (simp_all add: map_to_def frames_ok_def kpool_def translation_def)
qed

text \<open>A frame for an unmapped page, taken and mapped: what both windows do for each of their pages.\<close>

lemma fresh_mapping:
  assumes "mapper_api (ke_x86 K)" "frames_ok K st" "page_aligned va" "translation K st va = None" "4 \<le> card (kpool st)"
  obtains f st1 st2 where "kernel_alloc K st = Ok (Some f, st1)" "map_to K va f flags tflags st1 = Ok (None, st2)" "unat f \<in> kpool st"
    "frames_ok K st2" "kpool st2 \<subseteq> kpool st - {unat f}" "card (kpool st) \<le> card (kpool st2) + 4" "paging_only st st2"
    "translation K st2 = map_page (translation K st) va f"
proof -
  have "kpool st \<noteq> {}"
    using assms(5) by auto
  then obtain f st1 where f: "kernel_alloc K st = Ok (Some f, st1)" "frames_ok K st1" "unat f \<in> kpool st"
    "kpool st1 = kpool st - {unat f}" "paging_only st st1" "km_pt st1 = km_pt st"
    using assms(2) by (rule_tac kernel_alloc_some)
  have card1: "card (kpool st1) = card (kpool st) - 1"
    using f(3,4) finite_kpool by simp
  have t1: "translation K st1 = translation K st"
    using f(6) by (simp add: translation_def)
  then have "translation K st1 va = None" "3 \<le> card (kpool st1)"
    using assms(4,5) card1 by simp_all
  from map_to_fresh [OF assms(1) f(2) page_base(2) [OF assms(3)] this, of f flags tflags]
  obtain gs :: "u64 list" and st2 where st2: "map_to K va f flags tflags st1 = Ok (None, st2)" "frames_ok K st2" "length gs \<le> 3"
    "unat ` set gs \<subseteq> kpool st1" "kpool st2 = kpool st1 - unat ` set gs" "paging_only st1 st2"
    "translation K st2 = map_page (translation K st1) va f" .
  have "card (unat ` set gs) \<le> 3"
    using card_length [of gs] st2(3) by (intro order_trans [OF card_image_le]) simp_all
  then have "card (kpool st) \<le> card (kpool st2) + 4"
    using st2(4,5) card1 assms(5) finite_kpool [of st1] by (simp add: card_Diff_subset)
  then show thesis
    using f st2 t1 paging_only_trans [OF f(5) st2(6)] by (intro that [of f st1 st2]) auto
qed

lemma virt_page:
  assumes "mapper_api (ke_x86 K)" "page_aligned va" "canonical va"
  shows "x_virt_page (ke_x86 K) va = Ok va"
  using assms(1,3) page_base(1) [OF assms(2)] unfolding mapper_api_def by metis

lemma fresh_page:
  assumes "mapper_api (ke_x86 K)" "frames_ok K st" "page_aligned va" "canonical va" "translation K st va = None" "4 \<le> card (kpool st)"
  obtains f st1 st2 where "kernel_alloc K st = Ok (Some f, st1)" "map_4k K va f flags st1 = Ok st2" "unat f \<in> kpool st"
    "frames_ok K st2" "kpool st2 \<subseteq> kpool st - {unat f}" "card (kpool st) \<le> card (kpool st2) + 4" "paging_only st st2"
    "translation K st2 = map_page (translation K st) va f"
proof -
  from fresh_mapping [OF assms(1-3,5,6), of flags None]
  obtain f st1 st2 where st2: "kernel_alloc K st = Ok (Some f, st1)" "map_to K va f flags None st1 = Ok (None, st2)" "unat f \<in> kpool st"
    "frames_ok K st2" "kpool st2 \<subseteq> kpool st - {unat f}" "card (kpool st) \<le> card (kpool st2) + 4" "paging_only st st2"
    "translation K st2 = map_page (translation K st) va f" .
  have pf: "page_aligned f" "unat f < 2 ^ 52"
    using pool_pages [OF assms(2) st2(3)] by simp_all
  moreover have "x_phys_frame (ke_x86 K) f = Ok f"
    using assms(2) pf by (intro phys_frame_page) (simp_all add: frames_ok_def seeded_inv_def guard_inv_def usable_inv_def)
  ultimately have "map_4k K va f flags st1 = Ok st2"
    using st2(2) virt_page [OF assms(1,3,4)] unfolding map_4k_def Let_def page_frame_id [OF pf] by simp
  with st2 show thesis
    by (intro that)
qed

section \<open>A window of pages\<close>

definition page_off :: "nat \<Rightarrow> u64" where
  "page_off k = of_nat (4096 * k)"

lemma page_off_0 [simp]: "page_off 0 = 0"
  by (simp add: page_off_def)

lemma page_off_Suc: "page_off (Suc k) = page_off k + 4096"
  by (simp add: page_off_def algebra_simps)

lemma unat_page_off: "4096 * k < 2 ^ 64 \<Longrightarrow> unat (page_off k) = 4096 * k"
  unfolding page_off_def by (rule unat_of_nat_64)

text \<open>The translation after \<open>fs\<close> back the pages from \<open>base\<close> on.\<close>

definition window_map :: "u64 \<Rightarrow> u64 list \<Rightarrow> (u64 \<Rightarrow> u64 option) \<Rightarrow> u64 \<Rightarrow> u64 option" where
  "window_map base fs t = (\<lambda>va.
     if unat base \<le> unat va \<and> unat va < unat base + 4096 * length fs
     then Some (fs ! ((unat va - unat base) div 4096) + (va AND 0xFFF)) else t va)"

lemma window_map_Nil [simp]: "window_map base [] t = t"
  by (rule ext) (auto simp: window_map_def)

lemma page_number_iff: "4096 * (v div 4096) = 4096 * q \<longleftrightarrow> 4096 * q \<le> v \<and> v < 4096 * q + 4096" for v q :: nat
proof -
  have "v = 4096 * (v div 4096) + v mod 4096" "v mod 4096 < 4096"
    by simp_all
  then show ?thesis
    by (cases "v div 4096" q rule: linorder_cases) linarith+
qed

lemma page_of_iff:
  assumes "page_aligned page"
  shows "va AND NOT 0xFFF = page \<longleftrightarrow> unat page \<le> unat va \<and> unat va < unat page + 4096"
proof -
  have "unat (va AND NOT 0xFFF) = 4096 * (unat va div 4096)"
    using align_down_page [of va] unfolding align_down_def minus_mod_eq_mult_div by simp
  moreover obtain q where "unat page = 4096 * q"
    using assms by (rule dvdE)
  ultimately show ?thesis
    by (simp only: word_unat_eq_iff page_number_iff)
qed

lemma window_page:
  assumes "page_aligned base" "unat base + 4096 * k < 2 ^ 64"
  shows "unat (base + page_off k) = unat base + 4096 * k" "page_aligned (base + page_off k)"
    "u_add dbg base (page_off k) = Ok (base + page_off k)"
proof -
  have "unat (page_off k) = 4096 * k"
    using assms(2) by (intro unat_page_off) simp
  then show "unat (base + page_off k) = unat base + 4096 * k" "u_add dbg base (page_off k) = Ok (base + page_off k)"
    using assms(2) by (simp_all add: unat_add_ok u_add_ok)
  then show "page_aligned (base + page_off k)"
    using assms(1) by simp
qed

lemma next_page_number: "b + 4096 \<le> v \<Longrightarrow> (v - b) div 4096 = Suc ((v - (b + 4096)) div 4096)" for v b :: nat
  using le_div_geq [of 4096 "v - b"] by (simp add: le_diff_conv2)

lemma window_map_Cons:
  assumes "page_aligned base" "unat base + 4096 < 2 ^ 64"
  shows "window_map base (f # fs) t = window_map (base + page_off 1) fs (map_page t base f)"
proof (rule ext)
  fix va :: u64
  have u: "unat (base + page_off 1) = unat base + 4096"
    using window_page(1) [OF assms(1), of 1] assms(2) by simp
  note step = next_page_number [of "unat base" "unat va"]
  show "window_map base (f # fs) t va = window_map (base + page_off 1) fs (map_page t base f) va"
    unfolding window_map_def map_page_def page_of_iff [OF assms(1)] u
    by (cases "unat base + 4096 \<le> unat va") (auto simp: step)
qed

text \<open>The loop that backs a window page by page, without the counters the code runs it with.\<close>

primrec map_window :: "('pt, 'h) kenv \<Rightarrow> u64 \<Rightarrow> PTFlag set \<Rightarrow> nat \<Rightarrow> nat \<Rightarrow> ('pt, 'h) MemState \<Rightarrow> ('pt, 'h) MemState res" where
  "map_window K base flags k 0 st = Ok st"
| "map_window K base flags k (Suc m) st =
     rbind (kernel_alloc K st) (\<lambda>(r, st1).
     rbind (expect r) (\<lambda>f.
     rbind (map_4k K (base + page_off k) f flags st1) (\<lambda>st2. map_window K base flags (Suc k) m st2)))"

lemma map_window_maps:
  assumes "mapper_api (ke_x86 K)" "page_aligned base" "0xFFFF800000000000 \<le> base" "unat base + 4096 * n < 2 ^ 64"
    and "frames_ok K st" "k + m = n" "4 * m \<le> card (kpool st)"
    and "\<And>i. k \<le> i \<Longrightarrow> i < n \<Longrightarrow> translation K st (base + page_off i) = None"
  shows "\<exists>fs st'. map_window K base flags k m st = Ok st' \<and> frames_ok K st' \<and>
    length fs = m \<and> distinct fs \<and> unat ` set fs \<subseteq> kpool st \<and> kpool st' \<subseteq> kpool st - unat ` set fs \<and>
    card (kpool st) \<le> card (kpool st') + 4 * m \<and> paging_only st st' \<and>
    translation K st' = window_map (base + page_off k) fs (translation K st)"
  using assms(5-)
proof (induction m arbitrary: k st)
  case 0
  then show ?case
    by (auto intro!: exI [of _ st])
next
  case (Suc m)
  have k: "unat base + 4096 * k < 2 ^ 64" "unat base + 4096 * Suc k < 2 ^ 64"
  proof -
    have "4096 * k \<le> 4096 * n" "4096 * Suc k \<le> 4096 * n"
      using Suc.prems(2) by (intro mult_le_mono2; simp)+
    with assms(4) show "unat base + 4096 * k < 2 ^ 64" "unat base + 4096 * Suc k < 2 ^ 64"
      by (meson add_le_mono1 add_left_mono le_less_trans)+
  qed
  note va = window_page [OF assms(2) k(1)]
  have canon: "canonical (base + page_off k)"
    using va(1) assms(3) by (simp add: canonical_def word_le_nat_alt)
  have "translation K st (base + page_off k) = None" "4 \<le> card (kpool st)"
    using Suc.prems by simp_all
  from fresh_page [OF assms(1) Suc.prems(1) va(2) canon this, of flags]
  obtain f st1 st2 where st2: "kernel_alloc K st = Ok (Some f, st1)" "map_4k K (base + page_off k) f flags st1 = Ok st2"
    "unat f \<in> kpool st" "frames_ok K st2" "kpool st2 \<subseteq> kpool st - {unat f}" "card (kpool st) \<le> card (kpool st2) + 4"
    "paging_only st st2" "translation K st2 = map_page (translation K st) (base + page_off k) f" .
  have "translation K st2 (base + page_off i) = None" if "Suc k \<le> i" "i < n" for i
  proof -
    have "unat (base + page_off i) = unat base + 4096 * i"
      using assms(2,4) that by (intro window_page) simp_all
    then show ?thesis
      using that Suc.prems(4) [of i] va(1) by (simp only: st2(8) map_page_def page_of_iff [OF va(2)]) simp
  qed
  then obtain fs st' where st': "map_window K base flags (Suc k) m st2 = Ok st'" "frames_ok K st'"
    "length fs = m" "distinct fs" "unat ` set fs \<subseteq> kpool st2" "kpool st' \<subseteq> kpool st2 - unat ` set fs" "paging_only st2 st'"
    "translation K st' = window_map (base + page_off (Suc k)) fs (translation K st2)" "card (kpool st2) \<le> card (kpool st') + 4 * m"
    using Suc.IH [OF st2(4), of "Suc k"] Suc.prems(2,3) st2(6) by auto
  have step: "map_window K base flags k (Suc m) st = Ok st'"
    using st2(1,2) st'(1) by simp
  have "f \<notin> set fs"
    using st2(5) st'(5) by auto
  moreover have "window_map (base + page_off k) (f # fs) (translation K st) = translation K st'"
    using window_map_Cons [OF va(2)] va(1) k(2) by (simp add: st'(8) st2(8) page_off_Suc [of 0, simplified] page_off_Suc [of k] add.assoc)
  ultimately show ?case
    using step st' st2(3,5,6) paging_only_trans [OF st2(7) st'(7)]
    by (intro exI [of _ "f # fs"] exI [of _ st']) auto
qed

lemma vmap_loop_step:
  assumes "page_aligned base" "unat base + 4096 * n < 2 ^ 64" "k < n"
    and "kernel_alloc K st = Ok (Some f, st1)" "map_4k K (base + page_off k) f {PRESENT, WRITABLE, GLOBAL} st1 = Ok st2"
  shows "vmap_loop K base (page_off n) (page_off k) st = vmap_loop K base (page_off n) (page_off (Suc k)) st2"
proof -
  have k: "4096 * k < 4096 * n" "4096 * Suc k \<le> 4096 * n" "4096 * n < 2 ^ 64" "unat base + 4096 * k < 2 ^ 64"
    using assms(2,3) by simp_all
  have u: "unat (page_off n) = 4096 * n" "unat (page_off k) = 4096 * k" "unat (page_off (Suc k)) = 4096 * Suc k"
    using k by (intro unat_page_off; linarith)+
  then have "page_off k < page_off n" "page_off k < page_off (Suc k)" "u_add (ke_dbg K) (page_off k) 4096 = Ok (page_off (Suc k))"
    using k by (simp_all add: word_less_nat_alt u_add_ok page_off_Suc)
  then show ?thesis
    using assms(4,5) window_page(3) [OF assms(1) k(4)] by (subst vmap_loop.simps) auto
qed

text \<open>\<open>vmap_alloc_pages\<close> and \<open>init_heap\<close> run this loop.\<close>

lemma vmap_loop_window:
  assumes "page_aligned base" "unat base + 4096 * n < 2 ^ 64"
    and "k + m = n" "map_window K base {PRESENT, WRITABLE, GLOBAL} k m st = Ok st'"
  shows "vmap_loop K base (page_off n) (page_off k) st = Ok (Some base, st')"
  using assms(3,4)
proof (induction m arbitrary: k st)
  case 0
  then show ?case
    by (subst vmap_loop.simps) simp
next
  case (Suc m)
  then obtain f st1 st2 where st2: "kernel_alloc K st = Ok (Some f, st1)"
    "map_4k K (base + page_off k) f {PRESENT, WRITABLE, GLOBAL} st1 = Ok st2"
    "map_window K base {PRESENT, WRITABLE, GLOBAL} (Suc k) m st2 = Ok st'"
    by (auto simp: expect_def split: option.splits)
  then show ?case
    using vmap_loop_step [OF assms(1,2) _ st2(1,2)] Suc by simp
qed

lemma heap_loop_window:
  assumes "k + m \<le> 0x2000"
  shows "heap_loop K (of_nat k) m st = map_window K KHEAP_START {PRESENT, WRITABLE, GLOBAL, NO_EXECUTE} k m st"
  using assms
proof (induction m arbitrary: k st)
  case (Suc m)
  have k: "unat (of_nat k :: u64) = k" "unat (page_off k) = 4096 * k"
    using Suc.prems by (simp_all add: unat_of_nat_64 unat_page_off)
  then have "u_mul (ke_dbg K) (of_nat k) 4096 = Ok (page_off k)"
    using Suc.prems by (simp add: u_mul_def page_off_def mult.commute)
  moreover have "u_add (ke_dbg K) KHEAP_START (page_off k) = Ok (KHEAP_START + page_off k)"
    using Suc.prems k(2) by (intro u_add_ok) (simp add: KHEAP_START_def)
  moreover have "heap_loop K (1 + of_nat k) m st2 = map_window K KHEAP_START {PRESENT, WRITABLE, GLOBAL, NO_EXECUTE} (Suc k) m st2" for st2
    using Suc.IH [of "Suc k" st2] Suc.prems by simp
  ultimately show ?case
    by (simp add: add.commute [of "of_nat k"])
qed simp

section \<open>Demand mapping\<close>

definition covered :: "('pt, 'h) kenv \<Rightarrow> ('pt, 'h) MemState \<Rightarrow> nat \<Rightarrow> nat \<Rightarrow> bool" where
  "covered K st lo hi \<longleftrightarrow> (\<forall>a. lo \<le> unat a \<and> unat a < hi \<longrightarrow> translation K st a \<noteq> None)"

definition keeps_mapped :: "('pt, 'h) kenv \<Rightarrow> ('pt, 'h) MemState \<Rightarrow> ('pt, 'h) MemState \<Rightarrow> nat \<Rightarrow> nat \<Rightarrow> bool" where
  "keeps_mapped K st st' lo hi \<longleftrightarrow>
     (\<forall>a. translation K st a \<noteq> None \<or> \<not> (lo \<le> unat a \<and> unat a < hi) \<longrightarrow> translation K st' a = translation K st a)"

lemma same_page_mapped:
  assumes "mapper_api (ke_x86 K)" "page_aligned va" "unat va \<le> unat a" "unat a < unat va + 4096"
  shows "translation K st a = None \<longleftrightarrow> translation K st va = None"
proof -
  have "a AND NOT 0xFFF = va"
    using assms(3,4) page_of_iff [OF assms(2)] by blast
  then show ?thesis
    using assms(1) unfolding mapper_api_def translation_def by metis
qed

lemma span_step_maps:
  assumes "mapper_api (ke_x86 K)" "frames_ok K st" "page_aligned va" "canonical va" "4 \<le> card (kpool st)"
  shows "\<exists>st'. span_step K va st = Ok st' \<and> frames_ok K st' \<and> kpool st' \<subseteq> kpool st \<and> card (kpool st) \<le> card (kpool st') + 4 \<and>
    paging_only st st' \<and> covered K st' (unat va) (unat va + 4096) \<and> keeps_mapped K st st' (unat va) (unat va + 4096)"
proof (cases "translation K st va = None")
  case True
  let ?flags = "{PRESENT, WRITABLE, GLOBAL, NO_EXECUTE}"
  from fresh_mapping [OF assms(1-3) True assms(5), of ?flags "Some {PRESENT, WRITABLE}"]
  obtain f st1 st2 where st2: "kernel_alloc K st = Ok (Some f, st1)" "map_to K va f ?flags (Some {PRESENT, WRITABLE}) st1 = Ok (None, st2)"
    "unat f \<in> kpool st" "frames_ok K st2" "kpool st2 \<subseteq> kpool st - {unat f}" "card (kpool st) \<le> card (kpool st2) + 4" "paging_only st st2"
    "translation K st2 = map_page (translation K st) va f" .
  have "span_step K va st = Ok st2"
    using st2(1,2) True virt_page [OF assms(1,3,4)] by (simp add: span_step_def translation_def)
  moreover have "translation K st2 = (\<lambda>a. if unat va \<le> unat a \<and> unat a < unat va + 4096 then Some (f + (a AND 0xFFF)) else translation K st a)"
    unfolding st2(8) map_page_def page_of_iff [OF assms(3)] by (rule refl)
  moreover have "translation K st a = None" if "unat va \<le> unat a" "unat a < unat va + 4096" for a
    using same_page_mapped [OF assms(1,3) that] True by simp
  ultimately show ?thesis
    using st2 by (intro exI [of _ st2]) (auto simp: covered_def keeps_mapped_def)
next
  case False
  then have "translation K st a \<noteq> None" if "unat va \<le> unat a" "unat a < unat va + 4096" for a
    using same_page_mapped [OF assms(1,3) that] by simp
  with False show ?thesis
    using assms(2) by (simp add: span_step_def translation_def covered_def keeps_mapped_def)
qed

lemma covered_glue: "covered K st lo mid \<Longrightarrow> covered K st mid hi \<Longrightarrow> covered K st lo hi"
  unfolding covered_def by (meson linorder_not_le)

lemma covered_kept: "covered K st lo hi \<Longrightarrow> keeps_mapped K st st' a b \<Longrightarrow> covered K st' lo hi"
  by (simp add: covered_def keeps_mapped_def)

lemma keeps_mapped_glue:
  assumes "keeps_mapped K st st1 lo mid" "keeps_mapped K st1 st2 mid hi" "lo \<le> mid" "mid \<le> hi"
  shows "keeps_mapped K st st2 lo hi"
  unfolding keeps_mapped_def
proof (intro allI impI)
  fix a
  assume a: "translation K st a \<noteq> None \<or> \<not> (lo \<le> unat a \<and> unat a < hi)"
  then have "translation K st a \<noteq> None \<or> \<not> (lo \<le> unat a \<and> unat a < mid)"
    using assms(4) by linarith
  then have "translation K st1 a = translation K st a"
    using assms(1) by (simp add: keeps_mapped_def)
  moreover have "translation K st a \<noteq> None \<or> \<not> (mid \<le> unat a \<and> unat a < hi)"
    using a assms(3) by linarith
  ultimately show "translation K st2 a = translation K st a"
    using assms(2) by (simp add: keeps_mapped_def)
qed

lemma span_loop_maps:
  assumes "mapper_api (ke_x86 K)" "page_aligned va" "0xFFFF800000000000 \<le> va" "unat va + 4096 * m < 2 ^ 64"
    and "frames_ok K st" "4 * m \<le> card (kpool st)"
  shows "\<exists>st'. span_loop K (va + page_off m) va st = Ok st' \<and> frames_ok K st' \<and> kpool st' \<subseteq> kpool st \<and> paging_only st st' \<and>
    covered K st' (unat va) (unat va + 4096 * m) \<and> keeps_mapped K st st' (unat va) (unat va + 4096 * m)"
  using assms(2-)
proof (induction m arbitrary: va st)
  case 0
  then show ?case
    by (subst span_loop.simps) (auto simp: covered_def keeps_mapped_def)
next
  case (Suc m)
  let ?va = "va + page_off 1"
  have top: "unat va + 4096 * 1 < 2 ^ 64" "unat va + 4096 * Suc m < 2 ^ 64"
    using Suc.prems(3) by simp_all
  note va' = window_page [OF Suc.prems(1) top(1)]
  have u: "unat ?va = unat va + 4096"
    using va'(1) by simp
  have canon: "canonical va"
    using Suc.prems(2) by (simp add: canonical_def)
  have card4: "4 \<le> card (kpool st)"
    using Suc.prems(5) by simp
  from span_step_maps [OF assms(1) Suc.prems(4,1) canon card4] obtain st1 where
    st1: "span_step K va st = Ok st1" "frames_ok K st1" "kpool st1 \<subseteq> kpool st" "card (kpool st) \<le> card (kpool st1) + 4"
      "paging_only st st1" "covered K st1 (unat va) (unat va + 4096)" "keeps_mapped K st st1 (unat va) (unat va + 4096)"
    by blast
  have "0xFFFF800000000000 \<le> ?va" "unat ?va + 4096 * m < 2 ^ 64" "4 * m \<le> card (kpool st1)"
    using Suc.prems(2,3,5) st1(4) u by (simp_all add: word_le_nat_alt)
  from Suc.IH [OF va'(2) this(1,2) st1(2) this(3)] obtain st' where
    st': "span_loop K (?va + page_off m) ?va st1 = Ok st'" "frames_ok K st'" "kpool st' \<subseteq> kpool st1" "paging_only st1 st'"
      "covered K st' (unat ?va) (unat ?va + 4096 * m)" "keeps_mapped K st1 st' (unat ?va) (unat ?va + 4096 * m)"
    by blast
  have off: "va + page_off (Suc m) = ?va + page_off m" "page_off 1 = 4096"
    by (simp_all add: page_off_def)
  have "va < va + page_off (Suc m)" "va < ?va"
    using window_page(1) [OF Suc.prems(1) top(2)] u by (simp_all only: word_less_nat_alt)  simp_all
  then have "span_loop K (va + page_off (Suc m)) va st = Ok st'"
    using st1(1) st'(1) va'(3) unfolding off by (subst span_loop.simps) (simp add: off(2) [symmetric])
  moreover have "covered K st' (unat va) (unat va + 4096 * Suc m)"
    using covered_glue [OF covered_kept [OF st1(6) st'(6)]] st'(5) u by (simp add: add.assoc)
  moreover have "keeps_mapped K st st' (unat va) (unat va + 4096 * Suc m)"
    using keeps_mapped_glue [OF st1(7)] st'(6) u by (simp add: add.assoc)
  ultimately show ?case
    using st' st1(3) paging_only_trans [OF st1(5) st'(4)] by blast
qed

lemma span_pages:
  assumes "unat start \<le> unat e" "unat e + 8192 < 2 ^ 64"
  obtains va m where "start AND NOT 0xFFF = va" "(e + 0xFFF) AND NOT 0xFFF = va + page_off m" "page_aligned va" "unat va \<le> unat start"
    "\<forall>q. 4096 dvd q \<longrightarrow> q \<le> unat start \<longrightarrow> q \<le> unat va" "unat e \<le> unat va + 4096 * m" "m \<le> (unat e - unat start) div 4096 + 2"
    "unat va + 4096 * m < 2 ^ 64"
proof -
  let ?va = "align_down start 0x1000" and ?fin = "align_down (e + 0xFFF) 0x1000"
  let ?m = "(unat ?fin - unat ?va) div 4096"
  have ee: "unat (e + 0xFFF) = unat e + 4095"
    using assms(2) by (simp add: unat_add_ok)
  have bounds: "unat ?va \<le> unat start" "unat start < unat ?va + 4096" "unat e \<le> unat ?fin" "unat ?fin < unat e + 4096"
    using mod_less_divisor [of 4096 "unat start"] mod_less_divisor [of 4096 "unat e + 4095"]
    unfolding align_down_page ee by linarith+
  have dvd: "4096 dvd unat ?va" "4096 dvd unat ?fin"
    by (rule align_down_mod)+
  then have "4096 * ?m = unat ?fin - unat ?va"
    by (intro dvd_mult_div_cancel dvd_diff_nat)
  then have m: "unat ?fin = unat ?va + 4096 * ?m"
    using bounds assms(1) by linarith
  have top: "unat ?va + 4096 * ?m < 2 ^ 64"
    unfolding m [symmetric] by simp
  have "?m \<le> (unat e - unat start) div 4096 + 2"
  proof -
    have "unat ?fin - unat ?va \<le> (unat e - unat start) + 4096 * 2"
      using bounds assms(1) by linarith
    then show ?thesis
      using div_le_mono [of _ "(unat e - unat start) + 4096 * 2" 4096] by simp
  qed
  moreover have "?fin = ?va + page_off ?m"
    using window_page(1) [OF dvd(1) top] m by (simp only: word_unat_eq_iff)
  moreover have "q \<le> unat ?va" if "4096 dvd q" "q \<le> unat start" for q
    using page_le_round_down [OF that(1), of "unat start"] that(2) by (simp add: align_down_page)
  moreover have "start AND NOT 0xFFF = ?va" "(e + 0xFFF) AND NOT 0xFFF = ?fin"
    by (simp_all add: align_down_def)
  ultimately show thesis
    using bounds(1,3) dvd(1) m top by (intro that [of ?va ?m]) simp_all
qed

lemma span_maps:
  assumes "mapper_api (ke_x86 K)" "frames_ok K st" "0xFFFF800000000000 \<le> start"
    and "unat start \<le> unat e" "unat e + 8192 < 2 ^ 64" "4 * ((unat e - unat start) div 4096 + 2) \<le> card (kpool st)"
  shows "\<exists>st'. ensure_mapped_span K start e st = Ok st' \<and> frames_ok K st' \<and> kpool st' \<subseteq> kpool st \<and> paging_only st st' \<and>
    covered K st' (unat start) (unat e) \<and> (\<forall>a. translation K st a \<noteq> None \<longrightarrow> translation K st' a = translation K st a)"
proof -
  from span_pages [OF assms(4,5)] obtain va m where
    va: "start AND NOT 0xFFF = va" "(e + 0xFFF) AND NOT 0xFFF = va + page_off m" "page_aligned va" "unat va \<le> unat start"
    "\<forall>q. 4096 dvd q \<longrightarrow> q \<le> unat start \<longrightarrow> q \<le> unat va" "unat e \<le> unat va + 4096 * m" "m \<le> (unat e - unat start) div 4096 + 2"
    "unat va + 4096 * m < 2 ^ 64"
    by metis
  have "0xFFFF800000000000 \<le> va"
    using va(5) [rule_format, of "0xFFFF800000000000"] assms(3) by (simp add: word_le_nat_alt)
  moreover have "4 * m \<le> card (kpool st)"
    using mult_le_mono2 [OF va(7), of 4] assms(6) by (rule order_trans)
  ultimately obtain st' where st': "span_loop K (va + page_off m) va st = Ok st'" "frames_ok K st'" "kpool st' \<subseteq> kpool st" "paging_only st st'"
    "covered K st' (unat va) (unat va + 4096 * m)" "keeps_mapped K st st' (unat va) (unat va + 4096 * m)"
    using span_loop_maps [OF assms(1) va(3) _ va(8) assms(2)] by blast
  have "u_add (ke_dbg K) e 0xFFF = Ok (e + 0xFFF)"
    using assms(5) by (simp add: u_add_ok)
  then have "ensure_mapped_span K start e st = Ok st'"
    using st'(1) frames_ok_guard [OF assms(2)] va(1,2) by (auto simp: ensure_mapped_span_def)
  moreover have "covered K st' (unat start) (unat e)"
    using st'(5) va(4,6) unfolding covered_def by (meson le_trans less_le_trans)
  ultimately show ?thesis
    using st' by (auto simp: keeps_mapped_def)
qed

section \<open>The two windows\<close>

lemma vmap_pages:
  assumes "mapper_api (ke_x86 K)" "frames_ok K st"
    and "page_aligned (km_next_vmap st)" "0xFFFF800000000000 \<le> km_next_vmap st" "unat (km_next_vmap st) + 4096 * n < 2 ^ 64"
    and "\<forall>i<n. translation K st (km_next_vmap st + page_off i) = None" "4 * n \<le> card (kpool st)"
  shows "\<exists>fs st'. vmap_alloc_pages K (of_nat n) st = Ok (Some (km_next_vmap st), st') \<and>
    unat (km_next_vmap st') = unat (km_next_vmap st) + 4096 * n \<and>
    length fs = n \<and> distinct fs \<and> unat ` set fs \<subseteq> kpool st \<and> kpool st' \<subseteq> kpool st - unat ` set fs \<and>
    card (kpool st) \<le> card (kpool st') + 4 * n \<and> translation K st' = window_map (km_next_vmap st) fs (translation K st) \<and>
    frames_ok K st' \<and> paging_only (st\<lparr>km_next_vmap := km_next_vmap st'\<rparr>) st'"
proof -
  let ?base = "km_next_vmap st"
  let ?st = "st\<lparr>km_next_vmap := ?base + page_off n\<rparr>"
  have n: "4096 * n < 2 ^ 64"
    using assms(5) by simp
  have mul: "checked_mul (of_nat n) 4096 = Some (page_off n)"
    using n by (simp add: checked_mul_def unat_of_nat_64 page_off_def)
  have st: "frames_ok K ?st" "kpool ?st = kpool st" "translation K ?st = translation K st"
    using assms(2) by (simp_all add: frames_ok_def kpool_def translation_def)
  from map_window_maps [OF assms(1,3-5) st(1), of 0 n "{PRESENT, WRITABLE, GLOBAL}"] assms(6,7) st obtain fs st' where
    fs: "map_window K ?base {PRESENT, WRITABLE, GLOBAL} 0 n ?st = Ok st'" "frames_ok K st'" "length fs = n" "distinct fs"
      "unat ` set fs \<subseteq> kpool st" "kpool st' \<subseteq> kpool st - unat ` set fs" "paging_only ?st st'"
      "translation K st' = window_map ?base fs (translation K st)" "card (kpool st) \<le> card (kpool st') + 4 * n"
    by auto
  have nv: "km_next_vmap st' = ?base + page_off n"
    using fs(7) by (cases st') (simp add: paging_only_def)
  then have "unat (km_next_vmap st') = unat ?base + 4096 * n"
    using window_page(1) [OF assms(3,5)] by simp
  moreover have "vmap_alloc_pages K (of_nat n) st = Ok (Some ?base, st')"
    using vmap_loop_window [OF assms(3,5) _ fs(1)] mul frames_ok_guard [OF st(1)] by (simp add: vmap_alloc_pages_def Let_def)
  ultimately show ?thesis
    using fs nv by (intro exI [of _ fs] exI [of _ st']) simp
qed

text \<open>Setting up the heap backs its whole window.\<close>

lemma init_heap_maps:
  assumes "mapper_api (ke_x86 K)" "frames_ok K st" "0x8000 \<le> card (kpool st)"
    and "\<forall>i<0x2000. translation K st (KHEAP_START + page_off i) = None"
  shows "\<exists>fs st1. init_heap K st = Ok (st1\<lparr>km_heap := h_init (ke_heap K) KHEAP_START KHEAP_SIZE, km_mapped_end := KHEAP_START, km_heap_ready := True\<rparr>) \<and>
    frames_ok K st1 \<and> length fs = 0x2000 \<and> distinct fs \<and> unat ` set fs \<subseteq> kpool st \<and> kpool st1 \<subseteq> kpool st - unat ` set fs \<and>
    paging_only st st1 \<and> translation K st1 = window_map KHEAP_START fs (translation K st)"
proof -
  have n: "heap_pages = 0x2000"
    by (simp add: heap_pages_def KHEAP_SIZE_def)
  have base: "page_aligned KHEAP_START" "0xFFFF800000000000 \<le> KHEAP_START" "unat KHEAP_START + 4096 * 0x2000 < 2 ^ 64"
    by (simp_all add: KHEAP_START_def)
  from map_window_maps [OF assms(1) base assms(2), of 0 "0x2000" "{PRESENT, WRITABLE, GLOBAL, NO_EXECUTE}"] assms(3,4)
  obtain fs st1 where fs: "map_window K KHEAP_START {PRESENT, WRITABLE, GLOBAL, NO_EXECUTE} 0 0x2000 st = Ok st1"
    "frames_ok K st1" "length fs = 0x2000" "distinct fs" "unat ` set fs \<subseteq> kpool st" "kpool st1 \<subseteq> kpool st - unat ` set fs"
    "paging_only st st1" "translation K st1 = window_map KHEAP_START fs (translation K st)"
    by auto
  have "heap_loop K 0 heap_pages st = Ok st1"
    using heap_loop_window [of 0 "0x2000" K st] fs(1) unfolding n by simp
  then show ?thesis
    using fs frames_ok_guard [OF assms(2)] by (auto simp: init_heap_def)
qed


text \<open>
  The heap crate returns blocks of the region it was initialised with.
\<close>

definition heap_api :: "'h heap_ops \<Rightarrow> bool" where
  "heap_api H \<longleftrightarrow> (\<forall>sz al h p h'. h_first_fit H sz al h = Some (p, h') \<longrightarrow>
     KHEAP_START \<le> p \<and> unat p + unat (max sz 1) \<le> unat KHEAP_START + unat KHEAP_SIZE)"

lemma heap_window: "0xFFFF800000000000 \<le> KHEAP_START" "unat KHEAP_START + unat KHEAP_SIZE + 8192 < 2 ^ 64"
  by (simp_all add: KHEAP_START_def KHEAP_SIZE_def)

lemma first_fit_mapped:
  assumes "mapper_api (ke_x86 K)" "heap_api (ke_heap K)" "frames_ok K st"
    and "h_first_fit (ke_heap K) sz al (km_heap st) = Some (q, h)" "4 * (unat (max sz 1) div 4096 + 2) \<le> card (kpool st)"
  shows "\<exists>st'. try_first_fit K sz al st = Ok (Some (q, st')) \<and> frames_ok K st' \<and> kpool st' \<subseteq> kpool st \<and> km_heap st' = h \<and>
    covered K st' (unat q) (unat q + unat (max sz 1)) \<and> (\<forall>a. translation K st a \<noteq> None \<longrightarrow> translation K st' a = translation K st a)"
proof -
  let ?n = "max sz 1" and ?st = "st\<lparr>km_heap := h\<rparr>"
  have q: "KHEAP_START \<le> q" "unat q + unat ?n \<le> unat KHEAP_START + unat KHEAP_SIZE"
    using assms(2,4) unfolding heap_api_def by blast+
  then have top: "unat q + unat ?n + 8192 < 2 ^ 64"
    using heap_window(2) by (meson add_le_mono1 le_less_trans)
  then have e: "saturating_add q ?n = q + ?n" "unat (q + ?n) = unat q + unat ?n"
    by (simp_all add: saturating_add_def unat_add_ok)
  have st: "frames_ok K ?st" "kpool ?st = kpool st" "translation K ?st = translation K st"
    using assms(3) by (simp_all add: frames_ok_def kpool_def translation_def)
  have "0xFFFF800000000000 \<le> q"
    using heap_window(1) q(1) by (rule order_trans)
  moreover have "unat q \<le> unat (q + ?n)" "unat (q + ?n) + 8192 < 2 ^ 64" "4 * ((unat (q + ?n) - unat q) div 4096 + 2) \<le> card (kpool ?st)"
    unfolding e st(2) using top assms(5) by simp_all
  ultimately obtain st' where st': "ensure_mapped_span K q (q + ?n) ?st = Ok st'" "frames_ok K st'" "kpool st' \<subseteq> kpool ?st" "paging_only ?st st'"
    "covered K st' (unat q) (unat (q + ?n))" "\<forall>a. translation K ?st a \<noteq> None \<longrightarrow> translation K st' a = translation K ?st a"
    using span_maps [OF assms(1) st(1)] by blast
  have "km_heap st' = h"
    using st'(4) by (cases st') (simp add: paging_only_def)
  then show ?thesis
    using st' assms(4) e st by (simp add: try_first_fit_def)
qed


section \<open>Witnesses\<close>

text \<open>A page table as the function from pages to frames it stands for, and a heap with one block.\<close>

definition table_x86 :: "(u64 \<Rightarrow> u64 option) x86_ops" where
  "table_x86 = \<lparr>x_phys_frame = (\<lambda>a. Ok (align_down a 0x1000)), x_virt_page = (\<lambda>va. Ok (va AND NOT 0xFFF)),
     x_map_to = (\<lambda>alloc page frame flags tflags pt fs. Ok (None, pt(page := Some frame), fs)),
     x_update_flags = (\<lambda>page flags pt. Some pt),
     x_translate = (\<lambda>pt va. map_option (\<lambda>f. f + (va AND 0xFFF)) (pt (va AND NOT 0xFFF))), x_tables = (\<lambda>pt. {})\<rparr>"

definition block_heap :: "unit heap_ops" where
  "block_heap = \<lparr>h_init = (\<lambda>p n. ()), h_first_fit = (\<lambda>sz al h. if sz \<le> 4096 then Some (KHEAP_START, h) else None),
     h_deallocate = (\<lambda>p sz al h. h)\<rparr>"

definition table_kenv :: "(u64 \<Rightarrow> u64 option, unit) kenv" where
  "table_kenv = \<lparr>ke_dbg = True, ke_resv_vec = list_hvec MAX_RESV, ke_usable_vec = list_hvec MAX_USABLE,
     ke_x86 = table_x86, ke_heap = block_heap\<rparr>"

definition table_mem :: "(u64 \<Rightarrow> u64 option, unit) MemState" where
  "table_mem = \<lparr>km_resv = [], km_frames = \<lparr>frame_alloc = Some \<lparr>bump_next = 0x100000, bump_end = 0x1100000\<rparr>, usable = []\<rparr>,
     km_low32 = None, km_offset = 0, km_next_vmap = VMAP_BASE, km_next_mmio = MMIO_BASE, km_heap = (),
     km_mapped_end = KHEAP_START, km_heap_ready = True, km_wp = True, km_pt = (\<lambda>p. None), km_mem = (\<lambda>a. 0)\<rparr>"

lemma table_mapper: "mapper_api table_x86"
proof -
  have "map_to_outcome table_x86 alloc page frame pt fs (x_map_to table_x86 alloc page frame flags tflags pt fs) 0"
    for alloc page frame flags tflags pt fs
    by (auto simp: map_to_outcome_def table_x86_def map_page_def)
  moreover have "(va AND NOT 0xFFF) AND NOT 0xFFF = va AND NOT 0xFFF" for va :: u64
    by (simp only: and.assoc and.idem)
  ultimately show ?thesis
    unfolding mapper_api_def by (auto simp: table_x86_def)
qed

lemma block_heap_api: "heap_api block_heap"
proof -
  have "unat (max sz 1) \<le> unat KHEAP_SIZE" if "sz \<le> 4096" for sz :: u64
  proof -
    have "max sz 1 \<le> 4096"
      using that by simp
    then show ?thesis
      by (simp add: word_le_nat_alt KHEAP_SIZE_def)
  qed
  then show ?thesis
    by (auto simp: heap_api_def block_heap_def split: if_splits)
qed

lemma free_pages_card:
  assumes "4096 dvd lo"
  shows "n \<le> card (free_pages [] lo (lo + 4096 * n))"
proof -
  have "(\<lambda>i. lo + 4096 * i) ` {..<n} \<subseteq> free_pages [] lo (lo + 4096 * n)"
    using assms by (auto simp: free_pages_def resv_pages_def)
  then have "card ((\<lambda>i. lo + 4096 * i) ` {..<n}) \<le> card (free_pages [] lo (lo + 4096 * n))"
    by (rule card_mono [rotated]) simp
  then show ?thesis
    by (simp add: card_image inj_on_def)
qed

lemma table_frames: "frames_ok table_kenv table_mem" "4096 \<le> card (kpool table_mem)" "translation table_kenv table_mem = (\<lambda>a. None)"
proof -
  show "frames_ok table_kenv table_mem" "translation table_kenv table_mem = (\<lambda>a. None)"
    by (simp_all add: frames_ok_def seeded_inv_def table_kenv_def table_mem_def table_x86_def guard_inv_def usable_inv_def bump_inv_def list_hvec_api
        phys_frame_api_def translation_def resv_wf_def)
  have "kpool table_mem = free_pages [] 0x100000 (0x100000 + 4096 * 4096)"
    by (simp add: kpool_def table_mem_def guard_pool_def bump_pool_def usable_pool_def)
  then show "4096 \<le> card (kpool table_mem)"
    using free_pages_card [of "0x100000" 4096] by simp
qed



end
