(* ===== verification/Apic_Props.thy ===== *)
theory Apic_Props
  imports Apic
begin

unbundle bit_operations_syntax

text \<open>
  The commands that reach other processors do not depend on the mode of the local interrupt controller,
  as long as the destination fits the older mode's eight bits.
\<close>

section \<open>Commands as the hardware sees them\<close>

text \<open>Destination and command of each write to the command register; \<open>hi\<close> is the high half of the mapped one at \<open>base\<close>.\<close>

fun commands :: "u64 \<Rightarrow> u32 \<Rightarrow> reg_write list \<Rightarrow> (u32 \<times> u32) list" where
  "commands base hi [] = []"
| "commands base hi (WrMsr r v # ws) =
     (if r = MSR_X2APIC_ICR then [(ucast (drop_bit 32 v), ucast v)] else []) @ commands base hi ws"
| "commands base hi (WrMmio a v # ws) =
     (if a = base + 4 * LAPIC_ICRHI then commands base v ws
      else (if a = base + 4 * LAPIC_ICRLO then [(drop_bit 24 hi, v)] else []) @ commands base hi ws)"

definition INIT_SIPI_SIPI :: "u32 \<Rightarrow> u8 \<Rightarrow> (u32 \<times> u32) list" where
  "INIT_SIPI_SIPI dest v =
     [(dest, INIT_ASSERT), (dest, INIT_DEASSERT), (dest, ucast v OR push_bit 8 0b110), (dest, ucast v OR push_bit 8 0b110)]"

text \<open>The sequence with which the kernel starts a processor.\<close>

definition start_ap :: "bool \<Rightarrow> nat \<Rightarrow> u32 \<Rightarrow> u8 \<Rightarrow> lapic \<Rightarrow> lapic res" where
  "start_ap dbg lat dest v st =
     rbind (send_init dbg lat dest st) (\<lambda>st1. rbind (send_startup dbg lat dest v st1) (send_startup dbg lat dest v))"

lemma icr_spin_eq: "icr_spin st = st\<lparr>la_busy := 0\<rparr>"
proof (induction "la_busy st" arbitrary: st)
  case 0
  then show ?case
    by (subst icr_spin.simps) (simp add: icr_busy_def)
next
  case (Suc n)
  then have "icr_spin (st\<lparr>la_busy := n\<rparr>) = st\<lparr>la_busy := 0\<rparr>"
    by simp
  then show ?case
    using Suc.hyps(2) by (subst icr_spin.simps) (simp add: icr_busy_def Suc.hyps(2) [symmetric])
qed

lemma byte_and: "(v AND 0xFF :: u8) = v"
proof -
  have "(0xFF :: u8) = - 1"
    by simp
  then show ?thesis
    by (simp only: and.right_neutral)
qed

section \<open>The newer mode\<close>

lemma x2_start:
  assumes "la_mode st = 1"
  shows "\<exists>st'. start_ap dbg lat dest v st = Ok st' \<and> la_mode st' = 1 \<and> la_hhdm st' = la_hhdm st \<and> apic_phys st' = apic_phys st \<and>
    la_log st' = la_log st @ map (\<lambda>(d, lo). WrMsr MSR_X2APIC_ICR (push_bit 32 (ucast d) OR lo))
      [(dest, INIT_ASSERT), (dest, INIT_DEASSERT), (dest, ucast v OR push_bit 8 0b110), (dest, ucast v OR push_bit 8 0b110)]"
  using assms
  by (simp add: start_ap_def send_init_def send_startup_def by_mode_def load_mode_def icr_wait_def x2_command_def wrmsr_def icr_spin_eq byte_and
      apic_phys_def rdmsr_def MSR_IA32_APIC_BASE_def MSR_X2APIC_ICR_def)

lemma x2_split:
  fixes d l :: u32
  shows "ucast (drop_bit 32 (push_bit 32 (ucast d) OR ucast l :: u64)) = d" "ucast (push_bit 32 (ucast d) OR ucast l :: u64) = l"
  by (rule bit_word_eqI; auto simp: bit_simps dest: bit_imp_le_length)+

lemma wide:
  "(INIT_ASSERT :: u64) = ucast (INIT_ASSERT :: u32)" "(INIT_DEASSERT :: u64) = ucast (INIT_DEASSERT :: u32)"
  "(ucast (v :: u8) OR push_bit 8 0b110 :: u64) = ucast (ucast v OR push_bit 8 0b110 :: u32)"
proof -
  show "(INIT_ASSERT :: u64) = ucast (INIT_ASSERT :: u32)" "(INIT_DEASSERT :: u64) = ucast (INIT_DEASSERT :: u32)"
    by (simp_all add: INIT_ASSERT_def INIT_DEASSERT_def)
  have "(ucast v :: u64) = ucast (ucast v :: u32)"
    by (rule bit_word_eqI) (auto simp: bit_simps dest: bit_imp_le_length)
  then show "(ucast v OR push_bit 8 0b110 :: u64) = ucast (ucast v OR push_bit 8 0b110 :: u32)"
    by (simp add: unsigned_or_eq)
qed

lemma x2_commands:
  "commands base hi (map (\<lambda>(d, lo). WrMsr MSR_X2APIC_ICR (push_bit 32 (ucast d) OR ucast lo)) cs) = cs"
proof (induction cs)
  case (Cons c cs)
  then show ?case
    by (cases c) (simp only: list.map split_conv commands.simps x2_split if_True append.simps simp_thms)
qed simp

lemma x2_log:
  "map (\<lambda>(d, lo). WrMsr MSR_X2APIC_ICR (push_bit 32 (ucast d) OR lo))
     [(dest, INIT_ASSERT), (dest, INIT_DEASSERT), (dest, ucast v OR push_bit 8 0b110), (dest, ucast v OR push_bit 8 0b110)] =
   map (\<lambda>(d, lo). WrMsr MSR_X2APIC_ICR (push_bit 32 (ucast d) OR ucast lo)) (INIT_SIPI_SIPI dest v)"
  unfolding INIT_SIPI_SIPI_def list.map split_conv wide by (rule refl)

section \<open>The older mode\<close>

lemma x_command_eq:
  assumes "la_mode st = 3" "unat (la_hhdm st) + unat (apic_phys st) < 2 ^ 64"
  defines "base \<equiv> la_hhdm st + apic_phys st"
  shows "\<exists>st'. x_command dbg lat dest lo st = Ok st' \<and> la_mode st' = 3 \<and> la_hhdm st' = la_hhdm st \<and> apic_phys st' = apic_phys st \<and>
    la_log st' = la_log st @ [WrMmio (base + 4 * LAPIC_ICRHI) (push_bit 24 dest), WrMmio (base + 4 * LAPIC_ICRLO) lo]"
  using assms by (simp add: x_command_def mmio_write_def mmio_def load_mode_def u_add_def vol_write_def apic_phys_def rdmsr_def)

lemma icr_wait_x:
  assumes "la_mode st = 3" "unat (la_hhdm st) + unat (apic_phys st) < 2 ^ 64"
  shows "icr_wait dbg st = Ok (st\<lparr>la_busy := 0\<rparr>)"
  using assms by (simp add: icr_wait_def by_mode_def load_mode_def u_add_def icr_spin_eq)

lemma x_command_waited:
  assumes "la_mode st = 3" "unat (la_hhdm st) + unat (apic_phys st) < 2 ^ 64"
  shows "\<exists>st'. rbind (x_command dbg lat dest lo st) (icr_wait dbg) = Ok st' \<and> la_mode st' = 3 \<and> la_hhdm st' = la_hhdm st \<and>
    apic_phys st' = apic_phys st \<and>
    la_log st' = la_log st @ [WrMmio (la_hhdm st + apic_phys st + 4 * LAPIC_ICRHI) (push_bit 24 dest),
                              WrMmio (la_hhdm st + apic_phys st + 4 * LAPIC_ICRLO) lo]"
proof -
  obtain st1 where st1: "x_command dbg lat dest lo st = Ok st1" "la_mode st1 = 3" "la_hhdm st1 = la_hhdm st" "apic_phys st1 = apic_phys st"
    "la_log st1 = la_log st @ [WrMmio (la_hhdm st + apic_phys st + 4 * LAPIC_ICRHI) (push_bit 24 dest),
                              WrMmio (la_hhdm st + apic_phys st + 4 * LAPIC_ICRLO) lo]"
    using x_command_eq [OF assms] by blast
  moreover from this assms(2) have "icr_wait dbg st1 = Ok (st1\<lparr>la_busy := 0\<rparr>)"
    by (intro icr_wait_x) simp_all
  ultimately show ?thesis
    by (simp add: apic_phys_def rdmsr_def)
qed

lemma x_start:
  assumes "la_mode st = 3" "unat (la_hhdm st) + unat (apic_phys st) < 2 ^ 64"
  defines "base \<equiv> la_hhdm st + apic_phys st"
  shows "\<exists>st'. start_ap dbg lat dest v st = Ok st' \<and> la_mode st' = 3 \<and> la_hhdm st' = la_hhdm st \<and> apic_phys st' = apic_phys st \<and>
    la_log st' = la_log st @ concat (map
      (\<lambda>lo. [WrMmio (base + 4 * LAPIC_ICRHI) (push_bit 24 dest), WrMmio (base + 4 * LAPIC_ICRLO) lo])
      [INIT_ASSERT, INIT_DEASSERT, ucast v OR push_bit 8 0b110, ucast v OR push_bit 8 0b110])"
proof -
  note cmd = x_command_waited [where dbg = dbg and lat = lat and dest = dest]
  obtain s1 where s1: "rbind (x_command dbg lat dest INIT_ASSERT st) (icr_wait dbg) = Ok s1" "la_mode s1 = 3"
    "la_hhdm s1 = la_hhdm st" "apic_phys s1 = apic_phys st"
    "la_log s1 = la_log st @ [WrMmio (base + 4 * LAPIC_ICRHI) (push_bit 24 dest), WrMmio (base + 4 * LAPIC_ICRLO) INIT_ASSERT]"
    using cmd [OF assms(1,2), of INIT_ASSERT] unfolding base_def by blast
  obtain s2 where s2: "rbind (x_command dbg lat dest INIT_DEASSERT s1) (icr_wait dbg) = Ok s2" "la_mode s2 = 3"
    "la_hhdm s2 = la_hhdm st" "apic_phys s2 = apic_phys st"
    "la_log s2 = la_log s1 @ [WrMmio (base + 4 * LAPIC_ICRHI) (push_bit 24 dest), WrMmio (base + 4 * LAPIC_ICRLO) INIT_DEASSERT]"
    using cmd [of s1 INIT_DEASSERT] s1 assms(2) unfolding base_def by auto
  let ?sipi = "ucast (v AND 0xFF) OR push_bit 8 0b110 :: u32"
  obtain s3 where s3: "rbind (x_command dbg lat dest ?sipi s2) (icr_wait dbg) = Ok s3" "la_mode s3 = 3"
    "la_hhdm s3 = la_hhdm st" "apic_phys s3 = apic_phys st"
    "la_log s3 = la_log s2 @ [WrMmio (base + 4 * LAPIC_ICRHI) (push_bit 24 dest), WrMmio (base + 4 * LAPIC_ICRLO) ?sipi]"
    using cmd [of s2 ?sipi] s2 assms(2) unfolding base_def by auto
  obtain s4 where s4: "rbind (x_command dbg lat dest ?sipi s3) (icr_wait dbg) = Ok s4" "la_mode s4 = 3"
    "la_hhdm s4 = la_hhdm st" "apic_phys s4 = apic_phys st"
    "la_log s4 = la_log s3 @ [WrMmio (base + 4 * LAPIC_ICRHI) (push_bit 24 dest), WrMmio (base + 4 * LAPIC_ICRLO) ?sipi]"
    using cmd [of s3 ?sipi] s3 assms(2) unfolding base_def by auto
  have "send_init dbg lat dest st = Ok s2"
    using s1 s2 assms by (auto simp: send_init_def by_mode_def load_mode_def u_add_def)
  moreover have "send_startup dbg lat dest v s2 = Ok s3" "send_startup dbg lat dest v s3 = Ok s4"
    using s2 s3 s4 assms by (simp_all add: send_startup_def by_mode_def load_mode_def u_add_def)
  ultimately show ?thesis
    using s1 s2 s3 s4 by (simp add: start_ap_def byte_and)
qed

lemma shifted_byte:
  assumes "dest < (256 :: u32)"
  shows "drop_bit 24 (push_bit 24 dest) = dest"
proof (rule bit_word_eqI)
  fix n
  assume "n < LENGTH(32)"
  moreover have "\<not> bit dest n" if "8 \<le> n"
  proof -
    have "take_bit 8 dest = dest"
      using assms by (simp add: word_unat_eq_iff unsigned_take_bit_eq take_bit_nat_eq_self_iff word_less_nat_alt)
    then show ?thesis
      using that by (metis bit_take_bit_iff linorder_not_le)
  qed
  ultimately show "bit (drop_bit 24 (push_bit 24 dest)) n \<longleftrightarrow> bit dest n"
    by (cases "8 \<le> n") (auto simp: bit_simps)
qed

lemma icr_halves_apart: "4 * LAPIC_ICRLO \<noteq> 4 * LAPIC_ICRHI"
  by (simp add: LAPIC_ICRLO_def LAPIC_ICRHI_def)

section \<open>The mode after start-up\<close>

text \<open>Once the first processor has set up paging, and once any other has run its start-up, the mode is one of the two.\<close>

lemma x2_bit: "base AND X2APIC_EN \<noteq> 0 \<longleftrightarrow> has_x2apic ecx" if "base = enabled_base ecx b"
proof (cases "has_x2apic ecx")
  case True
  then have set10: "bit (base AND X2APIC_EN) 10"
    using that by (simp add: enabled_base_def X2APIC_EN_def bit_simps)
  have "base AND X2APIC_EN \<noteq> 0"
  proof
    assume "base AND X2APIC_EN = 0"
    then show False
      using set10 by (simp only: bit_0_eq bot_apply) simp
  qed
  then show ?thesis
    using True by simp
next
  case False
  then have "base AND X2APIC_EN = 0"
    using that by (simp add: enabled_base_def and.assoc)
  then show ?thesis
    using False by simp
qed

lemma mode_after_paging:
  assumes "apic_paging dbg hhdm (early_init ecx st) = Ok st'"
  shows "la_mode st' = (if has_x2apic ecx then 1 else 3)"
  using assms x2_bit [OF refl, of ecx]
  by (auto simp: apic_paging_def early_init_def load_mode_def store_mode_def Let_def)

lemma mode_after_ap_init:
  assumes "apic_ap_init dbg ecx hhdm st = Ok st'"
  shows "la_mode st' = (if has_x2apic ecx then 1 else 3)"
  using assms x2_bit [OF refl, of ecx]
  by (auto simp: apic_ap_init_def store_mode_def Let_def)

section \<open>The same in both\<close>

lemma start_ap_commands:
  assumes "la_mode st = 1 \<or> la_mode st = 3" "unat (la_hhdm st) + unat (apic_phys st) < 2 ^ 64" "dest < 256"
  shows "\<exists>st' ws. start_ap dbg lat dest v st = Ok st' \<and> la_mode st' = la_mode st \<and> la_hhdm st' = la_hhdm st \<and>
    apic_phys st' = apic_phys st \<and> la_log st' = la_log st @ ws \<and>
    (\<forall>hi. commands (la_hhdm st + apic_phys st) hi ws = INIT_SIPI_SIPI dest v)"
proof (cases "la_mode st = 1")
  case True
  then show ?thesis
    using x2_start [OF True, of dbg lat dest v] x2_commands unfolding x2_log by metis
next
  case False
  with assms(1) have "la_mode st = 3"
    by simp
  then show ?thesis
    using x_start [of st dbg lat dest v] assms(2)
    by (auto simp: INIT_SIPI_SIPI_def shifted_byte [OF assms(3)] icr_halves_apart)
qed

text \<open>
  In either mode the kernel can be in once paging is set up, starting a processor whose identifier
  fits eight bits succeeds and delivers exactly these commands to exactly that processor: INIT, its
  de-assertion, and the start-up command twice, whatever the hardware takes to deliver each of them.
\<close>

lemma start_same_in_both_modes:
  assumes "la_mode st = 1 \<or> la_mode st = 3" "unat (la_hhdm st) + unat (apic_phys st) < 2 ^ 64" "dest < 256"
  shows "\<exists>st' ws. start_ap dbg lat dest v st = Ok st' \<and> la_mode st' = la_mode st \<and> la_log st' = la_log st @ ws \<and>
    commands (la_hhdm st + apic_phys st) hi ws = INIT_SIPI_SIPI dest v"
  using start_ap_commands [OF assms, of dbg lat v] by blast

definition lapic0 :: lapic where
  "lapic0 = \<lparr>la_msr = (\<lambda>r. if r = MSR_IA32_APIC_BASE then 0xFEE00900 else 0), la_mmio = (\<lambda>a. 0), la_mode = 3,
     la_hhdm = 0xFFFF800000000000, la_busy = 0, la_log = []\<rparr>"

lemma lapic0_room: "unat (la_hhdm lapic0) + unat (apic_phys lapic0) < 2 ^ 64"
  by (simp add: lapic0_def apic_phys_def rdmsr_def APIC_PHYS_MASK_def)

end
