(* ===== verification/Smp_Props.thy ===== *)
theory Smp_Props
  imports Smp Madt_Props Kernel_Windows Apic_Props
begin

unbundle bit_operations_syntax

text \<open>
  Which processors are started, in which order, with which commands, and what each of them finds
  in memory when it starts.
\<close>

section \<open>Memory\<close>

lemma peek_poke:
  assumes "unat p + length bs \<le> 2 ^ 64"
  shows "peek p (length bs) (poke p bs m) = bs"
proof (rule nth_equalityI)
  fix i
  assume "i < length (peek p (length bs) (poke p bs m))"
  then have i: "i < length bs"
    by (simp add: peek_def)
  then have "unat (p + of_nat i) = unat p + i"
    using assms by (subst unat_add_ok) (simp_all add: unat_of_nat_64)
  then show "peek p (length bs) (poke p bs m) ! i = bs ! i"
    using i by (simp add: peek_def poke_def)
qed (simp add: peek_def)

lemma peek_poke_apart:
  assumes "unat q + n \<le> 2 ^ 64" "unat q + n \<le> unat p \<or> unat p + length bs \<le> unat q"
  shows "peek q n (poke p bs m) = peek q n m"
proof -
  have "poke p bs m (q + of_nat i) = m (q + of_nat i)" if "i < n" for i
  proof -
    have "unat (q + of_nat i) = unat q + i"
      using assms(1) that by (subst unat_add_ok) (simp_all add: unat_of_nat_64)
    then show ?thesis
      using assms(2) that by (auto simp: poke_def)
  qed
  then show ?thesis
    by (simp add: peek_def)
qed

lemma length_ApBoot_bytes [simp]: "length (ApBoot_bytes b) = 56"
  by (simp add: ApBoot_bytes_def)

section \<open>What a processor finds\<close>

definition ready_memory :: "smp_env \<Rightarrow> u64 \<Rightarrow> u64 \<Rightarrow> u64 \<Rightarrow> u64 \<Rightarrow> u64 \<Rightarrow> (u64 \<Rightarrow> u8) \<Rightarrow> bool" where
  "ready_memory E hhdm ab_va ab_pa tramp_virt stk m \<longleftrightarrow>
     peek ab_va 56 m = ApBoot_bytes (boot_block E hhdm stk) \<and> peek stk 8 m = le_bytes 8 ab_va \<and>
     peek (tramp_virt + se_p32 E) 4 m = le_bytes 4 (ucast ab_pa :: u32) \<and> peek (tramp_virt + se_p64 E) 8 m = le_bytes 8 ab_pa"

text \<open>Trampoline, parameter block and stack window lie in this order; both pointers lie in the trampoline page.\<close>

definition places_ok :: "smp_env \<Rightarrow> u64 \<Rightarrow> u64 \<Rightarrow> u64 \<Rightarrow> bool" where
  "places_ok E tramp_virt ab_va window \<longleftrightarrow>
     unat tramp_virt + 4096 \<le> unat ab_va \<and> unat ab_va + 4096 \<le> unat window \<and>
     unat (se_p32 E) + 4 \<le> unat (se_p64 E) \<and> unat (se_p64 E) + 8 \<le> 4096"

lemma writes_ready:
  assumes "places_ok E tramp_virt ab_va window" "unat window \<le> unat stk" "unat stk + 8 \<le> 2 ^ 64"
  shows "ready_memory E hhdm ab_va ab_pa tramp_virt stk
    (poke (tramp_virt + se_p64 E) (le_bytes 8 ab_pa) (poke (tramp_virt + se_p32 E) (le_bytes 4 (ucast ab_pa :: u32))
      (poke stk (le_bytes 8 ab_va) (poke ab_va (ApBoot_bytes (boot_block E hhdm stk)) m))))"
proof -
  note pl = assms(1) [unfolded places_ok_def]
  have u: "unat (tramp_virt + se_p32 E) = unat tramp_virt + unat (se_p32 E)" "unat (tramp_virt + se_p64 E) = unat tramp_virt + unat (se_p64 E)"
    using pl assms(2,3) by (intro unat_add_ok; simp)+
  have "peek ab_va 56 (poke ab_va (ApBoot_bytes (boot_block E hhdm stk)) m) = ApBoot_bytes (boot_block E hhdm stk)"
    using peek_poke [of ab_va "ApBoot_bytes (boot_block E hhdm stk)" m] pl assms(2,3) by simp
  moreover have "peek stk 8 (poke stk (le_bytes 8 ab_va) m') = le_bytes 8 ab_va" for m'
    using peek_poke [of stk "le_bytes 8 ab_va" m'] assms(3) by simp
  moreover have "peek (tramp_virt + se_p32 E) 4 (poke (tramp_virt + se_p32 E) (le_bytes 4 (ucast ab_pa :: u32)) m') = le_bytes 4 (ucast ab_pa :: u32)" for m'
    using peek_poke [of "tramp_virt + se_p32 E" "le_bytes 4 (ucast ab_pa :: u32)" m'] pl assms(2,3) u by simp
  moreover have "peek (tramp_virt + se_p64 E) 8 (poke (tramp_virt + se_p64 E) (le_bytes 8 ab_pa) m') = le_bytes 8 ab_pa" for m'
    using peek_poke [of "tramp_virt + se_p64 E" "le_bytes 8 ab_pa" m'] pl assms(2,3) u by simp
  ultimately show ?thesis
    using pl assms(2,3) u by (simp add: ready_memory_def peek_poke_apart)
qed

section \<open>One processor\<close>

definition window_free :: "('pt, 'h) kenv \<Rightarrow> ('pt, 'h) MemState \<Rightarrow> nat \<Rightarrow> bool" where
  "window_free K m n \<longleftrightarrow> frames_ok K m \<and> page_aligned (km_next_vmap m) \<and> 0xFFFF800000000000 \<le> km_next_vmap m \<and>
     unat (km_next_vmap m) + 4096 * n < 2 ^ 64 \<and> (\<forall>i<n. translation K m (km_next_vmap m + page_off i) = None) \<and>
     4 * n \<le> card (kpool m)"

definition lapic_ok :: "lapic \<Rightarrow> bool" where
  "lapic_ok l \<longleftrightarrow> (la_mode l = 1 \<or> la_mode l = 3) \<and> unat (la_hhdm l) + unat (apic_phys l) < 2 ^ 64"

definition lapic_base :: "lapic \<Rightarrow> u64" where
  "lapic_base l = la_hhdm l + apic_phys l"

lemma window_free_mem [simp]: "window_free K (m\<lparr>km_mem := f\<rparr>) n = window_free K m n"
  by (simp add: window_free_def frames_ok_def kpool_def translation_def)

lemma stack_window:
  assumes "mapper_api (ke_x86 K)" "window_free K m (8 + n)"
  shows "\<exists>m'. vmap_alloc_pages K AP_STACK_PAGES m = Ok (Some (km_next_vmap m), m') \<and> window_free K m' n \<and>
    km_next_vmap m' = km_next_vmap m + page_off 8 \<and> km_mem m' = km_mem m"
proof -
  note w = assms(2) [unfolded window_free_def]
  have "unat (km_next_vmap m) + 4096 * 8 < 2 ^ 64" "\<forall>i<8. translation K m (km_next_vmap m + page_off i) = None" "4 * 8 \<le> card (kpool m)"
    using w by simp_all
  with vmap_pages [OF assms(1), of m 8] w obtain fs m' where
    m': "vmap_alloc_pages K (of_nat 8) m = Ok (Some (km_next_vmap m), m')" "unat (km_next_vmap m') = unat (km_next_vmap m) + 4096 * 8"
      "length fs = 8" "card (kpool m) \<le> card (kpool m') + 4 * 8" "translation K m' = window_map (km_next_vmap m) fs (translation K m)"
      "frames_ok K m'" "paging_only (m\<lparr>km_next_vmap := km_next_vmap m'\<rparr>) m'"
    by auto
  have nv: "unat (km_next_vmap m + page_off i) = unat (km_next_vmap m) + 4096 * i" if "i \<le> 8 + n" for i
    using w that by (intro window_page) auto
  then have next8: "km_next_vmap m' = km_next_vmap m + page_off 8"
    using m'(2) by (simp add: word_unat_eq_iff)
  have free: "translation K m' (km_next_vmap m' + page_off i) = None" if "i < n" for i
  proof -
    have "km_next_vmap m' + page_off i = km_next_vmap m + page_off (8 + i)"
      by (simp add: next8 page_off_def)
    then show ?thesis
      using w nv [of "8 + i"] that m'(3) unfolding m'(5) by (simp add: window_map_def)
  qed
  have "km_mem m' = km_mem m"
    using m'(7) by (cases m') (simp add: paging_only_def)
  moreover have "window_free K m' n"
    using w m'(2,4,6) free by (auto simp: window_free_def word_le_nat_alt)
  ultimately show ?thesis
    using m'(1) next8 by (simp add: AP_STACK_PAGES_def)
qed

lemma kick_eq:
  "kick E ap vector st = rbind (start_ap (se_dbg E) (se_lat E) ap vector (sm_lapic st)) (\<lambda>l.
     Ok (st\<lparr>sm_kicks := sm_kicks st @ [(ap, km_mem (sm_mem st))], sm_lapic := l\<rparr>))"
  by (cases "send_init (se_dbg E) (se_lat E) ap (sm_lapic st)") (auto simp: kick_def in_lapic_def start_ap_def Let_def rbind_assoc)

lemma places_ok_mono: "places_ok E t a w \<Longrightarrow> unat w \<le> unat w' \<Longrightarrow> places_ok E t a w'"
  by (simp add: places_ok_def)

lemma stack_top_facts:
  assumes "page_aligned base" "0xFFFF800000000000 \<le> base" "unat base + 4096 * 8 < 2 ^ 64"
  shows "unat (base + page_off 8 - 8) = unat base + 4096 * 8 - 8" "u_add dbg base (page_off 8) = Ok (base + page_off 8)"
    "u_sub dbg (base + page_off 8) 8 = Ok (base + page_off 8 - 8)" "base \<noteq> 0"
proof -
  note wp = window_page [OF assms(1,3)]
  have "8 \<le> base + page_off 8"
    using wp(1) by (simp add: word_le_nat_alt)
  then show "unat (base + page_off 8 - 8) = unat base + 4096 * 8 - 8" "u_sub dbg (base + page_off 8) 8 = Ok (base + page_off 8 - 8)"
    using wp(1) by (simp_all add: unat_sub u_sub_ok)
  show "u_add dbg base (page_off 8) = Ok (base + page_off 8)" "base \<noteq> 0"
    using wp(3) assms(2) by auto
qed

lemma start_cpu_ok:
  assumes "mapper_api (ke_x86 K)" "window_free K (sm_mem st) (8 + n)" "places_ok E tramp_virt ab_va (km_next_vmap (sm_mem st))"
    and "lapic_ok (sm_lapic st)" "ap < 256"
  shows "\<exists>st' ws mm. start_cpu E K hhdm ab_va ab_pa tramp_virt vector ap st = Ok st' \<and> window_free K (sm_mem st') n \<and>
    km_next_vmap (sm_mem st') = km_next_vmap (sm_mem st) + page_off 8 \<and> lapic_ok (sm_lapic st') \<and>
    lapic_base (sm_lapic st') = lapic_base (sm_lapic st) \<and> la_log (sm_lapic st') = la_log (sm_lapic st) @ ws \<and>
    (\<forall>hi. commands (lapic_base (sm_lapic st)) hi ws = INIT_SIPI_SIPI ap vector) \<and>
    sm_kicks st' = sm_kicks st @ [(ap, mm)] \<and>
    ready_memory E hhdm ab_va ab_pa tramp_virt (km_next_vmap (sm_mem st) + page_off 8 - 8) mm"
proof -
  let ?base = "km_next_vmap (sm_mem st)"
  let ?stk = "?base + page_off 8 - 8"
  obtain m where m: "vmap_alloc_pages K AP_STACK_PAGES (sm_mem st) = Ok (Some ?base, m)" "window_free K m n"
    "km_next_vmap m = ?base + page_off 8" "km_mem m = km_mem (sm_mem st)"
    using stack_window [OF assms(1,2)] by blast
  note w = assms(2) [unfolded window_free_def] and pl = assms(3) [unfolded places_ok_def]
  have off8: "AP_STACK_PAGES * 4096 = page_off 8"
    by (simp add: AP_STACK_PAGES_def page_off_def)
  have "page_aligned ?base" "0xFFFF800000000000 \<le> ?base" "unat ?base + 4096 * 8 < 2 ^ 64"
    using w by simp_all
  note stk = stack_top_facts [OF this]
  have p: "u_add (se_dbg E) tramp_virt (se_p32 E) = Ok (tramp_virt + se_p32 E)" "u_add (se_dbg E) tramp_virt (se_p64 E) = Ok (tramp_virt + se_p64 E)"
    using pl w by (intro u_add_ok; simp)+
  let ?mm = "poke (tramp_virt + se_p64 E) (le_bytes 8 ab_pa) (poke (tramp_virt + se_p32 E) (le_bytes 4 (ucast ab_pa :: u32))
      (poke ?stk (le_bytes 8 ab_va) (poke ab_va (ApBoot_bytes (boot_block E hhdm ?stk)) (km_mem (sm_mem st)))))"
  have ready: "ready_memory E hhdm ab_va ab_pa tramp_virt ?stk ?mm"
    using w stk(1) by (intro writes_ready [OF assms(3)]) auto
  obtain l ws where l: "start_ap (se_dbg E) (se_lat E) ap vector (sm_lapic st) = Ok l" "la_mode l = la_mode (sm_lapic st)"
    "la_hhdm l = la_hhdm (sm_lapic st)" "apic_phys l = apic_phys (sm_lapic st)" "la_log l = la_log (sm_lapic st) @ ws"
    "\<forall>hi. commands (la_hhdm (sm_lapic st) + apic_phys (sm_lapic st)) hi ws = INIT_SIPI_SIPI ap vector"
    using start_ap_commands [of "sm_lapic st" ap "se_dbg E" "se_lat E" vector] assms(4,5) by (auto simp: lapic_ok_def)
  obtain ok mem' where wait: "wait_ready (se_world E ap) ab_va 0 WAIT_SPINS ?mm = (ok, mem')"
    by (cases "wait_ready (se_world E ap) ab_va 0 WAIT_SPINS ?mm")
  let ?st' = "st\<lparr>sm_mem := m\<lparr>km_mem := mem'\<rparr>, sm_kicks := sm_kicks st @ [(ap, ?mm)], sm_lapic := l\<rparr>"
  have "start_cpu E K hhdm ab_va ab_pa tramp_virt vector ap st = Ok ?st'"
    using m stk(2-4) w p l(1) wait by (simp add: start_cpu_def off8 kick_eq write_mem_def Let_def)
  then show ?thesis
    using m l ready assms(4) by (intro exI [of _ ?st'] exI [of _ ws] exI [of _ ?mm]) (simp add: lapic_ok_def lapic_base_def)
qed

section \<open>All processors\<close>

lemma commands_append: "\<forall>hi. commands base hi vs = c \<Longrightarrow> commands base hi (ws @ vs) = commands base hi ws @ c"
  by (induction base hi ws rule: commands.induct) simp_all

abbreviation others :: "u32 \<Rightarrow> CpuEntry list \<Rightarrow> CpuEntry list" where
  "others bsp_id cs \<equiv> filter (\<lambda>c. ce_apic_id c \<noteq> bsp_id) cs"

text \<open>The record of the starts: one per processor, in order, each on the next stack of the window.\<close>

definition kicks_ok :: "smp_env \<Rightarrow> u64 \<Rightarrow> u64 \<Rightarrow> u64 \<Rightarrow> u64 \<Rightarrow> u64 \<Rightarrow> CpuEntry list \<Rightarrow> (u32 \<times> (u64 \<Rightarrow> u8)) list \<Rightarrow> bool" where
  "kicks_ok E hhdm ab_va ab_pa tramp_virt window cs ks \<longleftrightarrow> map fst ks = map ce_apic_id cs \<and>
     (\<forall>i<length ks. ready_memory E hhdm ab_va ab_pa tramp_virt (window + page_off (8 * Suc i) - 8) (snd (ks ! i)))"

lemma kicks_ok_Cons:
  assumes "ap = ce_apic_id c" "ready_memory E hhdm ab_va ab_pa tramp_virt (window + page_off 8 - 8) mm"
    and "kicks_ok E hhdm ab_va ab_pa tramp_virt (window + page_off 8) cs ks"
  shows "kicks_ok E hhdm ab_va ab_pa tramp_virt window (c # cs) ((ap, mm) # ks)"
proof -
  have "ready_memory E hhdm ab_va ab_pa tramp_virt (window + page_off (8 * Suc i) - 8) (snd (((ap, mm) # ks) ! i))" if "i < Suc (length ks)" for i
  proof (cases i)
    case 0
    then show ?thesis
      using assms(2) by simp
  next
    case (Suc j)
    have eq: "window + page_off 8 + page_off (8 * Suc j) = window + page_off (8 * Suc (Suc j))"
      by (simp add: page_off_def)
    have "ready_memory E hhdm ab_va ab_pa tramp_virt (window + page_off 8 + page_off (8 * Suc j) - 8) (snd (ks ! j))"
      using assms(3) that Suc unfolding kicks_ok_def by auto
    then show ?thesis
      unfolding eq Suc by (simp only: nth_Cons_Suc)
  qed
  then show ?thesis
    using assms(1,3) by (simp add: kicks_ok_def)
qed

lemma start_cpus_ok:
  assumes "mapper_api (ke_x86 K)" "window_free K (sm_mem st) (8 * length (others bsp_id cs))"
    and "places_ok E tramp_virt ab_va (km_next_vmap (sm_mem st))" "lapic_ok (sm_lapic st)" "\<forall>c \<in> set cs. ce_apic_id c < 256"
  shows "\<exists>st' ws ks. start_cpus E K hhdm ab_va ab_pa tramp_virt vector bsp_id cs st = Ok st' \<and>
    la_log (sm_lapic st') = la_log (sm_lapic st) @ ws \<and>
    (\<forall>hi. commands (lapic_base (sm_lapic st)) hi ws = concat (map (\<lambda>c. INIT_SIPI_SIPI (ce_apic_id c) vector) (others bsp_id cs))) \<and>
    sm_kicks st' = sm_kicks st @ ks \<and> kicks_ok E hhdm ab_va ab_pa tramp_virt (km_next_vmap (sm_mem st)) (others bsp_id cs) ks"
  using assms(2-)
proof (induction cs arbitrary: st)
  case Nil
  then show ?case
    by (intro exI [of _ st] exI [of _ "[]"]) (simp add: kicks_ok_def)
next
  case (Cons c cs)
  show ?case
  proof (cases "ce_apic_id c = bsp_id")
    case True
    then show ?thesis
      using Cons.IH [of st] Cons.prems by simp
  next
    case False
    let ?window = "km_next_vmap (sm_mem st)"
    have "window_free K (sm_mem st) (8 + 8 * length (others bsp_id cs))" "ce_apic_id c < 256"
      using False Cons.prems(1,4) by simp_all
    from start_cpu_ok [OF assms(1) this(1) Cons.prems(2,3) this(2), of hhdm ab_pa vector] obtain st1 ws mm where
      st1: "start_cpu E K hhdm ab_va ab_pa tramp_virt vector (ce_apic_id c) st = Ok st1" "window_free K (sm_mem st1) (8 * length (others bsp_id cs))"
        "km_next_vmap (sm_mem st1) = ?window + page_off 8" "lapic_ok (sm_lapic st1)" "lapic_base (sm_lapic st1) = lapic_base (sm_lapic st)"
        "la_log (sm_lapic st1) = la_log (sm_lapic st) @ ws" "\<forall>hi. commands (lapic_base (sm_lapic st)) hi ws = INIT_SIPI_SIPI (ce_apic_id c) vector"
        "sm_kicks st1 = sm_kicks st @ [(ce_apic_id c, mm)]" "ready_memory E hhdm ab_va ab_pa tramp_virt (?window + page_off 8 - 8) mm"
      by blast
    have "unat ?window \<le> unat (km_next_vmap (sm_mem st1))"
      using Cons.prems(1) False unfolding st1(3) window_free_def by (subst window_page(1)) auto
    from Cons.IH [OF st1(2) places_ok_mono [OF Cons.prems(2) this] st1(4)] Cons.prems(4) obtain st' vs ks where
      st': "start_cpus E K hhdm ab_va ab_pa tramp_virt vector bsp_id cs st1 = Ok st'" "la_log (sm_lapic st') = la_log (sm_lapic st1) @ vs"
        "\<forall>hi. commands (lapic_base (sm_lapic st)) hi vs = concat (map (\<lambda>c. INIT_SIPI_SIPI (ce_apic_id c) vector) (others bsp_id cs))"
        "sm_kicks st' = sm_kicks st1 @ ks" "kicks_ok E hhdm ab_va ab_pa tramp_virt (?window + page_off 8) (others bsp_id cs) ks"
      by (auto simp: st1(3,5))
    show ?thesis
      using False st1(1,6-8) st'(1,2,4) kicks_ok_Cons [OF refl st1(9) st'(5)] commands_append [OF st'(3)]
      by (intro exI [of _ st'] exI [of _ "ws @ vs"] exI [of _ "(ce_apic_id c, mm) # ks"]) simp
  qed
qed

lemma setup_plan:
  assumes "smp_setup E K boot st = Ok (Some p, st1)" "discover (se_dbg E) (km_mem (sm_mem st)) boot = Ok (Some m)"
  shows "pl_cpus p = filter ce_enabled (mi_cpus m)" "pl_vector p = 1" "sm_kicks st1 = sm_kicks st"
proof -
  have "pl_cpus p = filter ce_enabled (mi_cpus m) \<and> pl_vector p = 1 \<and> sm_kicks st1 = sm_kicks st"
    using assms
    by (auto simp: smp_setup_def Let_def in_mem_def program_warm_reset_def write_mem_def TRAMP_PHYS_def split: if_splits prod.splits)
  then show "pl_cpus p = filter ce_enabled (mi_cpus m)" "pl_vector p = 1" "sm_kicks st1 = sm_kicks st"
    by simp_all
qed


section \<open>Applied\<close>

definition smp_env0 :: smp_env where
  "smp_env0 = \<lparr>se_dbg = True, se_ecx = 0, se_lat = 2, se_cr3 = 0x5000, se_entry = 0xFFFFFFFF80001000, se_blob = replicate 64 0x90,
     se_p32 = 0x10, se_p64 = 0x18, se_world = (\<lambda>ap i m. m)\<rparr>"

definition smp0 :: "(u64 \<Rightarrow> u64 option, unit) smp" where
  "smp0 = \<lparr>sm_mem = table_mem\<lparr>km_mem := acpi_mem, km_low32 := Some \<lparr>bump_next = 0x10000, bump_end = 0x12000\<rparr>\<rparr>, sm_lapic = lapic0,
     sm_hhdm = 0, sm_ports = [], sm_kicks = []\<rparr>"

definition plan0 :: smp_plan where
  "plan0 = \<lparr>pl_cpus = mi_cpus acpi_info, pl_bsp_id = 0, pl_ab_va = 0x10000, pl_ab_pa = 0x10000, pl_tramp_virt = 0x1000, pl_vector = 1\<rparr>"

lemma low_frame0:
  "TinyBump_allocate_frame (\<lambda>a. Ok (align_down a 0x1000)) True [] \<lparr>bump_next = 0x10000, bump_end = 0x12000\<rparr> =
     Ok (Some 0x10000, \<lparr>bump_next = 0x11000, bump_end = 0x12000\<rparr>)"
proof -
  have "bump_inv (\<lambda>a. Ok (align_down a 0x1000)) [] \<lparr>bump_next = 0x10000, bump_end = 0x12000\<rparr>"
    by (simp add: bump_inv_def phys_frame_api_def resv_wf_def)
  from TinyBump_allocate_frame_step(1) [OF this, of True] show ?thesis
    by (simp add: resv_pages_def)
qed

lemma lapic_id0: "lapic_id True 0 lapic0 = Ok (0, lapic0)"
  by (simp add: lapic_id_def lapic0_def enabled_base_def has_x2apic_def APIC_EN_def X2APIC_EN_def rdmsr_def load_mode_def apic_phys_def
      APIC_PHYS_MASK_def u_add_def mmio_read_def mmio_def vol_read_def Let_def)

lemma pages0: "align_down 0x8000 0x1000 = 0x8000" "align_down 0x9000 0x1000 = 0x9000" "align_down 0x10000 0x1000 = 0x10000"
  by (simp_all add: align_down_def)

lemma setup0:
  "\<exists>st1. smp_setup smp_env0 table_kenv acpi_boot smp0 = Ok (Some plan0, st1) \<and> sm_lapic st1 = lapic0 \<and>
    km_frames (sm_mem st1) = km_frames table_mem \<and> km_resv (sm_mem st1) = [] \<and> km_next_vmap (sm_mem st1) = VMAP_BASE \<and>
    km_pt (sm_mem st1) = ((\<lambda>p. None)(0x8000 := Some 0x8000, 0x9000 := Some 0x9000, 0x10000 := Some 0x10000))"
  by (simp add: smp_setup_def smp_env0_def smp0_def acpi_discover acpi_boot_fields in_mem_def map_identity_4k_def take_guard_def
      TinyAllocGuard_new_def table_mem_def table_kenv_def table_x86_def map_to_def write_mem_def program_warm_reset_def TRAMP_PHYS_def
      u_add_def lapic_id0 alloc_one_phys_page_hhdm_def low_frame0 pages0 plan0_def acpi_info_def Let_def
      del: rbind_Ok_iff)

lemma window0:
  assumes "km_frames m = km_frames table_mem" "km_resv m = []" "km_next_vmap m = VMAP_BASE"
    and "km_pt m = ((\<lambda>p. None)(0x8000 := Some 0x8000, 0x9000 := Some 0x9000, 0x10000 := Some 0x10000))"
  shows "window_free table_kenv m 8"
proof -
  have "frames_ok table_kenv m" "kpool m = kpool table_mem"
    using assms(1,2) table_frames(1) by (simp_all add: frames_ok_def kpool_def table_mem_def)
  moreover have "translation table_kenv m (VMAP_BASE + page_off i) = None" if "i < 8" for i
  proof -
    have "unat (VMAP_BASE + page_off i) = unat VMAP_BASE + 4096 * i" "page_aligned (VMAP_BASE + page_off i)"
      using that by (intro window_page; simp add: VMAP_BASE_def)+
    then have "0x20000 < unat (VMAP_BASE + page_off i)" "(VMAP_BASE + page_off i) AND NOT 0xFFF = VMAP_BASE + page_off i"
      using page_base(1) by (simp_all only: VMAP_BASE_def) simp_all
    moreover have "va \<notin> {0x8000, 0x9000, 0x10000}" if "0x20000 < unat va" for va :: u64
      using that by auto
    ultimately have "VMAP_BASE + page_off i \<notin> {0x8000, 0x9000, 0x10000}" "(VMAP_BASE + page_off i) AND NOT 0xFFF = VMAP_BASE + page_off i"
      by blast+
    then show ?thesis
      using assms(4) by (simp only: translation_def) (simp add: table_kenv_def table_x86_def)
  qed
  ultimately show ?thesis
    using table_frames(2) assms(3) by (simp add: window_free_def VMAP_BASE_def)
qed


end
