(* ===== verification/Simd.thy ===== *)
theory Simd
  imports Prelude
begin

unbundle bit_operations_syntax

text \<open>
  Turning on the vector units and saving their state: the loader (\<^verbatim>\<open>jotunboot/src/simd.rs\<close>), the kernel's start-up
  (\<^verbatim>\<open>arch/x86_64/simd/mod.rs\<close>) and the capability record it computes on first use (\<^verbatim>\<open>simd/caps.rs\<close>).

  CPUID is a parameter: leaf 1 as a function of control register 4, because the processor reports there
  whether the operating system has enabled XSAVE, and leaf 13 with a size that depends on XCR0. The
  state is the three control registers, the two globals of \<^verbatim>\<open>caps.rs\<close> and the save and restore
  instructions issued so far.
\<close>

record cpuid =
  leaf1_ecx :: "u64 \<Rightarrow> u32"
  leafD0_eax :: u32
  leafD0_edx :: u32
  leafD0_ebx :: "u64 \<Rightarrow> u32"
  leafD1_eax :: u32

record XSaveCaps =
  has_xsave :: bool
  has_osxsave :: bool
  has_avx :: bool
  has_xsaveopt :: bool
  xcr0_mask_supported :: u64
  xsave_size :: u64
  caps_xcr0 :: u64

datatype simd_insn = Xsave u32 u32 | Xsaveopt u32 u32 | Fxsave | Xrstor u32 u32 | Fxrstor

record fpu =
  fp_cr0 :: u64
  fp_cr4 :: u64
  fp_xcr0 :: u64
  fp_caps :: "XSaveCaps option"
  fp_ready :: bool
  fp_log :: "simd_insn list"

definition CR0_EM :: u64 where
  "CR0_EM = push_bit 2 1"

definition CR0_MP :: u64 where
  "CR0_MP = push_bit 1 1"

definition CR0_NE :: u64 where
  "CR0_NE = push_bit 5 1"

definition CR0_TS :: u64 where
  "CR0_TS = push_bit 3 1"

definition CR4_OSFXSR :: u64 where
  "CR4_OSFXSR = push_bit 9 1"

definition CR4_OSXMMEXCPT :: u64 where
  "CR4_OSXMMEXCPT = push_bit 10 1"

definition CR4_OSXSAVE :: u64 where
  "CR4_OSXSAVE = push_bit 18 1"

definition XCR0_X87 :: u64 where
  "XCR0_X87 = push_bit 0 1"

definition XCR0_SSE :: u64 where
  "XCR0_SSE = push_bit 1 1"

definition XCR0_YMM :: u64 where
  "XCR0_YMM = push_bit 2 1"

section \<open>What the three routines share\<close>

definition feature :: "u32 \<Rightarrow> nat \<Rightarrow> bool" where
  "feature ecx n \<longleftrightarrow> ecx AND push_bit n 1 \<noteq> 0"

definition enable_cr :: "u32 \<Rightarrow> fpu \<Rightarrow> fpu" where
  "enable_cr ecx st =
     (let cr0 = (fp_cr0 st AND NOT (CR0_EM OR CR0_TS)) OR (CR0_MP OR CR0_NE);
          cr4 = fp_cr4 st OR (CR4_OSFXSR OR CR4_OSXMMEXCPT);
          cr4' = (if feature ecx 26 \<and> feature ecx 27 then cr4 OR CR4_OSXSAVE else cr4)
      in st\<lparr>fp_cr0 := cr0, fp_cr4 := cr4'\<rparr>)"

definition supported_mask :: "cpuid \<Rightarrow> u64" where
  "supported_mask C = ucast (leafD0_eax C) OR push_bit 32 (ucast (leafD0_edx C))"

definition choose_xcr0 :: "u32 \<Rightarrow> u64 \<Rightarrow> u64" where
  "choose_xcr0 ecx supported =
     (let x = (if supported AND (XCR0_X87 OR XCR0_SSE) = XCR0_X87 OR XCR0_SSE then XCR0_X87 OR XCR0_SSE else 0)
      in if feature ecx 28 \<and> supported AND XCR0_YMM \<noteq> 0 then x OR XCR0_YMM else x)"

definition apply_xcr0 :: "u64 \<Rightarrow> fpu \<Rightarrow> u64 \<times> fpu" where
  "apply_xcr0 x st = (if fp_cr4 st AND CR4_OSXSAVE \<noteq> 0 then (x, st\<lparr>fp_xcr0 := x\<rparr>) else (XCR0_X87 OR XCR0_SSE, st))"

text \<open>The size as a 64-bit number; it comes from a 32-bit register, so rounding it up cannot overflow.\<close>

definition area_size :: "cpuid \<Rightarrow> fpu \<Rightarrow> u64" where
  "area_size C st =
     (let n = ucast (leafD0_ebx C (fp_xcr0 st)) in if n AND 63 \<noteq> 0 then (n + 63) AND NOT 63 else n)"

section \<open>Loader and kernel\<close>

text \<open>The record \<open>enable_sse_avx_boot\<close> returns lacks the supported mask; it is zero here.\<close>

definition enable_sse_avx_boot :: "cpuid \<Rightarrow> fpu \<Rightarrow> XSaveCaps \<times> fpu" where
  "enable_sse_avx_boot C st =
     (let ecx = leaf1_ecx C (fp_cr4 st);
          st1 = enable_cr ecx st;
          (x, st2) = apply_xcr0 (choose_xcr0 ecx (supported_mask C)) st1
      in (\<lparr>has_xsave = feature ecx 26, has_osxsave = feature ecx 27, has_avx = feature ecx 28,
           has_xsaveopt = (leafD1_eax C AND 1 \<noteq> 0), xcr0_mask_supported = 0, xsave_size = area_size C st2, caps_xcr0 = x\<rparr>, st2))"

definition simd_init :: "cpuid \<Rightarrow> fpu \<Rightarrow> fpu" where
  "simd_init C st =
     (let ecx = leaf1_ecx C (fp_cr4 st);
          (x, st2) = apply_xcr0 (choose_xcr0 ecx (supported_mask C)) (enable_cr ecx st)
      in st2)"

definition enable_xsave_path :: "cpuid \<Rightarrow> fpu \<Rightarrow> fpu" where
  "enable_xsave_path C st =
     (let ecx = leaf1_ecx C (fp_cr4 st);
          st1 = enable_cr ecx st;
          (x, st2) = apply_xcr0 (choose_xcr0 ecx (supported_mask C)) st1;
          c = \<lparr>has_xsave = feature ecx 26, has_osxsave = feature ecx 27, has_avx = feature ecx 28,
               has_xsaveopt = (leafD1_eax C AND 1 \<noteq> 0), xcr0_mask_supported = supported_mask C,
               xsave_size = area_size C st2, caps_xcr0 = x\<rparr>
      in st2\<lparr>fp_ready := True, fp_caps := (case fp_caps st2 of None \<Rightarrow> Some c | Some c' \<Rightarrow> Some c')\<rparr>)"

definition caps :: "cpuid \<Rightarrow> fpu \<Rightarrow> XSaveCaps \<times> fpu" where
  "caps C st =
     (case fp_caps st of
        Some c \<Rightarrow> (c, st)
      | None \<Rightarrow> let st' = enable_xsave_path C st in (the (fp_caps st'), st'))"

definition simd_save :: "cpuid \<Rightarrow> fpu \<Rightarrow> fpu" where
  "simd_save C st =
     (let (c, st1) = caps C st;
          lo = ucast (caps_xcr0 c AND 0xFFFFFFFF); hi = ucast (drop_bit 32 (caps_xcr0 c));
          insn = (if has_xsave c \<and> has_osxsave c \<and> fp_ready st1
                  then if has_xsaveopt c then Xsaveopt lo hi else Xsave lo hi
                  else Fxsave)
      in st1\<lparr>fp_log := fp_log st1 @ [insn]\<rparr>)"

definition simd_restore :: "cpuid \<Rightarrow> fpu \<Rightarrow> fpu" where
  "simd_restore C st =
     (let (c, st1) = caps C st;
          lo = ucast (caps_xcr0 c AND 0xFFFFFFFF); hi = ucast (drop_bit 32 (caps_xcr0 c));
          insn = (if has_xsave c \<and> has_osxsave c \<and> fp_ready st1 then Xrstor lo hi else Fxrstor)
      in st1\<lparr>fp_log := fp_log st1 @ [insn]\<rparr>)"

section \<open>What never happens\<close>

text \<open>Any sequence of these operations, on one processor.\<close>

datatype simd_op = BootEnable | Init | EnablePath | Save | Restore

fun simd_step :: "cpuid \<Rightarrow> simd_op \<Rightarrow> fpu \<Rightarrow> fpu" where
  "simd_step C BootEnable st = snd (enable_sse_avx_boot C st)"
| "simd_step C Init st = simd_init C st"
| "simd_step C EnablePath st = enable_xsave_path C st"
| "simd_step C Save st = simd_save C st"
| "simd_step C Restore st = simd_restore C st"

text \<open>Leaf 1 reports in bit 27 whether bit 18 of control register 4 is set.\<close>

definition osxsave_reported :: "cpuid \<Rightarrow> bool" where
  "osxsave_reported C \<longleftrightarrow> (\<forall>cr4. bit (leaf1_ecx C cr4) 27 \<longleftrightarrow> bit cr4 18)"

text \<open>The unit as firmware leaves it: XSAVE off, and no record that says otherwise.\<close>

definition xsave_off :: "fpu \<Rightarrow> bool" where
  "xsave_off st \<longleftrightarrow> \<not> bit (fp_cr4 st) 18 \<and> (case fp_caps st of None \<Rightarrow> True | Some c \<Rightarrow> \<not> has_osxsave c) \<and>
     set (fp_log st) \<subseteq> {Fxsave, Fxrstor}"

lemma and_push_bit_1: "x AND push_bit n 1 = (if bit x n then push_bit n 1 else 0)" for x :: "'l::len word"
  by (rule bit_word_eqI) (auto simp: bit_simps)

lemma feature_bit: "n < 32 \<Longrightarrow> feature ecx n \<longleftrightarrow> bit ecx n"
  unfolding feature_def and_push_bit_1 by simp

lemma osxsave_bit: "x AND CR4_OSXSAVE \<noteq> 0 \<longleftrightarrow> bit x 18"
  unfolding CR4_OSXSAVE_def and_push_bit_1 by simp

lemma enable_cr_off:
  assumes "osxsave_reported C" "\<not> bit (fp_cr4 st) 18"
  shows "\<not> bit (fp_cr4 (enable_cr (leaf1_ecx C (fp_cr4 st)) st)) 18" "\<not> feature (leaf1_ecx C (fp_cr4 st)) 27"
proof -
  show "\<not> feature (leaf1_ecx C (fp_cr4 st)) 27"
    using assms by (simp add: feature_bit osxsave_reported_def)
  then show "\<not> bit (fp_cr4 (enable_cr (leaf1_ecx C (fp_cr4 st)) st)) 18"
    using assms(2) by (simp add: enable_cr_def Let_def CR4_OSFXSR_def CR4_OSXMMEXCPT_def bit_simps)
qed

lemma enable_cr_fields [simp]: "fp_xcr0 (enable_cr ecx st) = fp_xcr0 st" "fp_caps (enable_cr ecx st) = fp_caps st" "fp_log (enable_cr ecx st) = fp_log st"
  by (simp_all add: enable_cr_def Let_def)

lemma apply_xcr0_off: "\<not> bit (fp_cr4 st) 18 \<Longrightarrow> apply_xcr0 x st = (XCR0_X87 OR XCR0_SSE, st)"
  using osxsave_bit [of "fp_cr4 st"] by (simp add: apply_xcr0_def)

lemma enable_path_off:
  assumes "osxsave_reported C" "xsave_off st"
  shows "xsave_off (enable_xsave_path C st)" "fp_xcr0 (enable_xsave_path C st) = fp_xcr0 st" "\<exists>c. fp_caps (enable_xsave_path C st) = Some c"
proof -
  have off: "\<not> bit (fp_cr4 st) 18"
    using assms(2) by (simp add: xsave_off_def)
  note e = enable_cr_off [OF assms(1) off]
  show "xsave_off (enable_xsave_path C st)" "fp_xcr0 (enable_xsave_path C st) = fp_xcr0 st" "\<exists>c. fp_caps (enable_xsave_path C st) = Some c"
    using assms(2) e by (auto simp: enable_xsave_path_def Let_def apply_xcr0_off xsave_off_def split: option.splits)
qed

lemma caps_off:
  assumes "osxsave_reported C" "xsave_off st" "caps C st = (c, st1)"
  shows "xsave_off st1" "fp_xcr0 st1 = fp_xcr0 st" "\<not> has_osxsave c"
  using assms enable_path_off [OF assms(1,2)]
  by (auto simp: caps_def Let_def xsave_off_def split: option.splits)

lemma simd_step_off:
  assumes "osxsave_reported C" "xsave_off st"
  shows "xsave_off (simd_step C p st) \<and> fp_xcr0 (simd_step C p st) = fp_xcr0 st"
proof (cases p)
  case EnablePath
  then show ?thesis
    using enable_path_off [OF assms] by simp
next
  case Save
  then show ?thesis
    using caps_off [OF assms] by (cases "caps C st") (auto simp: simd_save_def Let_def xsave_off_def)
next
  case Restore
  then show ?thesis
    using caps_off [OF assms] by (cases "caps C st") (auto simp: simd_restore_def Let_def xsave_off_def)
next
  case BootEnable
  then show ?thesis
    using assms(2) enable_cr_off [OF assms(1)] by (auto simp: enable_sse_avx_boot_def Let_def apply_xcr0_off xsave_off_def)
next
  case Init
  then show ?thesis
    using assms(2) enable_cr_off [OF assms(1)] by (auto simp: simd_init_def Let_def apply_xcr0_off xsave_off_def)
qed

text \<open>
  C26: XSAVE is never turned on. The processor reports in CPUID whether the operating system has
  enabled XSAVE, and loader and kernel enable it only if that is already so; hence on a processor on which
  firmware has not, no sequence of their operations sets the enabling bit or writes XCR0, and every task
  switch uses the legacy instructions, which do not save the upper halves of the AVX registers.
\<close>

theorem xsave_never_enabled:
  assumes "osxsave_reported C" "\<not> bit (fp_cr4 st) 18" "fp_caps st = None" "fp_log st = []"
  shows "\<not> bit (fp_cr4 (fold (simd_step C) ps st)) 18 \<and> fp_xcr0 (fold (simd_step C) ps st) = fp_xcr0 st \<and>
    set (fp_log (fold (simd_step C) ps st)) \<subseteq> {Fxsave, Fxrstor}"
proof -
  have "xsave_off s \<Longrightarrow> xsave_off (fold (simd_step C) ps s) \<and> fp_xcr0 (fold (simd_step C) ps s) = fp_xcr0 s" for s
    by (induction ps arbitrary: s) (use simd_step_off [OF assms(1)] in auto)
  from this [of st] show ?thesis
    using assms by (simp add: xsave_off_def)
qed

definition avx_cpu :: cpuid where
  "avx_cpu = \<lparr>leaf1_ecx = (\<lambda>cr4. if bit cr4 18 then 0x1C000000 else 0x14000000), leafD0_eax = 7, leafD0_edx = 0,
     leafD0_ebx = (\<lambda>x. 832), leafD1_eax = 1\<rparr>"

definition fpu0 :: fpu where
  "fpu0 = \<lparr>fp_cr0 = 0x80000011, fp_cr4 = 0x20, fp_xcr0 = 1, fp_caps = None, fp_ready = False, fp_log = []\<rparr>"

theorem xsave_never_enabled_witness:
  "fp_log (fold (simd_step avx_cpu) [BootEnable, Init, Save, Restore] fpu0) = [Fxsave, Fxrstor] \<and>
   \<not> bit (fp_cr4 (fold (simd_step avx_cpu) [BootEnable, Init, Save, Restore] fpu0)) 18"
proof -
  have "osxsave_reported avx_cpu"
    by (auto simp: osxsave_reported_def avx_cpu_def bit_numeral_rec)
  moreover have "\<not> bit (fp_cr4 fpu0) 18" "fp_caps fpu0 = None" "fp_log fpu0 = []"
    by (simp_all add: fpu0_def bit_numeral_rec)
  ultimately have "\<not> bit (fp_cr4 (fold (simd_step avx_cpu) [BootEnable, Init, Save, Restore] fpu0)) 18"
    using xsave_never_enabled by blast
  moreover have "fp_log (fold (simd_step avx_cpu) [BootEnable, Init, Save, Restore] fpu0) = [Fxsave, Fxrstor]"
    by code_simp
  ultimately show ?thesis
    by blast
qed

end
