(* ===== verification/Devices.thy ===== *)
theory Devices
  imports Prelude
begin

unbundle bit_operations_syntax

text \<open>
  The I/O interrupt controller (\<^verbatim>\<open>arch/x86_64/ioapic.rs\<close>) and the estimate of the time-stamp counter's frequency
  (\<^verbatim>\<open>arch/x86_64/tsc.rs\<close>). The controller is its register file behind a select register; CPUID is a parameter.
\<close>

section \<open>The I/O interrupt controller\<close>

record ioapic =
  io_sel :: u32
  io_regs :: "u32 \<Rightarrow> u32"

definition io_write :: "u32 \<Rightarrow> u32 \<Rightarrow> ioapic \<Rightarrow> ioapic" where
  "io_write reg v io = io\<lparr>io_sel := reg, io_regs := (io_regs io)(reg := v)\<rparr>"

definition io_read :: "u32 \<Rightarrow> ioapic \<Rightarrow> u32 \<times> ioapic" where
  "io_read reg io = (io_regs io reg, io\<lparr>io_sel := reg\<rparr>)"

primrec mask_loop :: "bool \<Rightarrow> u32 \<Rightarrow> nat \<Rightarrow> ioapic \<Rightarrow> ioapic res" where
  "mask_loop dbg i 0 io = Ok io"
| "mask_loop dbg i (Suc n) io =
     rbind (u_mul dbg i 2) (\<lambda>d.
     rbind (u_add dbg 0x10 d) (\<lambda>redir_lo.
       let (lo, io1) = io_read redir_lo io
       in mask_loop dbg (i + 1) n (io_write redir_lo (lo OR push_bit 16 1) io1)))"

definition mask_all :: "bool \<Rightarrow> ioapic \<Rightarrow> ioapic res" where
  "mask_all dbg io =
     (let (ver, io1) = io_read 0x01 io; max_redir = drop_bit 16 ver AND 0xFF
      in mask_loop dbg 0 (Suc (unat max_redir)) io1)"

definition redir_lo :: "nat \<Rightarrow> u32" where
  "redir_lo i = of_nat (0x10 + 2 * i)"

lemma unat_redir_lo: "i < 256 \<Longrightarrow> unat (redir_lo i) = 0x10 + 2 * i"
  by (simp add: redir_lo_def unsigned_of_nat take_bit_nat_eq_self del: of_nat_add of_nat_mult)

lemma mask_loop_step:
  assumes "i < 256"
  shows "mask_loop dbg (of_nat i) (Suc n) io =
    mask_loop dbg (of_nat (Suc i)) n (io\<lparr>io_sel := redir_lo i, io_regs := (io_regs io)(redir_lo i := io_regs io (redir_lo i) OR push_bit 16 1)\<rparr>)"
proof -
  have i: "unat (of_nat i :: u32) = i"
    using assms by (simp add: unsigned_of_nat take_bit_nat_eq_self)
  then have "u_mul dbg (of_nat i :: u32) 2 = Ok (of_nat i * 2)" "unat (of_nat i * 2 :: u32) = i * 2"
    using assms by (simp_all add: u_mul_ok unat_word_ariths)
  then have "u_add dbg (0x10 :: u32) (of_nat i * 2) = Ok (redir_lo i)"
    using assms by (simp add: u_add_ok redir_lo_def)
  then show ?thesis
    using \<open>u_mul dbg (of_nat i :: u32) 2 = Ok (of_nat i * 2)\<close> by (simp add: io_read_def io_write_def add.commute)
qed

text \<open>The low words of redirection entries \<open>i\<close> up to \<open>i + n\<close> get their mask bit; the rest of the registers keeps its value.\<close>

lemma mask_loop_regs:
  assumes "i + n \<le> 256"
  shows "\<exists>io'. mask_loop dbg (of_nat i) n io = Ok io' \<and>
    io_regs io' = (\<lambda>r. if \<exists>j. i \<le> j \<and> j < i + n \<and> r = redir_lo j then io_regs io r OR push_bit 16 1 else io_regs io r)"
  using assms
proof (induction n arbitrary: i io)
  case 0
  show ?case
    by (auto intro!: ext)
next
  case (Suc n)
  let ?io = "io\<lparr>io_sel := redir_lo i, io_regs := (io_regs io)(redir_lo i := io_regs io (redir_lo i) OR push_bit 16 1)\<rparr>"
  have i: "i < 256" "Suc i + n \<le> 256"
    using Suc.prems by simp_all
  from Suc.IH [OF i(2), of ?io] obtain io' where
    io': "mask_loop dbg (of_nat (Suc i)) n ?io = Ok io'"
      "io_regs io' = (\<lambda>r. if \<exists>j. Suc i \<le> j \<and> j < Suc i + n \<and> r = redir_lo j then io_regs ?io r OR push_bit 16 1 else io_regs ?io r)"
    by blast
  have "redir_lo i \<noteq> redir_lo j" if "Suc i \<le> j" "j < Suc i + n" for j
    using that i unat_redir_lo [of i] unat_redir_lo [of j] by auto
  moreover have "(\<exists>j. i \<le> j \<and> j < i + Suc n \<and> r = redir_lo j) \<longleftrightarrow> r = redir_lo i \<or> (\<exists>j. Suc i \<le> j \<and> j < Suc i + n \<and> r = redir_lo j)" for r
    by (metis add_Suc_shift le_add1 le_less_Suc_eq le_neq_implies_less less_Suc_eq_le less_add_Suc1 nat_less_le not_less_eq_eq Suc_leI)
  ultimately show ?case
    using io' mask_loop_step [OF i(1), of dbg n io] by (intro exI [of _ io']) (auto intro!: ext)
qed

lemma mask_all_masks:
  "\<exists>io'. mask_all dbg io = Ok io' \<and>
    (\<forall>j \<le> unat (drop_bit 16 (io_regs io 1) AND 0xFF). bit (io_regs io' (redir_lo j)) 16)"
proof -
  let ?m = "unat (drop_bit 16 (io_regs io 1) AND 0xFF)"
  have m: "?m < 256"
  proof -
    have "drop_bit 16 (io_regs io 1) AND 0xFF \<le> (0xFF :: u32)"
      by (rule word_and_le1)
    then show ?thesis
      by (simp add: word_le_nat_alt)
  qed
  let ?io = "io\<lparr>io_sel := 1\<rparr>"
  have "0 + Suc ?m \<le> 256"
    using m by simp
  from mask_loop_regs [OF this, of dbg ?io] obtain io' where io': "mask_loop dbg (of_nat 0) (Suc ?m) ?io = Ok io'"
    "io_regs io' = (\<lambda>r. if \<exists>j. 0 \<le> j \<and> j < 0 + Suc ?m \<and> r = redir_lo j then io_regs ?io r OR push_bit 16 1 else io_regs ?io r)"
    by blast
  have "bit (io_regs io' (redir_lo j)) 16" if "j \<le> ?m" for j
  proof -
    have "\<exists>j'. 0 \<le> j' \<and> j' < 0 + Suc ?m \<and> redir_lo j = redir_lo j'"
      using that by (intro exI [of _ j]) simp
    then show ?thesis
      unfolding io'(2) by (simp only: if_True bit_or_iff bit_push_bit_iff) simp
  qed
  moreover have "mask_loop dbg 0 (Suc ?m) ?io = Ok io'"
    using io'(1) by (rule back_subst [of "\<lambda>w. mask_loop dbg w (Suc ?m) ?io = Ok io'"]) simp
  ultimately show ?thesis
    unfolding mask_all_def io_read_def Let_def prod.case by blast
qed

section \<open>The time-stamp counter\<close>

record tsc_cpuid =
  l15_eax :: u32
  l15_ebx :: u32
  l15_ecx :: u32
  l16_eax :: u32
  l1_ecx :: u32
  l80000007_edx :: u32

definition has_invariant_tsc :: "tsc_cpuid \<Rightarrow> bool" where
  "has_invariant_tsc C \<longleftrightarrow> l80000007_edx C AND push_bit 8 1 \<noteq> 0"

definition has_tsc_deadline :: "tsc_cpuid \<Rightarrow> bool" where
  "has_tsc_deadline C \<longleftrightarrow> l1_ecx C AND push_bit 24 1 \<noteq> 0"

definition tsc_hz_estimate :: "bool \<Rightarrow> tsc_cpuid \<Rightarrow> u64 res" where
  "tsc_hz_estimate dbg C =
     (if l15_eax C \<noteq> 0 \<and> l15_ebx C \<noteq> 0 \<and> l15_ecx C \<noteq> 0 then
        rbind (u_mul dbg (ucast (l15_ecx C)) (ucast (l15_ebx C))) (\<lambda>p.
          let hz = p div ucast (l15_eax C) in
          if hz < 10000000 then
            if 1000 \<le> hz \<and> hz < 10000 then u_mul dbg hz 1000000
            else if 10000 \<le> hz then u_mul dbg hz 1000
            else Ok hz
          else Ok hz)
      else
        let mhz = ucast (l16_eax C AND 0xFFFF) in
        if mhz \<noteq> 0 then u_mul dbg mhz 1000000 else Ok 3000000000)"

text \<open>No multiplication of the estimate overflows.\<close>

lemma tsc_hz_total: "\<exists>hz. tsc_hz_estimate dbg C = Ok hz"
proof -
  have less: "unat (ucast w :: u64) < 2 ^ 32" for w :: u32
  proof -
    have "unat (ucast w :: u64) \<le> unat w"
      using take_bit_nat_less_eq_self [of 64 "unat w"] by (simp add: unsigned_ucast_eq)
    also have "\<dots> < 2 ^ 32"
      by simp
    finally show ?thesis .
  qed
  have "unat (ucast (l15_ecx C) :: u64) * unat (ucast (l15_ebx C) :: u64) < 2 ^ 32 * 2 ^ 32"
    by (intro mult_strict_mono less) simp_all
  then have "u_mul dbg (ucast (l15_ecx C) :: u64) (ucast (l15_ebx C)) = Ok (ucast (l15_ecx C) * ucast (l15_ebx C))"
    by (intro u_mul_ok) simp
  moreover have "u_mul dbg hz 1000000 = Ok (hz * 1000000)" if "hz < 4294967296" for hz :: u64
    using that by (intro u_mul_ok) (simp add: word_less_nat_alt)
  moreover have "u_mul dbg hz 1000 = Ok (hz * 1000)" if "hz < 10000000" for hz :: u64
    using that by (intro u_mul_ok) (simp add: word_less_nat_alt)
  moreover have "(ucast w :: u64) < 4294967296" for w :: u32
    using less [of w] by (simp add: word_less_nat_alt)
  moreover have "hz < 4294967296" if "hz < 10000" for hz :: u64
    using that by (rule less_trans) simp
  ultimately show ?thesis
    by (auto simp: tsc_hz_estimate_def Let_def)
qed

end
