(* ===== verification/Tables.thy ===== *)
theory Tables
  imports Prelude
begin

unbundle bit_operations_syntax

text \<open>
  Interrupt handlers and the tables the processor reads (\<^verbatim>\<open>arch/x86_64/tables\<close>): the registry of handlers with
  their per-processor stacks, the stack tables of the task state segment (\<^verbatim>\<open>gdt.rs\<close>) and the
  interrupt descriptor table (\<^verbatim>\<open>idt.rs\<close>).

  The addresses at which the global allocator places the stacks are a parameter, one address per
  allocation. The descriptor table of the x86-64 crate only yields selectors here, which are a
  parameter too; loading the tables into the processor has no effect on this state.
\<close>

section \<open>The registry\<close>

text \<open>The identity of a processor: its interrupt controller's number, or none for the dummy.\<close>

type_synonym CpuId = "u32 option"

record CpuStack =
  cs_dump :: u64
  cs_len :: u64
  cs_cpu :: CpuId

record ISR =
  isr_stack :: "CpuStack list option"
  isr_vector :: "u16 option"
  isr_index :: "u16 option"
  isr_stub :: "u64 option"

record tables =
  tb_isrs :: "ISR list option"
  tb_allocs :: nat

definition CpuStack_SIZE :: u64 where
  "CpuStack_SIZE = 0x20000"

definition CpuStack_new :: "(nat \<Rightarrow> u64) \<Rightarrow> CpuId \<Rightarrow> nat \<Rightarrow> CpuStack" where
  "CpuStack_new heap cpu n = \<lparr>cs_dump = heap n, cs_len = CpuStack_SIZE, cs_cpu = cpu\<rparr>"

definition Stack_registrate :: "(nat \<Rightarrow> u64) \<Rightarrow> CpuId \<Rightarrow> nat \<Rightarrow> CpuStack list \<Rightarrow> CpuStack list" where
  "Stack_registrate heap cpu n stacks = CpuStack_new heap cpu n # stacks"

definition Stack_me :: "CpuId \<Rightarrow> CpuStack list \<Rightarrow> CpuStack option" where
  "Stack_me cpu stacks = find (\<lambda>s. cs_cpu s = cpu) stacks"

definition tables_init :: "tables \<Rightarrow> tables" where
  "tables_init tb = (if tb_isrs tb = None then tb\<lparr>tb_isrs := Some []\<rparr> else tb)"

text \<open>The loop of \<open>ISR::new\<close> initialises the registry at most once and then inserts in front.\<close>

definition ISR_new :: "u16 option \<Rightarrow> u64 option \<Rightarrow> CpuStack list option \<Rightarrow> tables \<Rightarrow> tables" where
  "ISR_new vector stub stack tb =
     (let tb1 = tables_init tb;
          isr = \<lparr>isr_stack = stack, isr_vector = vector, isr_index = None, isr_stub = stub\<rparr>
      in tb1\<lparr>tb_isrs := map_option (\<lambda>isrs. isr # isrs) (tb_isrs tb1)\<rparr>)"

definition ISR_registrate :: "u16 \<Rightarrow> u64 \<Rightarrow> tables \<Rightarrow> tables" where
  "ISR_registrate vector stub tb = ISR_new (Some vector) (Some stub) (Some []) tb"

definition ISR_registrate_without_stack :: "u16 \<Rightarrow> u64 \<Rightarrow> tables \<Rightarrow> tables" where
  "ISR_registrate_without_stack vector stub tb = ISR_new (Some vector) (Some stub) None tb"

text \<open>\<open>registrate\<close>: every handler that has stacks gets one for the processor.\<close>

fun registrate_all :: "(nat \<Rightarrow> u64) \<Rightarrow> CpuId \<Rightarrow> nat \<Rightarrow> ISR list \<Rightarrow> nat \<times> ISR list" where
  "registrate_all heap cpu n [] = (n, [])"
| "registrate_all heap cpu n (e # es) =
     (case isr_stack e of
        Some stacks \<Rightarrow>
          let (n', es') = registrate_all heap cpu (Suc n) es
          in (n', e\<lparr>isr_stack := Some (Stack_registrate heap cpu n stacks)\<rparr> # es')
      | None \<Rightarrow> let (n', es') = registrate_all heap cpu n es in (n', e # es'))"

definition registrate :: "(nat \<Rightarrow> u64) \<Rightarrow> CpuId \<Rightarrow> tables \<Rightarrow> tables" where
  "registrate heap cpu tb =
     (let tb1 = tables_init tb;
          (n, isrs) = registrate_all heap cpu (tb_allocs tb1) (the (tb_isrs tb1))
      in tb1\<lparr>tb_isrs := Some isrs, tb_allocs := n\<rparr>)"

section \<open>Registering the handlers\<close>

text \<open>The addresses of the assembly stubs, symbols of the linker.\<close>

record Stubs =
  default_stub :: u64
  timer_stub :: u64
  spurious_stub :: u64
  db_stub :: u64
  bp_stub :: u64
  gp_stub :: u64
  pf_stub :: u64
  df_stub :: u64
  ud_stub :: u64

definition timer_init :: "Stubs \<Rightarrow> tables \<Rightarrow> tables" where
  "timer_init S tb = ISR_registrate 0xFF (spurious_stub S) (ISR_registrate 0x40 (timer_stub S) tb)"

definition debug_init :: "Stubs \<Rightarrow> tables \<Rightarrow> tables" where
  "debug_init S tb = ISR_registrate 0x03 (bp_stub S) (ISR_registrate 0x01 (db_stub S) tb)"

definition fault_init :: "Stubs \<Rightarrow> tables \<Rightarrow> tables" where
  "fault_init S tb = ISR_registrate 0x08 (df_stub S) (ISR_registrate 0x0E (pf_stub S) (ISR_registrate 0x0D (gp_stub S) tb))"

definition misc_init :: "Stubs \<Rightarrow> tables \<Rightarrow> tables" where
  "misc_init S tb = ISR_registrate_without_stack 0x06 (ud_stub S) tb"

definition isr_init :: "Stubs \<Rightarrow> tables \<Rightarrow> tables" where
  "isr_init S tb = misc_init S (fault_init S (debug_init S (timer_init S tb)))"

section \<open>The task state segment\<close>

record Selectors =
  sel_code :: u16
  sel_data :: u16
  sel_tss :: u16

record TaskStateSegment =
  interrupt_stack_table :: "u64 list"
  privilege_stack_table :: "u64 list"

definition TSS_new :: TaskStateSegment where
  "TSS_new = \<lparr>interrupt_stack_table = replicate 7 0, privilege_stack_table = replicate 3 0\<rparr>"

definition top_raw :: "u64 \<Rightarrow> u64 \<Rightarrow> u64" where
  "top_raw base len = (base + len) AND NOT 15"

definition put_at :: "'a list \<Rightarrow> nat \<Rightarrow> 'a \<Rightarrow> 'a list res" where
  "put_at xs i v = (if i < length xs then Ok (xs[i := v]) else Panic OutOfRange)"

text \<open>The closure over the registry: handlers with a vector get an interrupt stack, others a privilege stack.\<close>

fun generate_loop :: "bool \<Rightarrow> CpuId \<Rightarrow> ISR list \<Rightarrow> u16 \<Rightarrow> u16 \<Rightarrow> TaskStateSegment \<Rightarrow> (ISR list \<times> TaskStateSegment) res" where
  "generate_loop dbg cpu [] i p t = Ok ([], t)"
| "generate_loop dbg cpu (e # es) i p t =
     (case isr_stack e of
        None \<Rightarrow> rbind (generate_loop dbg cpu es i p t) (\<lambda>(es', t'). Ok (e # es', t'))
      | Some stacks \<Rightarrow>
          rbind (expect (Stack_me cpu stacks)) (\<lambda>stack.
            if isr_vector e \<noteq> None \<and> isr_stub e \<noteq> None then
              rbind (put_at (interrupt_stack_table t) (unat i) (top_raw (cs_dump stack) (cs_len stack - 1))) (\<lambda>ist.
              rbind (u_add dbg i 1) (\<lambda>i'.
              rbind (generate_loop dbg cpu es i' p (t\<lparr>interrupt_stack_table := ist\<rparr>)) (\<lambda>(es', t').
                Ok (e\<lparr>isr_index := Some i\<rparr> # es', t'))))
            else
              rbind (put_at (privilege_stack_table t) (unat p) (top_raw (cs_dump stack) (cs_len stack - 1))) (\<lambda>pst.
              rbind (u_add dbg p 1) (\<lambda>p'.
              rbind (generate_loop dbg cpu es i p' (t\<lparr>privilege_stack_table := pst\<rparr>)) (\<lambda>(es', t').
                Ok (e # es', t'))))))"

definition generate_inner :: "bool \<Rightarrow> CpuId \<Rightarrow> tables \<Rightarrow> (TaskStateSegment \<times> tables) res" where
  "generate_inner dbg cpu tb =
     (let tb1 = tables_init tb in
      rbind (generate_loop dbg cpu (the (tb_isrs tb1)) 0 0 TSS_new) (\<lambda>(isrs, t).
        Ok (t, tb1\<lparr>tb_isrs := Some isrs\<rparr>)))"

section \<open>The interrupt descriptor table\<close>

record IdtEntry =
  offset_low :: u16
  selector :: u16
  ist :: u8
  type_attr :: u8
  offset_mid :: u16
  offset_high :: u32
  zero :: u32

definition empty_entry :: IdtEntry where
  "empty_entry = \<lparr>offset_low = 0, selector = 0, ist = 0, type_attr = 0, offset_mid = 0, offset_high = 0, zero = 0\<rparr>"

definition gate :: "u64 \<Rightarrow> u8 \<Rightarrow> u8 \<Rightarrow> Selectors \<Rightarrow> IdtEntry" where
  "gate h ist_idx dpl sel =
     \<lparr>offset_low = ucast (h AND 0xFFFF), selector = sel_code sel, ist = ist_idx AND 0x7,
      type_attr = 0x8E OR push_bit 5 (dpl AND 0x3), offset_mid = ucast (drop_bit 16 h AND 0xFFFF),
      offset_high = ucast (drop_bit 32 h AND 0xFFFFFFFF), zero = 0\<rparr>"

text \<open>\<open>set_gate\<close> writes through a raw pointer into the array of 256 entries.\<close>

definition set_gate :: "IdtEntry list \<Rightarrow> nat \<Rightarrow> u64 \<Rightarrow> u8 \<Rightarrow> u8 \<Rightarrow> Selectors \<Rightarrow> IdtEntry list res" where
  "set_gate idt v h ist_idx dpl sel =
     (if v < length idt then Ok (idt[v := gate h ist_idx dpl sel]) else Panic OutOfBuffer)"

fun default_gates :: "Stubs \<Rightarrow> Selectors \<Rightarrow> nat list \<Rightarrow> IdtEntry list \<Rightarrow> IdtEntry list res" where
  "default_gates S sel [] idt = Ok idt"
| "default_gates S sel (v # vs) idt = rbind (set_gate idt v (default_stub S) 0 0 sel) (default_gates S sel vs)"

fun isr_gates :: "Selectors \<Rightarrow> ISR list \<Rightarrow> IdtEntry list \<Rightarrow> IdtEntry list res" where
  "isr_gates sel [] idt = Ok idt"
| "isr_gates sel (e # es) idt =
     (case (isr_vector e, isr_stub e) of
        (Some vec, Some stub) \<Rightarrow>
          let index = (case isr_index e of Some index \<Rightarrow> index | None \<Rightarrow> 0)
          in rbind (set_gate idt (unat vec) stub (ucast index) 0 sel) (isr_gates sel es)
      | _ \<Rightarrow> isr_gates sel es idt)"

text \<open>\<open>idt::init\<close> and \<open>idt::ap_init\<close> build the same table; only the former keeps a copy.\<close>

definition build_idt :: "Stubs \<Rightarrow> Selectors \<Rightarrow> tables \<Rightarrow> IdtEntry list res" where
  "build_idt S sel tb =
     (let tb1 = tables_init tb in
      rbind (default_gates S sel [0..<256] (replicate 256 empty_entry)) (\<lambda>idt. isr_gates sel (the (tb_isrs tb1)) idt))"

record cpu_tables =
  ct_sel :: Selectors
  ct_tss :: TaskStateSegment
  ct_idt :: "IdtEntry list"

text \<open>
  \<open>gdt::init\<close>: a privilege stack, the temporary segment for the dummy processor and a first descriptor
  table with it, then the stacks and the segment of the boot processor; \<open>me\<close> is its interrupt
  controller's number, \<open>sel0\<close> and \<open>sel\<close> the selectors of the two descriptor tables.
\<close>

definition gdt_init :: "bool \<Rightarrow> (nat \<Rightarrow> u64) \<Rightarrow> Stubs \<Rightarrow> Selectors \<Rightarrow> Selectors \<Rightarrow> u32 \<Rightarrow> tables \<Rightarrow> (cpu_tables \<times> tables) res" where
  "gdt_init dbg heap S sel0 sel me tb =
     (let tb1 = registrate heap None (ISR_new None None (Some []) tb) in
      rbind (generate_inner dbg None tb1) (\<lambda>(tss0, tb2).
      rbind (build_idt S sel0 tb2) (\<lambda>idt0.
        let tb3 = registrate heap (Some me) tb2 in
        rbind (generate_inner dbg (Some me) tb3) (\<lambda>(tss, tb4).
          Ok (\<lparr>ct_sel = sel, ct_tss = tss, ct_idt = idt0\<rparr>, tb4)))))"

text \<open>The part of \<open>native::init\<close> that builds the tables of the boot processor.\<close>

definition boot_tables :: "bool \<Rightarrow> (nat \<Rightarrow> u64) \<Rightarrow> Stubs \<Rightarrow> Selectors \<Rightarrow> Selectors \<Rightarrow> u32 \<Rightarrow> (cpu_tables \<times> tables) res" where
  "boot_tables dbg heap S sel0 sel me =
     rbind (gdt_init dbg heap S sel0 sel me (isr_init S \<lparr>tb_isrs = None, tb_allocs = 0\<rparr>)) (\<lambda>(ct, tb).
     rbind (build_idt S (ct_sel ct) tb) (\<lambda>idt.
       Ok (ct\<lparr>ct_idt := idt\<rparr>, tb)))"

text \<open>The tables of another processor: its stacks, its segment and its descriptor table.\<close>

definition ap_tables :: "bool \<Rightarrow> (nat \<Rightarrow> u64) \<Rightarrow> Stubs \<Rightarrow> Selectors \<Rightarrow> u32 \<Rightarrow> tables \<Rightarrow> (cpu_tables \<times> tables) res" where
  "ap_tables dbg heap S sel me tb =
     rbind (generate_inner dbg (Some me) (registrate heap (Some me) tb)) (\<lambda>(tss, tb1).
     rbind (build_idt S sel tb1) (\<lambda>idt.
       Ok (\<lparr>ct_sel = sel, ct_tss = tss, ct_idt = idt\<rparr>, tb1)))"

section \<open>What the processor makes of them\<close>

text \<open>The address a gate sends the processor to, and the stack it switches to: number zero means none.\<close>

definition gate_target :: "IdtEntry \<Rightarrow> u64" where
  "gate_target g = ucast (offset_low g) OR push_bit 16 (ucast (offset_mid g)) OR push_bit 32 (ucast (offset_high g))"

definition gate_stack :: "TaskStateSegment \<Rightarrow> IdtEntry \<Rightarrow> u64 option" where
  "gate_stack t g = (if ist g = 0 then None else Some (interrupt_stack_table t ! (unat (ist g) - 1)))"

lemma gate_target_gate: "gate_target (gate h i d sel) = h"
proof -
  have m: "x AND 0xFFFF = take_bit 16 x" "x AND 0xFFFFFFFF = take_bit 32 x" for x :: u64
    by (simp_all add: take_bit_eq_mask mask_eq_exp_minus_1)
  show ?thesis
  proof (rule bit_word_eqI)
    fix n assume "n < LENGTH(64)"
    then consider "n < 16" | "16 \<le> n" "n < 32" | "32 \<le> n" "n < 64"
      by fastforce
    then show "bit (gate_target (gate h i d sel)) n = bit h n"
      by cases (simp_all add: gate_target_def gate_def m bit_simps, auto)
  qed
qed

section \<open>The tables of the boot processor\<close>

lemma default_gates_eq:
  assumes "\<forall>v\<in>set vs. v < length idt" "distinct vs"
  shows "\<exists>idt'. default_gates S sel vs idt = Ok idt' \<and> length idt' = length idt \<and>
    (\<forall>v<length idt. idt' ! v = (if v \<in> set vs then gate (default_stub S) 0 0 sel else idt ! v))"
  using assms
proof (induction vs arbitrary: idt)
  case (Cons v vs)
  let ?idt = "idt[v := gate (default_stub S) 0 0 sel]"
  obtain idt' where "default_gates S sel vs ?idt = Ok idt'" "length idt' = length ?idt"
    "\<forall>u<length ?idt. idt' ! u = (if u \<in> set vs then gate (default_stub S) 0 0 sel else ?idt ! u)"
    using Cons.IH [of ?idt] Cons.prems by auto
  then show ?case
    using Cons.prems by (auto simp: set_gate_def)
qed simp

text \<open>The registry when the descriptor tables are built, newest handler first.\<close>

lemma boot_registry:
  "tb_isrs (ISR_new None None (Some []) (isr_init S \<lparr>tb_isrs = None, tb_allocs = 0\<rparr>)) =
     Some [\<lparr>isr_stack = Some [], isr_vector = None, isr_index = None, isr_stub = None\<rparr>,
       \<lparr>isr_stack = None, isr_vector = Some 0x06, isr_index = None, isr_stub = Some (ud_stub S)\<rparr>,
       \<lparr>isr_stack = Some [], isr_vector = Some 0x08, isr_index = None, isr_stub = Some (df_stub S)\<rparr>,
       \<lparr>isr_stack = Some [], isr_vector = Some 0x0E, isr_index = None, isr_stub = Some (pf_stub S)\<rparr>,
       \<lparr>isr_stack = Some [], isr_vector = Some 0x0D, isr_index = None, isr_stub = Some (gp_stub S)\<rparr>,
       \<lparr>isr_stack = Some [], isr_vector = Some 0x03, isr_index = None, isr_stub = Some (bp_stub S)\<rparr>,
       \<lparr>isr_stack = Some [], isr_vector = Some 0x01, isr_index = None, isr_stub = Some (db_stub S)\<rparr>,
       \<lparr>isr_stack = Some [], isr_vector = Some 0xFF, isr_index = None, isr_stub = Some (spurious_stub S)\<rparr>,
       \<lparr>isr_stack = Some [], isr_vector = Some 0x40, isr_index = None, isr_stub = Some (timer_stub S)\<rparr>]"
  "tb_allocs (ISR_new None None (Some []) (isr_init S \<lparr>tb_isrs = None, tb_allocs = 0\<rparr>)) = 0"
  by (simp_all add: isr_init_def misc_init_def fault_init_def debug_init_def timer_init_def ISR_registrate_def
      ISR_registrate_without_stack_def ISR_new_def tables_init_def)

text \<open>The registry with the stacks of a list of processors, the newest first, and the numbers of the stacks.\<close>

definition handlers :: "Stubs \<Rightarrow> (u16 \<times> u64) list" where
  "handlers S = [(0x08, df_stub S), (0x0E, pf_stub S), (0x0D, gp_stub S), (0x03, bp_stub S), (0x01, db_stub S),
     (0xFF, spurious_stub S), (0x40, timer_stub S)]"

definition stacks_of :: "(nat \<Rightarrow> u64) \<Rightarrow> (CpuId \<times> nat) list \<Rightarrow> nat \<Rightarrow> CpuStack list" where
  "stacks_of heap cpus k = map (\<lambda>(cpu, n). CpuStack_new heap cpu (n + k)) cpus"

definition handler_isr :: "(nat \<Rightarrow> u64) \<Rightarrow> (CpuId \<times> nat) list \<Rightarrow> bool \<Rightarrow> nat \<times> u16 \<times> u64 \<Rightarrow> ISR" where
  "handler_isr heap cpus numbered = (\<lambda>(k, v, stub). \<lparr>isr_stack = Some (stacks_of heap cpus (Suc k)), isr_vector = Some v,
     isr_index = (if numbered then Some (of_nat k) else None), isr_stub = Some stub\<rparr>)"

definition registry :: "(nat \<Rightarrow> u64) \<Rightarrow> Stubs \<Rightarrow> (CpuId \<times> nat) list \<Rightarrow> bool \<Rightarrow> ISR list" where
  "registry heap S cpus numbered =
     \<lparr>isr_stack = Some (stacks_of heap cpus 0), isr_vector = None, isr_index = None, isr_stub = None\<rparr> #
     \<lparr>isr_stack = None, isr_vector = Some 0x06, isr_index = None, isr_stub = Some (ud_stub S)\<rparr> #
     map (handler_isr heap cpus numbered) (zip [0..<7] (handlers S))"

lemma upt_7: "[0..<7] = [0, 1, 2, 3, 4, 5, 6 :: nat]"
  by code_simp

lemmas registry_simps = registry_def handlers_def upt_7 stacks_of_def handler_isr_def

lemma registrate_registry:
  assumes "tb_isrs tb = Some (registry heap S cpus b)"
  shows "registrate heap cpu tb = tb\<lparr>tb_isrs := Some (registry heap S ((cpu, tb_allocs tb) # cpus) b), tb_allocs := tb_allocs tb + 8\<rparr>"
  using assms by (cases b) (simp_all add: registrate_def tables_init_def registry_simps Stack_registrate_def numeral_eq_Suc)

definition boot_tss :: "(nat \<Rightarrow> u64) \<Rightarrow> nat \<Rightarrow> TaskStateSegment" where
  "boot_tss heap n =
     \<lparr>interrupt_stack_table = map (\<lambda>k. top_raw (heap (n + Suc k)) (CpuStack_SIZE - 1)) [0..<7],
      privilege_stack_table = [top_raw (heap n) (CpuStack_SIZE - 1), 0, 0]\<rparr>"

lemma small_index:
  assumes "k < 7"
  shows "unat (of_nat k :: u16) = k" "u_add dbg (of_nat k :: u16) 1 = Ok (of_nat (Suc k))"
proof -
  show k: "unat (of_nat k :: u16) = k"
    using assms by (simp add: unsigned_of_nat take_bit_nat_eq_self)
  show "u_add dbg (of_nat k :: u16) 1 = Ok (of_nat (Suc k))"
    unfolding u_add_def k using assms by simp
qed

lemma generate_handler:
  assumes "k < 7" "length (interrupt_stack_table t) = 7"
  shows "generate_loop dbg cpu (handler_isr heap ((cpu, n) # cpus) b (k, v, stub) # es) (of_nat k) p t =
    rbind (generate_loop dbg cpu es (of_nat (Suc k)) p
        (t\<lparr>interrupt_stack_table := (interrupt_stack_table t)[k := top_raw (heap (n + Suc k)) (CpuStack_SIZE - 1)]\<rparr>)) (\<lambda>(es', t').
      Ok (handler_isr heap ((cpu, n) # cpus) True (k, v, stub) # es', t'))"
  using assms small_index [OF assms(1)]
  by (simp add: handler_isr_def stacks_of_def Stack_me_def expect_def CpuStack_new_def put_at_def del: of_nat_Suc)

lemma generate_handlers:
  assumes "k + length hs \<le> 7" "length (interrupt_stack_table t) = 7"
  shows "generate_loop dbg cpu (map (handler_isr heap ((cpu, n) # cpus) b) (zip [k..<k + length hs] hs)) (of_nat k) p t =
    Ok (map (handler_isr heap ((cpu, n) # cpus) True) (zip [k..<k + length hs] hs),
      t\<lparr>interrupt_stack_table := take k (interrupt_stack_table t) @ map (\<lambda>j. top_raw (heap (n + Suc j)) (CpuStack_SIZE - 1)) [k..<k + length hs] @
        drop (k + length hs) (interrupt_stack_table t)\<rparr>)"
  using assms
proof (induction hs arbitrary: k t)
  case (Cons h hs)
  obtain v stub where h: "h = (v, stub)"
    by (cases h)
  let ?top = "top_raw (heap (n + Suc k)) (CpuStack_SIZE - 1)"
  let ?t = "t\<lparr>interrupt_stack_table := (interrupt_stack_table t)[k := ?top]\<rparr>"
  have k: "k < 7"
    using Cons.prems(1) by simp
  have cons: "zip [k..<k + length (h # hs)] (h # hs) = (k, v, stub) # zip [Suc k..<Suc k + length hs] hs"
    by (simp add: upt_conv_Cons h del: upt_Suc)
  note ih = Cons.IH [of "Suc k" ?t]
  have "take (Suc k) ((interrupt_stack_table t)[k := ?top]) = take k (interrupt_stack_table t) @ [?top]"
    using Cons.prems k by (simp add: take_Suc_conv_app_nth)
  moreover have "map f [k..<k + length (h # hs)] = f k # map f [Suc k..<Suc k + length hs]" for f :: "nat \<Rightarrow> u64"
    by (simp add: upt_conv_Cons del: upt_Suc)
  ultimately show ?case
    unfolding cons list.map generate_handler [OF k Cons.prems(2)]
    using ih Cons.prems by (simp del: of_nat_Suc upt_Suc)
qed simp

lemma generate_registry:
  assumes "tb_isrs tb = Some (registry heap S ((cpu, n) # cpus) b)"
  shows "generate_inner dbg cpu tb = Ok (boot_tss heap n, tb\<lparr>tb_isrs := Some (registry heap S ((cpu, n) # cpus) True)\<rparr>)"
proof -
  let ?pst = "[top_raw (heap n) (CpuStack_SIZE - 1), 0, 0]"
  have "length (handlers S) = 7"
    by (simp add: handlers_def)
  then have "generate_loop dbg cpu (map (handler_isr heap ((cpu, n) # cpus) b) (zip [0..<7] (handlers S))) 0 1 (TSS_new\<lparr>privilege_stack_table := ?pst\<rparr>) =
    Ok (map (handler_isr heap ((cpu, n) # cpus) True) (zip [0..<7] (handlers S)), boot_tss heap n)"
    using generate_handlers [of 0 "handlers S" "TSS_new\<lparr>privilege_stack_table := ?pst\<rparr>" dbg cpu heap n cpus b 1]
    by (simp add: TSS_new_def boot_tss_def)
  then show ?thesis
    using assms
    by (simp add: generate_inner_def tables_init_def registry_def stacks_of_def Stack_me_def expect_def put_at_def u_add_def CpuStack_new_def TSS_new_def numeral_3_eq_3)
qed

lemma isr_gates_handlers:
  assumes "\<forall>(v, stub)\<in>set hs. unat v < length idt" "k + length hs \<le> 7"
  shows "isr_gates sel (map (handler_isr heap cpus True) (zip [k..<k + length hs] hs)) idt =
    Ok (fold (\<lambda>(j, v, stub) idt. idt[unat v := gate stub (of_nat j) 0 sel]) (zip [k..<k + length hs] hs) idt)"
  using assms
proof (induction hs arbitrary: k idt)
  case (Cons h hs)
  obtain v stub where h: "h = (v, stub)"
    by (cases h)
  have cons: "zip [k..<k + length (h # hs)] (h # hs) = (k, v, stub) # zip [Suc k..<Suc k + length hs] hs"
    by (simp add: upt_conv_Cons h del: upt_Suc)
  have "(ucast (of_nat k :: u16) :: u8) = of_nat k"
    using Cons.prems(2) by (simp add: word_unat_eq_iff unsigned_ucast_eq unsigned_of_nat take_bit_nat_eq_self)
  then have "isr_gates sel (handler_isr heap cpus True (k, v, stub) # es) idt = isr_gates sel es (idt[unat v := gate stub (of_nat k) 0 sel])" for es
    using Cons.prems(1) h by (simp add: handler_isr_def set_gate_def)
  then show ?case
    unfolding cons list.map using Cons.IH [of "idt[unat v := gate stub (of_nat k) 0 sel]" "Suc k"] Cons.prems by (simp del: upt_Suc)
qed simp

text \<open>The gate of each vector.\<close>

definition boot_gate :: "Stubs \<Rightarrow> Selectors \<Rightarrow> nat \<Rightarrow> IdtEntry" where
  "boot_gate S sel v =
     (if v = 0x06 then gate (ud_stub S) 0 0 sel else if v = 0x08 then gate (df_stub S) 0 0 sel
      else if v = 0x0E then gate (pf_stub S) 1 0 sel else if v = 0x0D then gate (gp_stub S) 2 0 sel
      else if v = 0x03 then gate (bp_stub S) 3 0 sel else if v = 0x01 then gate (db_stub S) 4 0 sel
      else if v = 0xFF then gate (spurious_stub S) 5 0 sel else if v = 0x40 then gate (timer_stub S) 6 0 sel
      else gate (default_stub S) 0 0 sel)"

lemma build_registry:
  assumes "tb_isrs tb = Some (registry heap S cpus True)"
  shows "build_idt S sel tb = Ok (map (boot_gate S sel) [0..<256])"
proof -
  obtain idt where d: "default_gates S sel [0..<256] (replicate 256 empty_entry) = Ok idt" "length idt = 256"
    "\<forall>v<256. idt ! v = gate (default_stub S) 0 0 sel"
    using default_gates_eq [of "[0..<256]" "replicate 256 empty_entry" S sel] by auto
  let ?hs = "zip [0..<7] (handlers S)"
  let ?idt = "idt[6 := gate (ud_stub S) 0 0 sel]"
  let ?final = "fold (\<lambda>(j, v, stub) idt. idt[unat v := gate stub (of_nat j) 0 sel]) ?hs ?idt"
  have h: "length (handlers S) = 7" "\<forall>(v, stub)\<in>set (handlers S). unat v < length ?idt"
    using d(2) by (simp_all add: handlers_def)
  have "build_idt S sel tb = isr_gates sel (map (handler_isr heap cpus True) ?hs) ?idt"
    using assms d(1,2) by (simp add: build_idt_def tables_init_def registry_def set_gate_def)
  also have "\<dots> = Ok ?final"
    using isr_gates_handlers [of "handlers S" ?idt 0 sel heap cpus] h by simp
  also have "?final = map (boot_gate S sel) [0..<256]"
  proof (rule nth_equalityI)
    have e: "?final = idt[6 := gate (ud_stub S) 0 0 sel, 8 := gate (df_stub S) 0 0 sel, 14 := gate (pf_stub S) 1 0 sel, 13 := gate (gp_stub S) 2 0 sel,
        3 := gate (bp_stub S) 3 0 sel, 1 := gate (db_stub S) 4 0 sel, 255 := gate (spurious_stub S) 5 0 sel, 64 := gate (timer_stub S) 6 0 sel]"
      by (simp add: handlers_def upt_7)
    show "length ?final = length (map (boot_gate S sel) [0..<256])"
      unfolding e using d(2) by simp
    show "?final ! i = map (boot_gate S sel) [0..<256] ! i" if "i < length ?final" for i
      using that d(2,3) unfolding e by (simp add: nth_list_update boot_gate_def)
  qed
  finally show ?thesis .
qed

lemma boot_tables_eq:
  "\<exists>tb. boot_tables dbg heap S sel0 sel me =
     Ok (\<lparr>ct_sel = sel, ct_tss = boot_tss heap 8, ct_idt = map (boot_gate S sel) [0..<256]\<rparr>, tb) \<and>
     tb_isrs tb = Some (registry heap S [(Some me, 8), (None, 0)] True)"
proof -
  let ?tb0 = "ISR_new None None (Some []) (isr_init S \<lparr>tb_isrs = None, tb_allocs = 0\<rparr>)"
  have 0: "tb_isrs ?tb0 = Some (registry heap S [] False)" "tb_allocs ?tb0 = 0"
    unfolding boot_registry by (simp_all add: registry_simps)
  let ?tb1 = "?tb0\<lparr>tb_isrs := Some (registry heap S [(None, 0)] False), tb_allocs := 8\<rparr>"
  have 1: "registrate heap None ?tb0 = ?tb1"
    using registrate_registry [OF 0(1), of None] 0(2) by simp
  let ?tb2 = "?tb1\<lparr>tb_isrs := Some (registry heap S [(None, 0)] True)\<rparr>"
  have 2: "generate_inner dbg None ?tb1 = Ok (boot_tss heap 0, ?tb2)"
    by (rule generate_registry) simp
  have 3: "build_idt S sel0 ?tb2 = Ok (map (boot_gate S sel0) [0..<256])"
    by (rule build_registry) simp
  let ?tb3 = "?tb2\<lparr>tb_isrs := Some (registry heap S [(Some me, 8), (None, 0)] True), tb_allocs := 16\<rparr>"
  have 4: "registrate heap (Some me) ?tb2 = ?tb3"
    using registrate_registry [of ?tb2 heap S "[(None, 0)]" True "Some me"] by simp
  have 5: "generate_inner dbg (Some me) ?tb3 = Ok (boot_tss heap 8, ?tb3)"
    using generate_registry [of ?tb3 heap S "Some me" 8 "[(None, 0)]" True dbg] by simp
  have 6: "build_idt S sel ?tb3 = Ok (map (boot_gate S sel) [0..<256])"
    by (rule build_registry) simp
  show ?thesis
    unfolding boot_tables_def gdt_init_def Let_def 1 2 rbind.simps prod.case 3 4 5 using 6 by simp
qed

text \<open>The stub registered for a vector, and the stack registered for a vector's handler on a processor.\<close>

definition stub_of :: "Stubs \<Rightarrow> nat \<Rightarrow> u64" where
  "stub_of S v =
     (case map_of ((0x06, ud_stub S) # handlers S) (of_nat v) of Some stub \<Rightarrow> stub | None \<Rightarrow> default_stub S)"

definition handler_stack :: "tables \<Rightarrow> CpuId \<Rightarrow> u16 \<Rightarrow> u64 option" where
  "handler_stack tb cpu v =
     (case find (\<lambda>e. isr_vector e = Some v) (the (tb_isrs tb)) of
        Some e \<Rightarrow> map_option (\<lambda>s. top_raw (cs_dump s) (cs_len s - 1)) (Stack_me cpu (the (isr_stack e)))
      | None \<Rightarrow> None)"

lemma top_inside:
  assumes "unat base + unat CpuStack_SIZE < 2 ^ 64"
  shows "unat base \<le> unat (top_raw base (CpuStack_SIZE - 1))" "unat (top_raw base (CpuStack_SIZE - 1)) < unat base + unat CpuStack_SIZE"
    "16 dvd unat (top_raw base (CpuStack_SIZE - 1))"
proof -
  have "unat (base + (CpuStack_SIZE - 1)) = unat base + 0x1FFFF"
    using assms by (subst unat_add_ok) (simp_all add: CpuStack_SIZE_def)
  then have t: "unat (top_raw base (CpuStack_SIZE - 1)) = unat base + 0x1FFFF - (unat base + 0x1FFFF) mod 16"
    using unat_and_not_mask [of "base + (CpuStack_SIZE - 1)" 4] by (simp add: top_raw_def mask_eq_exp_minus_1)
  have "(unat base + 0x1FFFF) mod 16 < 16"
    by simp
  then show "unat base \<le> unat (top_raw base (CpuStack_SIZE - 1))" "unat (top_raw base (CpuStack_SIZE - 1)) < unat base + unat CpuStack_SIZE"
    unfolding t by (simp_all add: CpuStack_SIZE_def)
  show "16 dvd unat (top_raw base (CpuStack_SIZE - 1))"
    unfolding t by (simp add: minus_mod_eq_mult_div)
qed

text \<open>C19: the interrupt descriptor table the kernel boots with. Building the tables never panics, and in the table that is
  loaded the gates of all 256 vectors lead to the handler registered for the vector, or to the default handler
  where none is, in the kernel's code segment, present, as interrupt gates the kernel alone may call.\<close>

theorem boot_gates_exact:
  "\<exists>ct tb. boot_tables dbg heap S sel0 sel me = Ok (ct, tb) \<and> map gate_target (ct_idt ct) = map (stub_of S) [0..<256] \<and>
     map selector (ct_idt ct) = replicate 256 (sel_code sel) \<and> map type_attr (ct_idt ct) = replicate 256 0x8E"
proof -
  have "gate_target (boot_gate S sel v) = stub_of S v" if "v < 256" for v
  proof -
    have "(of_nat v :: u16) = w \<longleftrightarrow> v = unat w" for w
      using that by (simp add: word_unat_eq_iff unsigned_of_nat take_bit_nat_eq_self)
    then show ?thesis
      by (simp add: stub_of_def handlers_def boot_gate_def gate_target_gate)
  qed
  moreover have "selector (boot_gate S sel v) = sel_code sel" "type_attr (boot_gate S sel v) = 0x8E" for v
    by (auto simp: boot_gate_def gate_def)
  ultimately show ?thesis
    using boot_tables_eq [of dbg heap S sel0 sel me] by (auto simp: comp_def map_replicate_const)
qed

text \<open>C27: no stack of its own for the double fault. A gate names its interrupt stack by a number from one, zero meaning
  that the stack is not switched, while the kernel numbers its stacks from zero: in the tables the kernel
  boots with, the double-fault handler runs on whatever stack overflowed, and every other handler runs on the
  stack that was registered for the handler before it, the page-fault handler on the double fault's.\<close>

theorem interrupt_stacks_shifted:
  "\<exists>ct tb. boot_tables dbg heap S sel0 sel me = Ok (ct, tb) \<and> gate_stack (ct_tss ct) (ct_idt ct ! 0x08) = None \<and>
     gate_stack (ct_tss ct) (ct_idt ct ! 0x0E) = handler_stack tb (Some me) 0x08 \<and>
     gate_stack (ct_tss ct) (ct_idt ct ! 0x0D) = handler_stack tb (Some me) 0x0E \<and>
     gate_stack (ct_tss ct) (ct_idt ct ! 0x03) = handler_stack tb (Some me) 0x0D \<and>
     gate_stack (ct_tss ct) (ct_idt ct ! 0x01) = handler_stack tb (Some me) 0x03 \<and>
     gate_stack (ct_tss ct) (ct_idt ct ! 0xFF) = handler_stack tb (Some me) 0x01 \<and>
     gate_stack (ct_tss ct) (ct_idt ct ! 0x40) = handler_stack tb (Some me) 0xFF"
proof -
  obtain tb where b: "boot_tables dbg heap S sel0 sel me =
     Ok (\<lparr>ct_sel = sel, ct_tss = boot_tss heap 8, ct_idt = map (boot_gate S sel) [0..<256]\<rparr>, tb)"
    and r: "tb_isrs tb = Some (registry heap S [(Some me, 8), (None, 0)] True)"
    using boot_tables_eq [of dbg heap S sel0 sel me] by blast
  have g: "gate_stack t (gate h k 0 sel) = (if k = 0 then None else Some (interrupt_stack_table t ! (unat k - 1)))" if "k AND 7 = k" for t h k
    using that by (simp add: gate_stack_def gate_def)
  show ?thesis
    unfolding b using r
    by (auto simp: boot_gate_def g boot_tss_def handler_stack_def registry_simps Stack_me_def CpuStack_new_def upt_7)
qed

end
