(* ===== verification/Scheduler.thy ===== *)
theory Scheduler
  imports Trap_Frame
begin

unbundle bit_operations_syntax

text \<open>
  The scheduler (\<^verbatim>\<open>sched/mod.rs\<close>, \<^verbatim>\<open>sched/sched_simd.rs\<close>): one run queue, round-robin on the
  timer interrupt, kernel threads spawned at the front of the queue, and the reaper thread.

  Every operation on the queue runs under its lock with interrupts off, so an operation is one
  step. Indices into the queue are natural numbers: they stay below the length of a vector. The
  pointers a spawn needs, the addresses of the stack buffer, of the trampoline and of the entry
  function, are arguments.
\<close>

section \<open>Types\<close>

datatype TaskState = Ready | Running | Dead

definition SIMD_SIZE :: nat where
  "SIMD_SIZE = 4096"

record Task =
  t_id :: u64
  t_state :: TaskState
  t_simd :: "u8 list"
  t_slice :: u32
  t_trap :: TrapFrame
  t_stack :: u64

definition DEFAULT_SLICE :: u32 where
  "DEFAULT_SLICE = 5"

record RunQueue =
  rq_tasks :: "Task list"
  rq_current :: "nat option"
  rq_next_id :: u64
  rq_need_resched :: bool

text \<open>The lock with the queue, and the memory the stack frames of new threads are written to.\<close>

record Sched =
  sd_rq :: "RunQueue option"
  sd_mem :: "u64 \<Rightarrow> u64"

definition empty_rq :: RunQueue where
  "empty_rq = \<lparr>rq_tasks = [], rq_current = None, rq_next_id = 0, rq_need_resched = True\<rparr>"

definition with_rq_locked :: "(RunQueue \<Rightarrow> ('a \<times> RunQueue) res) \<Rightarrow> Sched \<Rightarrow> ('a \<times> Sched) res" where
  "with_rq_locked f s =
     rbind (f (case sd_rq s of Some rq \<Rightarrow> rq | None \<Rightarrow> empty_rq)) (\<lambda>(r, rq). Ok (r, s\<lparr>sd_rq := Some rq\<rparr>))"

section \<open>Picking the next task\<close>

text \<open>The distance to the start of the scan goes down in every round.\<close>

lemma cyclic_less:
  assumes "i < n" "s < n" "Suc i mod n \<noteq> s"
  shows "(s + n - Suc i mod n) mod n < (if i = s then n else (s + n - i) mod n)"
proof (cases "Suc i = n")
  case True
  then show ?thesis
    using assms by (auto simp: mod_if)
next
  case False
  then have "Suc i < n" "Suc i mod n = Suc i"
    using assms(1) by simp_all
  then show ?thesis
    using assms by (auto simp: mod_if)
qed

function pick_loop :: "Task list \<Rightarrow> nat \<Rightarrow> nat \<Rightarrow> nat \<Rightarrow> nat option res" where
  "pick_loop tasks current start i =
     (if start < length tasks then
        rbind (idx tasks i) (\<lambda>t.
          if i \<noteq> current \<and> t_state t = Ready then Ok (Some i)
          else let i' = Suc i mod length tasks in
            if i' = start then Ok None else pick_loop tasks current start i')
      else Panic CounterWrapped)"
  by pat_completeness auto

termination
proof (relation "measure (\<lambda>(tasks, current, start, i). if i = start then length tasks else (start + length tasks - i) mod length tasks)")
  fix tasks :: "Task list" and current start i t i'
  assume a: "start < length tasks" "idx tasks i = Ok t" "i' = Suc i mod length tasks" "i' \<noteq> start"
  then have "i < length tasks"
    by (simp add: idx_Ok_iff)
  then show "((tasks, current, start, i'), tasks, current, start, i) \<in>
    measure (\<lambda>(tasks, current, start, i). if i = start then length tasks else (start + length tasks - i) mod length tasks)"
    using cyclic_less [of i "length tasks" start] a by simp
qed simp

declare pick_loop.simps [simp del]

definition first_ready :: "Task list \<Rightarrow> nat option" where
  "first_ready tasks = List.find (\<lambda>i. t_state (tasks ! i) = Ready) [0..<length tasks]"

definition pick_next :: "RunQueue \<Rightarrow> nat option res" where
  "pick_next rq =
     (let n = length (rq_tasks rq) in
      if n = 0 then Ok None
      else
        rbind (case rq_current rq of
                 Some current \<Rightarrow>
                   pick_loop (rq_tasks rq) current (Suc current mod n) (Suc current mod n)
               | None \<Rightarrow> Ok (first_ready (rq_tasks rq))) (\<lambda>r.
          case r of
            Some i \<Rightarrow> Ok (Some i)
          | None \<Rightarrow> if t_state (rq_tasks rq ! 0) = Ready then Ok (Some 0) else Ok None))"

section \<open>New threads\<close>

definition STACK_SIZE :: u64 where
  "STACK_SIZE = 0x40000"

text \<open>
  The frame of a new thread: the address of the last byte of the stack buffer rounded down to
  16, and two words below it for the argument and the entry function.
\<close>

definition thread_frame :: "bool \<Rightarrow> u64 \<Rightarrow> u64 res" where
  "thread_frame dbg base =
     (let stack_ptr = base + (STACK_SIZE - 1); top_aligned = stack_ptr AND NOT 0xF in u_sub dbg top_aligned 16)"

text \<open>The address of \<open>kthread_trampoline\<close> and the kernel code selector.\<close>

record SpawnCtx =
  sc_trampoline :: u64
  sc_kernel_cs :: u16

definition new_task :: "SpawnCtx \<Rightarrow> u64 \<Rightarrow> u64 \<Rightarrow> u64 \<Rightarrow> Task" where
  "new_task ctx base frame tid =
     \<lparr>t_id = tid, t_state = Ready, t_simd = replicate SIMD_SIZE 0, t_slice = DEFAULT_SLICE,
      t_trap = TrapFrame_default\<lparr>tf_rip := sc_trampoline ctx, tf_rsp := frame, tf_cs := ucast (sc_kernel_cs ctx),
        tf_rflags := 0x202, tf_ss := 0\<rparr>, t_stack = base\<rparr>"

definition write_frame :: "u64 \<Rightarrow> u64 \<Rightarrow> u64 \<Rightarrow> Sched \<Rightarrow> Sched" where
  "write_frame frame arg entry s = s\<lparr>sd_mem := (sd_mem s)(frame := arg, frame + 8 := entry)\<rparr>"

definition spawn_kthread :: "bool \<Rightarrow> SpawnCtx \<Rightarrow> u64 \<Rightarrow> u64 \<Rightarrow> u64 \<Rightarrow> Sched \<Rightarrow> (u64 \<times> Sched) res" where
  "spawn_kthread dbg ctx base entry arg s =
     rbind (thread_frame dbg base) (\<lambda>frame.
       with_rq_locked (\<lambda>rq.
         let tid = rq_next_id rq in
         rbind (u_add dbg tid 1) (\<lambda>next.
           Ok (tid, rq\<lparr>rq_next_id := next, rq_tasks := new_task ctx base frame tid # rq_tasks rq,
             rq_current := map_option Suc (rq_current rq)\<rparr>))) (write_frame frame arg entry s))"

definition insert_idle :: "bool \<Rightarrow> SpawnCtx \<Rightarrow> u64 \<Rightarrow> u64 \<Rightarrow> Sched \<Rightarrow> (unit \<times> Sched) res" where
  "insert_idle dbg ctx base idle_main s =
     rbind (thread_frame dbg base) (\<lambda>frame.
       with_rq_locked (\<lambda>rq.
         let tid = rq_next_id rq in
         rbind (u_add dbg tid 1) (\<lambda>next.
           Ok ((), rq\<lparr>rq_next_id := next, rq_tasks := new_task ctx base frame tid # rq_tasks rq\<rparr>)))
       (write_frame frame 0 idle_main s))"

text \<open>\<open>init\<close> puts the idle task into the queue and spawns the reaper.\<close>

definition sched_init :: "bool \<Rightarrow> SpawnCtx \<Rightarrow> u64 \<Rightarrow> u64 \<Rightarrow> u64 \<Rightarrow> u64 \<Rightarrow> u64 \<Rightarrow> Sched \<Rightarrow> Sched res" where
  "sched_init dbg ctx base0 idle_main base1 thread_main reaper s =
     rbind (insert_idle dbg ctx base0 idle_main s) (\<lambda>(_, s1).
     rbind (spawn_kthread dbg ctx base1 thread_main reaper s1) (\<lambda>(_, s2). Ok s2))"

section \<open>The timer tick\<close>

text \<open>Charging the running task; the result says whether an idle task should give way.\<close>

definition tick_account :: "RunQueue \<Rightarrow> (bool \<times> RunQueue) res" where
  "tick_account rq =
     (case rq_current rq of
        Some current \<Rightarrow>
          rbind (idx (rq_tasks rq) current) (\<lambda>t.
            let (t', need) =
                  (if t_slice t \<noteq> - 1 \<and> 0 < t_slice t then
                     (if t_slice t - 1 = 0 then (t\<lparr>t_slice := DEFAULT_SLICE\<rparr>, True)
                      else (t\<lparr>t_slice := t_slice t - 1\<rparr>, rq_need_resched rq))
                   else (t, rq_need_resched rq));
                tasks = (rq_tasks rq)[current := t'];
                cur_is_idle = (t_slice t' = - 1);
                some_ready = list_ex (\<lambda>i. i \<noteq> current \<and> t_state (tasks ! i) = Ready) [0..<length tasks]
            in Ok (cur_is_idle \<and> some_ready, rq\<lparr>rq_tasks := tasks, rq_need_resched := need\<rparr>))
      | None \<Rightarrow> Ok (True, rq\<lparr>rq_need_resched := True\<rparr>))"

text \<open>
  Switching to task \<open>next\<close>. The SIMD areas stay as they are: \<open>SimdArea::as_mut_ptr\<close> takes the area
  by value, so \<open>save\<close> and \<open>restore\<close> get the address of a temporary copy.
\<close>

definition switch_to :: "TrapFrame \<Rightarrow> nat \<Rightarrow> RunQueue \<Rightarrow> (TrapFrame option \<times> RunQueue) res" where
  "switch_to tf next rq =
     rbind (case rq_current rq of
              Some current \<Rightarrow>
                rbind (idx (rq_tasks rq) current) (\<lambda>t.
                  Ok ((rq_tasks rq)[current := t\<lparr>t_state := Ready,
                    t_slice := (if t_slice t \<noteq> - 1 then DEFAULT_SLICE else t_slice t), t_trap := tf\<rparr>]))
            | None \<Rightarrow> Ok (rq_tasks rq)) (\<lambda>tasks.
     rbind (idx tasks next) (\<lambda>t.
       Ok (Some (t_trap t),
         rq\<lparr>rq_need_resched := False, rq_tasks := tasks[next := t\<lparr>t_state := Running\<rparr>], rq_current := Some next\<rparr>)))"

definition tick_rq :: "TrapFrame \<Rightarrow> RunQueue \<Rightarrow> (TrapFrame option \<times> RunQueue) res" where
  "tick_rq tf rq =
     rbind (tick_account rq) (\<lambda>(extra, rq1).
       if \<not> (rq_need_resched rq1 \<or> extra) then Ok (None, rq1)
       else rbind (pick_next rq1) (\<lambda>picked.
         case picked of None \<Rightarrow> Ok (None, rq1) | Some next \<Rightarrow> switch_to tf next rq1))"

definition tick :: "TrapFrame \<Rightarrow> Sched \<Rightarrow> (TrapFrame \<times> Sched) res" where
  "tick tf s =
     rbind (with_rq_locked (tick_rq tf) s) (\<lambda>(ntf, s'). Ok (case ntf of Some f \<Rightarrow> f | None \<Rightarrow> tf, s'))"

section \<open>Leaving and reaping\<close>

definition kill_rq :: "RunQueue \<Rightarrow> RunQueue res" where
  "kill_rq rq =
     (case rq_current rq of
        Some current \<Rightarrow>
          rbind (idx (rq_tasks rq) current) (\<lambda>t.
            Ok (rq\<lparr>rq_tasks := (rq_tasks rq)[current := t\<lparr>t_state := Dead, t_slice := DEFAULT_SLICE * 2\<rparr>]\<rparr>))
      | None \<Rightarrow> Ok rq)"

definition kill_current :: "Sched \<Rightarrow> (unit \<times> Sched) res" where
  "kill_current s = with_rq_locked (\<lambda>rq. rbind (kill_rq rq) (\<lambda>rq'. Ok ((), rq'))) s"

text \<open>The pass of the reaper: age the dead tasks, collecting those whose time is up, then remove them.\<close>

fun reap_scan :: "Task list \<Rightarrow> u64 list \<Rightarrow> Task list \<times> u64 list" where
  "reap_scan [] deads = ([], deads)"
| "reap_scan (t # ts) deads =
     (if t_state t = Dead then
        if t_slice t = 0 then (let (ts', ds) = reap_scan ts (t_id t # deads) in (t # ts', ds))
        else (let (ts', ds) = reap_scan ts deads in (t\<lparr>t_slice := t_slice t - 1\<rparr> # ts', ds))
      else (let (ts', ds) = reap_scan ts deads in (t # ts', ds)))"

function reap_find :: "u64 \<Rightarrow> Task list \<Rightarrow> nat \<Rightarrow> nat res" where
  "reap_find tid tasks i =
     rbind (idx tasks i) (\<lambda>t. if tid = t_id t then reap_find tid tasks (Suc i) else Ok i)"
  by pat_completeness auto
termination
  by (relation "measure (\<lambda>(tid, tasks, i). length tasks - i)") (auto simp: idx_Ok_iff)

declare reap_find.simps [simp del]

fun reap_remove :: "u64 list \<Rightarrow> Task list \<Rightarrow> Task list res" where
  "reap_remove [] tasks = Ok tasks"
| "reap_remove (tid # ids) tasks =
     rbind (reap_find tid tasks 0) (\<lambda>i. reap_remove ids (remove_at i tasks))"

definition reap_rq :: "RunQueue \<Rightarrow> RunQueue res" where
  "reap_rq rq =
     (let (tasks, deads) = reap_scan (rq_tasks rq) [] in
      rbind (reap_remove deads tasks) (\<lambda>ts. Ok (rq\<lparr>rq_tasks := ts\<rparr>)))"

definition reap :: "Sched \<Rightarrow> (unit \<times> Sched) res" where
  "reap s = with_rq_locked (\<lambda>rq. rbind (reap_rq rq) (\<lambda>rq'. Ok ((), rq'))) s"

end
