(* ===== verification/Sched_Inv.thy ===== *)
theory Sched_Inv
  imports Scheduler
begin

unbundle bit_operations_syntax

text \<open>
  The invariant of the run queue and the effect of each operation on a queue that satisfies it.
\<close>

section \<open>The cyclic scan\<close>

text \<open>The reference: the first position after \<open>current\<close>, in cyclic order, of another ready task.\<close>

definition next_ready :: "Task list \<Rightarrow> nat \<Rightarrow> nat option" where
  "next_ready tasks current =
     List.find (\<lambda>i. i \<noteq> current \<and> t_state (tasks ! i) = Ready)
       (map (\<lambda>k. (Suc current + k) mod length tasks) [0..<length tasks])"

lemma pick_loop_eq:
  assumes "s < length tasks" "k < length tasks"
  shows "pick_loop tasks c s ((s + k) mod length tasks) =
    Ok (List.find (\<lambda>i. i \<noteq> c \<and> t_state (tasks ! i) = Ready) (map (\<lambda>k. (s + k) mod length tasks) [k..<length tasks]))"
  using assms(2)
proof (induction "length tasks - k" arbitrary: k)
  case (Suc d)
  let ?n = "length tasks"
  have pos: "0 < ?n" "tasks \<noteq> []"
    using assms(1) by auto
  have upt: "[k..<?n] = k # [Suc k..<?n]"
    using Suc.prems by (rule upt_conv_Cons)
  have nxt: "Suc ((s + k) mod ?n) mod ?n = (s + Suc k) mod ?n"
    by (simp add: mod_Suc_eq)
  show ?case
  proof (cases "Suc k = ?n")
    case True
    then have "(s + Suc k) mod ?n = s"
      using assms(1) by simp
    then show ?thesis
      using assms(1) pos True by (subst pick_loop.simps) (simp add: Let_def upt nxt idx_Ok)
  next
    case False
    then have k: "Suc k < ?n" "d = ?n - Suc k"
      using Suc by simp_all
    have "(s + Suc k) mod ?n \<noteq> s"
      using assms(1) k(1) by (auto simp: mod_if)
    then show ?thesis
      using assms(1) pos Suc.hyps(1) [OF k(2) k(1)] by (subst pick_loop.simps) (simp add: Let_def upt nxt idx_Ok)
  qed
qed simp

lemma pick_next_current:
  assumes "rq_current rq = Some c" "c < length (rq_tasks rq)"
  shows "pick_next rq = Ok (case next_ready (rq_tasks rq) c of Some i \<Rightarrow> Some i
    | None \<Rightarrow> if t_state (rq_tasks rq ! 0) = Ready then Some 0 else None)"
proof -
  let ?n = "length (rq_tasks rq)"
  have n: "0 < ?n" "Suc c mod ?n < ?n"
    using assms(2) by (auto intro: mod_less_divisor)
  have "pick_loop (rq_tasks rq) c (Suc c mod ?n) (Suc c mod ?n) = Ok (next_ready (rq_tasks rq) c)"
    using pick_loop_eq [OF n(2,1), of c] by (simp add: next_ready_def mod_add_left_eq mod_Suc_eq)
  then show ?thesis
    using assms n(1) by (auto simp: pick_next_def Let_def split: option.splits)
qed

section \<open>The invariant\<close>

text \<open>
  Identifiers are distinct and below the next one, every slice is between one and ten ticks, the
  SIMD areas are as spawned, the current task is in range and not ready, and all others are ready
  with a full slice.
\<close>

definition task_ok :: "u64 \<Rightarrow> Task \<Rightarrow> bool" where
  "task_ok next t \<longleftrightarrow> t_id t < next \<and> t_slice t \<in> {1..10} \<and> t_simd t = replicate SIMD_SIZE 0"

definition states_ok :: "Task list \<Rightarrow> nat option \<Rightarrow> bool" where
  "states_ok tasks current \<longleftrightarrow> (\<forall>c. current = Some c \<longrightarrow> c < length tasks \<and> t_state (tasks ! c) \<noteq> Ready) \<and>
     (\<forall>i < length tasks. current \<noteq> Some i \<longrightarrow> t_state (tasks ! i) = Ready \<and> t_slice (tasks ! i) = DEFAULT_SLICE)"

definition rq_inv :: "RunQueue \<Rightarrow> bool" where
  "rq_inv rq \<longleftrightarrow> rq_tasks rq \<noteq> [] \<and> distinct (map t_id (rq_tasks rq)) \<and>
     list_all (task_ok (rq_next_id rq)) (rq_tasks rq) \<and> states_ok (rq_tasks rq) (rq_current rq)"

lemma rq_inv_nth: "rq_inv rq \<Longrightarrow> i < length (rq_tasks rq) \<Longrightarrow> task_ok (rq_next_id rq) (rq_tasks rq ! i)"
  by (simp add: rq_inv_def list_all_length)

lemma slice_cases:
  assumes "(s :: u32) \<in> {1..10}"
  shows "s \<noteq> - 1" "0 < s" "s - 1 = 0 \<longleftrightarrow> s = 1" "s \<noteq> 1 \<Longrightarrow> s - 1 \<in> {1..10}" "unat s \<in> {1..10}"
proof -
  have u: "1 \<le> unat s" "unat s \<le> 10"
    using assms by (simp_all add: word_le_nat_alt)
  show "s \<noteq> - 1"
    using u(2) by (auto simp: unsigned_minus_1_eq_mask mask_eq_exp_minus_1)
  show "0 < s" "s - 1 = 0 \<longleftrightarrow> s = 1" "unat s \<in> {1..10}"
    using u by (auto simp: word_less_nat_alt)
  assume "s \<noteq> 1"
  then have "unat s \<noteq> 1"
    by (metis unat_1 word_unat_eq_iff)
  then show "s - 1 \<in> {1..10}"
    using u by (auto simp: word_le_nat_alt unat_sub)
qed

text \<open>Updating one task of the queue.\<close>

lemma rq_inv_update:
  assumes inv: "rq_inv rq" and i: "i < length (rq_tasks rq)" and t: "t_id t = t_id (rq_tasks rq ! i)" "task_ok (rq_next_id rq) t"
    and st: "states_ok ((rq_tasks rq)[i := t]) cur"
  shows "rq_inv (rq\<lparr>rq_tasks := (rq_tasks rq)[i := t], rq_current := cur, rq_need_resched := b\<rparr>)"
proof -
  have "map t_id ((rq_tasks rq)[i := t]) = map t_id (rq_tasks rq)"
    using i t(1) by (simp add: map_update list_update_same_conv)
  moreover have "list_all (task_ok (rq_next_id rq)) ((rq_tasks rq)[i := t])"
    using inv t(2) by (auto simp: rq_inv_def list_all_iff dest!: set_update_subset_insert [THEN subsetD])
  ultimately show ?thesis
    using inv st by (simp add: rq_inv_def)
qed

section \<open>The tick\<close>

text \<open>The running task after a tick is charged to it, and how many ticks it has left.\<close>

definition charge :: "nat \<Rightarrow> RunQueue \<Rightarrow> RunQueue" where
  "charge c rq = (let t = rq_tasks rq ! c in
     rq\<lparr>rq_tasks := (rq_tasks rq)[c := t\<lparr>t_slice := (if t_slice t = 1 then DEFAULT_SLICE else t_slice t - 1)\<rparr>],
        rq_need_resched := rq_need_resched rq \<or> t_slice t = 1\<rparr>)"

definition ticks_left :: "nat \<Rightarrow> RunQueue \<Rightarrow> nat" where
  "ticks_left c rq = (if rq_need_resched rq then 1 else unat (t_slice (rq_tasks rq ! c)))"

lemma tick_account_eq:
  assumes "rq_inv rq" "rq_current rq = Some c"
  shows "tick_account rq = Ok (False, charge c rq)"
proof -
  have c: "c < length (rq_tasks rq)"
    using assms by (simp add: rq_inv_def states_ok_def)
  have s: "t_slice (rq_tasks rq ! c) \<in> {1..10}"
    using rq_inv_nth [OF assms(1) c] by (simp add: task_ok_def)
  show ?thesis
    using slice_cases [OF s] c by (auto simp: tick_account_def assms(2) charge_def Let_def DEFAULT_SLICE_def)
qed

lemma charge_inv:
  assumes "rq_inv rq" "rq_current rq = Some c"
  shows "rq_inv (charge c rq)"
proof -
  have c: "c < length (rq_tasks rq)" "states_ok (rq_tasks rq) (Some c)"
    using assms by (simp_all add: rq_inv_def states_ok_def)
  let ?t = "rq_tasks rq ! c"
  let ?t' = "?t\<lparr>t_slice := (if t_slice ?t = 1 then DEFAULT_SLICE else t_slice ?t - 1)\<rparr>"
  have ok: "task_ok (rq_next_id rq) ?t"
    by (rule rq_inv_nth [OF assms(1) c(1)])
  then have "task_ok (rq_next_id rq) ?t'"
    using slice_cases(4) [of "t_slice ?t"] by (auto simp: task_ok_def DEFAULT_SLICE_def)
  moreover have "states_ok ((rq_tasks rq)[c := ?t']) (Some c)"
    using c by (auto simp: states_ok_def nth_list_update)
  ultimately have "rq_inv (rq\<lparr>rq_tasks := (rq_tasks rq)[c := ?t'], rq_current := Some c, rq_need_resched := rq_need_resched rq \<or> t_slice ?t = 1\<rparr>)"
    by (intro rq_inv_update [OF assms(1) c(1)]) simp_all
  moreover have "charge c rq = rq\<lparr>rq_tasks := (rq_tasks rq)[c := ?t'], rq_current := Some c, rq_need_resched := rq_need_resched rq \<or> t_slice ?t = 1\<rparr>"
    using assms(2) by (simp add: charge_def Let_def)
  ultimately show ?thesis
    by simp
qed

lemma charge_simps [simp]:
  "rq_current (charge c rq) = rq_current rq" "length (rq_tasks (charge c rq)) = length (rq_tasks rq)"
  "rq_next_id (charge c rq) = rq_next_id rq" "rq_need_resched (charge c rq) = (rq_need_resched rq \<or> t_slice (rq_tasks rq ! c) = 1)"
  "map t_id (rq_tasks (charge c rq)) = map t_id (rq_tasks rq)" "map t_trap (rq_tasks (charge c rq)) = map t_trap (rq_tasks rq)"
  by (simp_all add: charge_def Let_def map_update list_update_same_conv nth_list_update list_update_beyond
      split: if_split) (metis (no_types, lifting) list_update_beyond list_update_id map_update nth_map not_le_imp_less)+

lemma pick_next_inv:
  assumes "rq_inv rq"
  shows "rq_current rq = None \<Longrightarrow> pick_next rq = Ok (Some 0)"
    "rq_current rq = Some c \<Longrightarrow> length (rq_tasks rq) = 1 \<Longrightarrow> pick_next rq = Ok None"
    "rq_current rq = Some c \<Longrightarrow> 1 < length (rq_tasks rq) \<Longrightarrow> pick_next rq = Ok (Some (Suc c mod length (rq_tasks rq)))"
proof -
  let ?n = "length (rq_tasks rq)"
  have ne: "0 < ?n" and st: "states_ok (rq_tasks rq) (rq_current rq)"
    using assms by (simp_all add: rq_inv_def)
  have hd: "[0..<?n] = 0 # [1..<?n]"
    using ne by (simp add: upt_conv_Cons)
  show "rq_current rq = None \<Longrightarrow> pick_next rq = Ok (Some 0)"
    using st ne by (simp add: pick_next_def first_ready_def hd states_ok_def Let_def)
  assume c: "rq_current rq = Some c"
  then have "c < ?n" "t_state (rq_tasks rq ! c) \<noteq> Ready" "\<forall>i < ?n. i \<noteq> c \<longrightarrow> t_state (rq_tasks rq ! i) = Ready"
    using st by (auto simp: states_ok_def)
  note c = this pick_next_current [OF c this(1)]
  show "?n = 1 \<Longrightarrow> pick_next rq = Ok None"
    using c by (simp add: next_ready_def)
  have "Suc c mod ?n < ?n" "1 < ?n \<Longrightarrow> Suc c mod ?n \<noteq> c"
    using ne c(1) by (simp_all add: mod_Suc)
  then show "1 < ?n \<Longrightarrow> pick_next rq = Ok (Some (Suc c mod ?n))"
    using c by (simp add: next_ready_def hd)
qed

definition switched :: "TrapFrame \<Rightarrow> nat \<Rightarrow> nat \<Rightarrow> RunQueue \<Rightarrow> RunQueue" where
  "switched tf c j rq = rq\<lparr>rq_need_resched := False, rq_current := Some j,
     rq_tasks := (rq_tasks rq)[c := (rq_tasks rq ! c)\<lparr>t_state := Ready, t_slice := DEFAULT_SLICE, t_trap := tf\<rparr>,
       j := (rq_tasks rq ! j)\<lparr>t_state := Running\<rparr>]\<rparr>"

lemma switch_to_eq:
  assumes "rq_inv rq" "rq_current rq = Some c" "j < length (rq_tasks rq)" "j \<noteq> c"
  shows "switch_to tf j rq = Ok (Some (t_trap (rq_tasks rq ! j)), switched tf c j rq)"
proof -
  have c: "c < length (rq_tasks rq)"
    using assms by (simp add: rq_inv_def states_ok_def)
  have "t_slice (rq_tasks rq ! c) \<noteq> - 1"
    using rq_inv_nth [OF assms(1) c] slice_cases(1) by (auto simp: task_ok_def)
  then show ?thesis
    using c assms by (simp add: switch_to_def switched_def)
qed

lemma states_ok_switched:
  assumes "states_ok tasks (Some c)" "j < length tasks" "j \<noteq> c" "t_state u = Ready" "t_slice u = DEFAULT_SLICE" "t_state v \<noteq> Ready"
  shows "states_ok (tasks[c := u, j := v]) (Some j)"
  using assms by (auto simp: states_ok_def nth_list_update)

lemma switched_inv:
  assumes inv: "rq_inv rq" and c: "rq_current rq = Some c" and j: "j < length (rq_tasks rq)" "j \<noteq> c"
  shows "rq_inv (switched tf c j rq)"
proof -
  let ?u = "(rq_tasks rq ! c)\<lparr>t_state := Ready, t_slice := DEFAULT_SLICE, t_trap := tf\<rparr>"
  let ?v = "(rq_tasks rq ! j)\<lparr>t_state := Running\<rparr>"
  have c': "c < length (rq_tasks rq)" "states_ok (rq_tasks rq) (Some c)"
    using inv c by (simp_all add: rq_inv_def states_ok_def)
  have ok: "task_ok (rq_next_id rq) ?u" "task_ok (rq_next_id rq) ?v"
    using rq_inv_nth [OF inv c'(1)] rq_inv_nth [OF inv j(1)] by (simp_all add: task_ok_def DEFAULT_SLICE_def)
  have "list_all (task_ok (rq_next_id rq)) ((rq_tasks rq)[c := ?u, j := ?v])"
    using inv ok by (auto simp: rq_inv_def list_all_iff dest!: set_update_subset_insert [THEN subsetD])
  moreover have "map t_id ((rq_tasks rq)[c := ?u, j := ?v]) = map t_id (rq_tasks rq)"
    using c'(1) j(1) by (simp add: map_update) (metis list_update_id map_update nth_map)
  moreover have "states_ok ((rq_tasks rq)[c := ?u, j := ?v]) (Some j)"
    by (rule states_ok_switched [OF c'(2) j]) simp_all
  ultimately show ?thesis
    using inv by (simp add: rq_inv_def switched_def)
qed

text \<open>The three outcomes of a tick: the first task starts, the running one goes on, the next one takes over.\<close>

definition started :: "RunQueue \<Rightarrow> RunQueue" where
  "started rq = rq\<lparr>rq_tasks := (rq_tasks rq)[0 := (rq_tasks rq ! 0)\<lparr>t_state := Running\<rparr>], rq_current := Some 0, rq_need_resched := False\<rparr>"

lemma ticks_left_eq: "ticks_left c rq = Suc 0 \<longleftrightarrow> rq_need_resched rq \<or> t_slice (rq_tasks rq ! c) = 1"
  by (simp add: ticks_left_def word_unat_eq_iff)

lemma tick_rq_start:
  assumes "rq_inv rq" "rq_current rq = None"
  shows "tick_rq tf rq = Ok (Some (t_trap (rq_tasks rq ! 0)), started rq)" "rq_inv (started rq)"
proof -
  have ne: "0 < length (rq_tasks rq)"
    using assms(1) by (simp add: rq_inv_def)
  have inv: "rq_inv (rq\<lparr>rq_need_resched := True\<rparr>)"
    using assms(1) by (simp add: rq_inv_def)
  then have "pick_next (rq\<lparr>rq_need_resched := True\<rparr>) = Ok (Some 0)"
    using assms(2) by (intro pick_next_inv(1)) simp_all
  then show "tick_rq tf rq = Ok (Some (t_trap (rq_tasks rq ! 0)), started rq)"
    using assms(2) ne by (simp add: tick_rq_def tick_account_def switch_to_def started_def)
  have "states_ok ((rq_tasks rq)[0 := (rq_tasks rq ! 0)\<lparr>t_state := Running\<rparr>]) (Some 0)"
    using assms by (auto simp: rq_inv_def states_ok_def nth_list_update)
  from rq_inv_update [OF assms(1) ne _ _ this, of False] show "rq_inv (started rq)"
    using rq_inv_nth [OF assms(1) ne] by (simp add: started_def task_ok_def)
qed

lemma tick_rq_stay:
  assumes "rq_inv rq" "rq_current rq = Some c" "ticks_left c rq \<noteq> 1 \<or> length (rq_tasks rq) = 1"
  shows "tick_rq tf rq = Ok (None, charge c rq)"
  using assms(3) pick_next_inv(2) [OF charge_inv [OF assms(1,2)], of c] assms(2)
  by (auto simp: tick_rq_def tick_account_eq [OF assms(1,2)] ticks_left_eq)

lemma tick_rq_switch:
  assumes "rq_inv rq" "rq_current rq = Some c" "ticks_left c rq = 1" "1 < length (rq_tasks rq)"
  defines "j \<equiv> Suc c mod length (rq_tasks rq)"
  shows "tick_rq tf rq = Ok (Some (t_trap (rq_tasks rq ! j)), switched tf c j (charge c rq))"
    "rq_inv (switched tf c j (charge c rq))" "j < length (rq_tasks rq)" "j \<noteq> c"
proof -
  have c: "c < length (rq_tasks rq)"
    using assms by (simp add: rq_inv_def states_ok_def)
  then show j: "j < length (rq_tasks rq)" "j \<noteq> c"
    using assms(4) by (auto simp: j_def mod_Suc)
  note inv = charge_inv [OF assms(1,2)]
  have "pick_next (charge c rq) = Ok (Some j)"
    using pick_next_inv(3) [OF inv, of c] assms(2,4) by (simp add: j_def)
  moreover have "t_trap (rq_tasks (charge c rq) ! j) = t_trap (rq_tasks rq ! j)"
    using j by (simp add: charge_def Let_def)
  ultimately show "tick_rq tf rq = Ok (Some (t_trap (rq_tasks rq ! j)), switched tf c j (charge c rq))"
    using switch_to_eq [OF inv, of c j tf] assms(2,3) j
    by (simp add: tick_rq_def tick_account_eq [OF assms(1,2)] ticks_left_eq)
  show "rq_inv (switched tf c j (charge c rq))"
    using switched_inv [OF inv, of c j] assms(2) j by simp
qed

lemma tick_rq_inv:
  assumes "rq_inv rq"
  obtains out rq' where "tick_rq tf rq = Ok (out, rq')" "rq_inv rq'"
proof (cases "rq_current rq")
  case None
  then show thesis
    using tick_rq_start [OF assms None] that by blast
next
  case (Some c)
  have "0 < length (rq_tasks rq)"
    using assms by (simp add: rq_inv_def)
  then consider "ticks_left c rq \<noteq> 1 \<or> length (rq_tasks rq) = 1" | "ticks_left c rq = 1" "1 < length (rq_tasks rq)"
    by linarith
  then show thesis
  proof cases
    case 1
    then show thesis
      using tick_rq_stay [OF assms Some] charge_inv [OF assms Some] that by blast
  next
    case 2
    then show thesis
      using tick_rq_switch [OF assms Some 2] that by blast
  qed
qed

end
