(* ===== verification/Sched_Run.thy ===== *)
theory Sched_Run
  imports Sched_Inv
begin

unbundle bit_operations_syntax

text \<open>
  Runs of the scheduler: the operations as steps of the locked queue, the states they reach, and
  the rotation of the running task under the timer.
\<close>

section \<open>The other operations\<close>

definition killed :: "nat \<Rightarrow> RunQueue \<Rightarrow> RunQueue" where
  "killed c rq = rq\<lparr>rq_tasks := (rq_tasks rq)[c := (rq_tasks rq ! c)\<lparr>t_state := Dead, t_slice := DEFAULT_SLICE * 2\<rparr>]\<rparr>"

lemma kill_rq_eq:
  assumes "rq_inv rq" "rq_current rq = Some c"
  shows "kill_rq rq = Ok (killed c rq)" "rq_inv (killed c rq)"
proof -
  have c: "c < length (rq_tasks rq)" "states_ok (rq_tasks rq) (Some c)"
    using assms by (simp_all add: rq_inv_def states_ok_def)
  then show "kill_rq rq = Ok (killed c rq)"
    by (simp add: kill_rq_def assms(2) killed_def)
  let ?t = "(rq_tasks rq ! c)\<lparr>t_state := Dead, t_slice := DEFAULT_SLICE * 2\<rparr>"
  have "states_ok ((rq_tasks rq)[c := ?t]) (Some c)"
    using c by (auto simp: states_ok_def nth_list_update)
  moreover have "task_ok (rq_next_id rq) ?t"
    using rq_inv_nth [OF assms(1) c(1)] by (simp add: task_ok_def DEFAULT_SLICE_def)
  ultimately have "rq_inv (rq\<lparr>rq_tasks := (rq_tasks rq)[c := ?t], rq_current := Some c, rq_need_resched := rq_need_resched rq\<rparr>)"
    by (intro rq_inv_update [OF assms(1) c(1)]) simp_all
  moreover have "rq\<lparr>rq_tasks := (rq_tasks rq)[c := ?t], rq_current := Some c, rq_need_resched := rq_need_resched rq\<rparr> = killed c rq"
    using assms(2) by (simp add: killed_def)
  ultimately show "rq_inv (killed c rq)"
    by simp
qed

definition stack_ok :: "u64 \<Rightarrow> bool" where
  "stack_ok base \<longleftrightarrow> unat base + 0x40000 \<le> 2 ^ 64"

text \<open>The frame of a new thread lies in its stack and is 16-aligned.\<close>

lemma thread_frame_eq:
  assumes "stack_ok base"
  obtains frame where "thread_frame dbg base = Ok frame" "16 dvd unat frame" "unat base + 0x3FFE0 \<le> unat frame"
    "unat frame + 16 \<le> unat base + 0x3FFFF"
proof -
  let ?p = "base + (STACK_SIZE - 1)" and ?f = "(base + (STACK_SIZE - 1)) AND NOT 0xF - 16"
  have p: "unat ?p = unat base + 0x3FFFF"
    using assms by (simp add: STACK_SIZE_def stack_ok_def unat_add_ok)
  let ?t = "?p AND NOT 0xF"
  have t: "unat ?t = unat base + 0x3FFFF - (unat base + 0x3FFFF) mod 16"
    using unat_and_not_mask [of ?p 4] p by (simp add: mask_eq_exp_minus_1)
  then have ge: "unat base + 0x3FFF0 \<le> unat ?t" "unat ?t \<le> unat base + 0x3FFFF" "16 dvd unat ?t"
    by (auto simp: dvd_minus_mod)
  then have le: "16 \<le> ?t"
    by (simp add: word_le_nat_alt)
  then have f: "thread_frame dbg base = Ok (?t - 16)" "unat (?t - 16) = unat ?t - 16"
    by (simp_all add: thread_frame_def Let_def u_sub_ok unat_sub)
  have "16 dvd unat ?t - 16"
    using ge(3) by (rule dvd_diff_nat) simp
  then show thesis
    using f ge le by (intro that [OF f(1)]) (simp_all add: word_le_nat_alt)
qed

definition spawned :: "SpawnCtx \<Rightarrow> u64 \<Rightarrow> u64 \<Rightarrow> RunQueue \<Rightarrow> RunQueue" where
  "spawned ctx base frame rq = rq\<lparr>rq_next_id := rq_next_id rq + 1,
     rq_tasks := new_task ctx base frame (rq_next_id rq) # rq_tasks rq, rq_current := map_option Suc (rq_current rq)\<rparr>"

lemma spawned_inv:
  assumes inv: "rq_inv rq" and room: "unat (rq_next_id rq) + 1 < 2 ^ 64"
  shows "rq_inv (spawned ctx base frame rq)"
proof -
  let ?n = "rq_next_id rq"
  have less: "?n < ?n + 1"
    using room by (simp add: word_less_nat_alt unat_add_ok)
  have "list_all (task_ok (?n + 1)) (rq_tasks rq)" "?n \<notin> t_id ` set (rq_tasks rq)"
    using inv less by (auto simp: rq_inv_def list_all_iff task_ok_def)
  moreover have "task_ok (?n + 1) (new_task ctx base frame ?n)"
    using less by (simp add: task_ok_def new_task_def DEFAULT_SLICE_def)
  moreover have "states_ok (new_task ctx base frame ?n # rq_tasks rq) (map_option Suc (rq_current rq))"
    using inv by (auto simp: rq_inv_def states_ok_def nth_Cons new_task_def split: nat.splits)
  ultimately show ?thesis
    using inv by (simp add: rq_inv_def spawned_def new_task_def)
qed

lemma reap_scan_alive: "\<forall>t \<in> set ts. t_state t \<noteq> Dead \<Longrightarrow> reap_scan ts ds = (ts, ds)"
  by (induction ts arbitrary: ds) auto

lemma reap_rq_alive:
  assumes "rq_inv rq" "\<forall>c. rq_current rq = Some c \<longrightarrow> t_state (rq_tasks rq ! c) = Running"
  shows "reap_rq rq = Ok rq"
proof -
  have "t_state (rq_tasks rq ! i) \<noteq> Dead" if "i < length (rq_tasks rq)" for i
    using assms that by (cases "rq_current rq = Some i") (auto simp: rq_inv_def states_ok_def)
  then have "\<forall>t \<in> set (rq_tasks rq). t_state t \<noteq> Dead"
    by (auto simp: in_set_conv_nth)
  then show ?thesis
    by (simp add: reap_rq_def reap_scan_alive)
qed

section \<open>Steps\<close>

text \<open>
  The queue behind the lock. A thread runs code of its own only while its task is the current one
  and still marked running; \<open>exit_current\<close> only halts afterwards.
\<close>

definition queue :: "Sched \<Rightarrow> RunQueue" where
  "queue s = (case sd_rq s of Some rq \<Rightarrow> rq | None \<Rightarrow> empty_rq)"

definition running_alive :: "Sched \<Rightarrow> bool" where
  "running_alive s \<longleftrightarrow> (case rq_current (queue s) of
     Some c \<Rightarrow> c < length (rq_tasks (queue s)) \<and> t_state (rq_tasks (queue s) ! c) = Running | None \<Rightarrow> False)"

inductive sched_step :: "bool \<Rightarrow> SpawnCtx \<Rightarrow> Sched \<Rightarrow> Sched \<Rightarrow> bool" for dbg ctx where
  step_tick: "tick tf s = Ok (tf', s') \<Longrightarrow> sched_step dbg ctx s s'"
| step_spawn: "stack_ok base \<Longrightarrow> unat (rq_next_id (queue s)) + 1 < 2 ^ 64 \<Longrightarrow>
    spawn_kthread dbg ctx base entry arg s = Ok (tid, s') \<Longrightarrow> sched_step dbg ctx s s'"
| step_kill: "kill_current s = Ok ((), s') \<Longrightarrow> sched_step dbg ctx s s'"
| step_reap: "running_alive s \<Longrightarrow> reap s = Ok ((), s') \<Longrightarrow> sched_step dbg ctx s s'"

inductive_cases sched_stepE: "sched_step dbg ctx s s'"

inductive sched_reachable :: "bool \<Rightarrow> SpawnCtx \<Rightarrow> Sched \<Rightarrow> bool" for dbg ctx where
  reach_init: "sd_rq s0 = None \<Longrightarrow> stack_ok base0 \<Longrightarrow> stack_ok base1 \<Longrightarrow>
    sched_init dbg ctx base0 idle_main base1 thread_main reaper s0 = Ok s \<Longrightarrow> sched_reachable dbg ctx s"
| reach_step: "sched_reachable dbg ctx s \<Longrightarrow> sched_step dbg ctx s s' \<Longrightarrow> sched_reachable dbg ctx s'"

definition sched_inv :: "Sched \<Rightarrow> bool" where
  "sched_inv s \<longleftrightarrow> (\<exists>rq. sd_rq s = Some rq \<and> rq_inv rq \<and> 2 \<le> length (rq_tasks rq))"

lemma queue_upd [simp]: "queue (s\<lparr>sd_rq := Some rq\<rparr>) = rq" "queue (s\<lparr>sd_mem := m\<rparr>) = queue s"
  "queue (s\<lparr>sd_rq := Some rq, sd_mem := m\<rparr>) = rq"
  by (simp_all add: queue_def)

lemma with_rq_locked_eq: "with_rq_locked f s = rbind (f (queue s)) (\<lambda>(r, rq). Ok (r, s\<lparr>sd_rq := Some rq\<rparr>))"
  by (simp add: with_rq_locked_def queue_def)

lemma sched_invD: "sched_inv s \<Longrightarrow> rq_inv (queue s) \<and> 2 \<le> length (rq_tasks (queue s)) \<and> sd_rq s = Some (queue s)"
  by (auto simp: sched_inv_def queue_def)

lemma ids_update: "t_id u = t_id (ts ! i) \<Longrightarrow> map t_id (ts[i := u]) = map t_id ts"
  by (cases "i < length ts") (simp_all add: map_update list_update_same_conv list_update_beyond)

lemma ids_switched: "c \<noteq> j \<Longrightarrow> map t_id (rq_tasks (switched tf c j rq)) = map t_id (rq_tasks rq)"
  by (simp add: switched_def ids_update)

lemma tick_rq_ids:
  assumes "rq_inv rq" "tick_rq tf rq = Ok (out, rq')"
  shows "map t_id (rq_tasks rq') = map t_id (rq_tasks rq)"
proof (cases "rq_current rq")
  case None
  then show ?thesis
    using tick_rq_start(1) [OF assms(1) None, of tf] assms by (auto simp: started_def ids_update)
next
  case (Some c)
  then have c: "c < length (rq_tasks rq)"
    using assms(1) by (simp add: rq_inv_def states_ok_def)
  show ?thesis
  proof (cases "ticks_left c rq \<noteq> 1 \<or> length (rq_tasks rq) = 1")
    case True
    then show ?thesis
      using tick_rq_stay [OF assms(1) Some True, of tf] assms(2) by auto
  next
    case False
    then have "1 < length (rq_tasks rq)" "ticks_left c rq = 1"
      using c by auto
    note sw = tick_rq_switch [OF assms(1) Some this(2,1)]
    have "rq' = switched tf c (Suc c mod length (rq_tasks rq)) (charge c rq)"
      using assms(2) sw(1) [of tf] by simp
    then show ?thesis
      using sw(4) by (simp add: ids_switched)
  qed
qed

text \<open>Each operation from a state with the invariant returns and keeps it.\<close>

lemma tick_ok:
  assumes "sched_inv s"
  obtains out s' where "tick tf s = Ok (out, s')" "sched_inv s'" "map t_id (rq_tasks (queue s')) = map t_id (rq_tasks (queue s))"
proof -
  note q = sched_invD [OF assms]
  obtain o1 rq' where t: "tick_rq tf (queue s) = Ok (o1, rq')" "rq_inv rq'"
    using tick_rq_inv q by blast
  have ids: "map t_id (rq_tasks rq') = map t_id (rq_tasks (queue s))"
    by (rule tick_rq_ids [OF _ t(1)]) (use q in simp)
  then have "2 \<le> length (rq_tasks rq')"
    using q by (metis length_map)
  then show thesis
    using t ids by (intro that [of "case o1 of Some f \<Rightarrow> f | None \<Rightarrow> tf" "s\<lparr>sd_rq := Some rq'\<rparr>"])
      (simp_all add: tick_def with_rq_locked_eq sched_inv_def)
qed

lemma kill_ok:
  assumes "sched_inv s"
  obtains s' where "kill_current s = Ok ((), s')" "sched_inv s'" "map t_id (rq_tasks (queue s')) = map t_id (rq_tasks (queue s))"
proof (cases "rq_current (queue s)")
  case None
  then show thesis
    using sched_invD [OF assms] assms
    by (intro that [of s]) (simp_all add: kill_current_def kill_rq_def with_rq_locked_eq)
next
  case (Some c)
  note q = sched_invD [OF assms]
  show thesis
    using kill_rq_eq [OF _ Some] q
    by (intro that [of "s\<lparr>sd_rq := Some (killed c (queue s))\<rparr>"])
      (simp_all add: kill_current_def with_rq_locked_eq sched_inv_def killed_def ids_update)
qed

lemma spawn_ok:
  assumes "sched_inv s" "stack_ok base" "unat (rq_next_id (queue s)) + 1 < 2 ^ 64"
  obtains frame s' where "thread_frame dbg base = Ok frame"
    "spawn_kthread dbg ctx base entry arg s = Ok (rq_next_id (queue s), s')" "sched_inv s'"
    "queue s' = spawned ctx base frame (queue s)" "sd_mem s' = (sd_mem s)(frame := arg, frame + 8 := entry)"
proof -
  note q = sched_invD [OF assms(1)]
  obtain frame where f: "thread_frame dbg base = Ok frame"
    by (rule thread_frame_eq [OF assms(2)])
  have "u_add dbg (rq_next_id (queue s)) 1 = Ok (rq_next_id (queue s) + 1)"
    using assms(3) by (intro u_add_ok) simp
  moreover have "queue (write_frame frame arg entry s) = queue s"
    by (simp add: write_frame_def)
  moreover have "rq_inv (spawned ctx base frame (queue s))"
    using spawned_inv q assms(3) by blast
  ultimately show thesis
    using q f by (intro that [of frame "s\<lparr>sd_rq := Some (spawned ctx base frame (queue s)), sd_mem := (sd_mem s)(frame := arg, frame + 8 := entry)\<rparr>"])
      (simp_all add: spawn_kthread_def with_rq_locked_eq sched_inv_def spawned_def write_frame_def Let_def)
qed

lemma reap_ok:
  assumes "sched_inv s" "running_alive s"
  shows "reap s = Ok ((), s)"
proof -
  have "reap_rq (queue s) = Ok (queue s)"
    using sched_invD [OF assms(1)] assms(2) by (intro reap_rq_alive) (auto simp: running_alive_def)
  then show ?thesis
    using sched_invD [OF assms(1)] by (simp add: reap_def with_rq_locked_eq)
qed

lemma sched_step_inv:
  assumes "sched_step dbg ctx s s'" "sched_inv s"
  shows "sched_inv s'"
  using assms(1)
proof (cases rule: sched_step.cases)
  case (step_tick tf tf')
  then show ?thesis
    using tick_ok [OF assms(2), of tf] by auto
next
  case (step_spawn base entry arg tid)
  then show ?thesis
    using spawn_ok [OF assms(2) step_spawn(1,2), of dbg ctx entry arg] by auto
next
  case step_kill
  then show ?thesis
    using kill_ok [OF assms(2)] by auto
next
  case step_reap
  then show ?thesis
    using reap_ok [OF assms(2)] assms(2) by simp
qed

lemma sched_init_inv:
  assumes "sd_rq s0 = None" "stack_ok base0" "stack_ok base1"
  obtains s where "sched_init dbg ctx base0 idle_main base1 thread_main reaper s0 = Ok s" "sched_inv s"
proof -
  obtain f0 where f0: "thread_frame dbg base0 = Ok f0"
    by (rule thread_frame_eq [OF assms(2)])
  obtain f1 where f1: "thread_frame dbg base1 = Ok f1"
    by (rule thread_frame_eq [OF assms(3)])
  let ?rq = "\<lparr>rq_tasks = [new_task ctx base1 f1 1, new_task ctx base0 f0 0], rq_current = None, rq_next_id = 2, rq_need_resched = True\<rparr>"
  have "rq_inv ?rq"
    by (simp add: rq_inv_def task_ok_def states_ok_def new_task_def DEFAULT_SLICE_def nth_Cons split: nat.splits)
  then show thesis
    using assms(1) by (intro that [of "s0\<lparr>sd_mem := (sd_mem s0)(f0 := 0, f0 + 8 := idle_main, f1 := reaper, f1 + 8 := thread_main), sd_rq := Some ?rq\<rparr>"])
      (simp_all add: sched_init_def insert_idle_def spawn_kthread_def f0 f1 with_rq_locked_def
        write_frame_def empty_rq_def u_add_def sched_inv_def Let_def)
qed

lemma sched_reachable_inv: "sched_reachable dbg ctx s \<Longrightarrow> sched_inv s"
proof (induction rule: sched_reachable.induct)
  case (reach_init s0 base0 base1 idle_main thread_main reaper s)
  then show ?case
    using sched_init_inv [OF reach_init(1-3), of dbg ctx idle_main thread_main reaper] by auto
next
  case (reach_step s s')
  then show ?case
    using sched_step_inv by blast
qed

section \<open>Rotation\<close>

text \<open>
  A system that runs one of several positions at a time and moves on to the next one when its
  remaining inputs are used up, giving it \<open>quantum\<close> of them: every position gets its turn.
\<close>

locale rotation =
  fixes step :: "'a \<Rightarrow> 's \<Rightarrow> 's" and inv :: "'s \<Rightarrow> bool" and cur :: "'s \<Rightarrow> nat" and frame :: "'s \<Rightarrow> 'f list"
    and left :: "'s \<Rightarrow> nat" and fresh :: "'s \<Rightarrow> bool" and quantum :: nat
  assumes cur_less: "inv s \<Longrightarrow> cur s < length (frame s)"
    and left_pos: "inv s \<Longrightarrow> 0 < left s"
    and step_inv: "inv s \<Longrightarrow> inv (step a s) \<and> frame (step a s) = frame s"
    and stay: "inv s \<Longrightarrow> left s \<noteq> 1 \<Longrightarrow> cur (step a s) = cur s \<and> left (step a s) = left s - 1"
    and turn: "inv s \<Longrightarrow> left s = 1 \<Longrightarrow>
      cur (step a s) = Suc (cur s) mod length (frame s) \<and> left (step a s) = quantum \<and> fresh (step a s)"
begin

definition at_turn :: "'s \<Rightarrow> nat \<Rightarrow> 's \<Rightarrow> bool" where
  "at_turn s m s' \<longleftrightarrow> inv s' \<and> frame s' = frame s \<and> cur s' = (cur s + m) mod length (frame s) \<and> left s' = quantum \<and> fresh s'"

lemma one_turn:
  assumes "inv s" "length as = left s"
  shows "at_turn s 1 (fold step as s)"
  using assms
proof (induction as arbitrary: s)
  case Nil
  then show ?case
    using left_pos [of s] by simp
next
  case (Cons a as)
  show ?case
  proof (cases "left s = 1")
    case True
    then show ?thesis
      using Cons.prems turn [of s a] step_inv [of s a] by (simp add: at_turn_def)
  next
    case False
    then show ?thesis
      using Cons.prems Cons.IH [of "step a s"] stay [of s a] step_inv [of s a] by (simp add: at_turn_def)
  qed
qed

lemma turns:
  assumes "inv s" "length as = left s + quantum * m"
  shows "at_turn s (Suc m) (fold step as s)"
  using assms(2)
proof (induction m arbitrary: as)
  case 0
  then show ?case
    using one_turn [OF assms(1)] by simp
next
  case (Suc m)
  let ?k = "left s + quantum * m"
  have len: "length (take ?k as) = ?k" "length (drop ?k as) = quantum"
    using Suc.prems by simp_all
  let ?s = "fold step (take ?k as) s"
  have at: "at_turn s (Suc m) ?s"
    by (rule Suc.IH [OF len(1)])
  then have "at_turn ?s 1 (fold step (drop ?k as) ?s)"
    using len(2) by (intro one_turn) (simp_all add: at_turn_def)
  moreover have "fold step (drop ?k as) ?s = fold step as s"
    using fold_append [of step "take ?k as" "drop ?k as"] by (simp add: fun_eq_iff)
  ultimately show ?case
    using at by (simp add: at_turn_def mod_Suc_eq)
qed

text \<open>Position \<open>i\<close> is reached, for \<open>i\<close> the current position itself after a full round.\<close>

lemma reaches:
  assumes "inv s" "i < length (frame s)"
  obtains m where "m < length (frame s)" "\<And>as. length as = left s + quantum * m \<Longrightarrow>
    inv (fold step as s) \<and> frame (fold step as s) = frame s \<and> cur (fold step as s) = i \<and> fresh (fold step as s)"
proof -
  let ?n = "length (frame s)"
  define m where "m = (i + ?n - Suc (cur s)) mod ?n"
  have c: "cur s < ?n"
    by (rule cur_less [OF assms(1)])
  then have sum: "Suc (cur s) + (i + ?n - Suc (cur s)) = i + ?n"
    by simp
  have "(cur s + Suc m) mod ?n = (Suc (cur s) + m) mod ?n"
    by simp
  also have "\<dots> = i"
    unfolding m_def mod_add_right_eq sum using assms(2) by simp
  finally have "(cur s + Suc m) mod ?n = i" .
  moreover have "m < ?n"
    using assms(2) by (auto simp: m_def intro: mod_less_divisor)
  ultimately show thesis
    using turns [OF assms(1), of _ m] by (intro that [of m]) (auto simp: at_turn_def)
qed

end

text \<open>The tick on the bare queue, and the rotation it performs.\<close>

definition tick_step :: "TrapFrame \<Rightarrow> RunQueue \<Rightarrow> RunQueue" where
  "tick_step tf rq = (case tick_rq tf rq of Ok (_, rq') \<Rightarrow> rq' | Panic _ \<Rightarrow> rq)"

definition turning :: "RunQueue \<Rightarrow> bool" where
  "turning rq \<longleftrightarrow> rq_inv rq \<and> 1 < length (rq_tasks rq) \<and> rq_current rq \<noteq> None"

definition cur_index :: "RunQueue \<Rightarrow> nat" where
  "cur_index rq = the (rq_current rq)"

definition cur_running :: "RunQueue \<Rightarrow> bool" where
  "cur_running rq \<longleftrightarrow> t_state (rq_tasks rq ! cur_index rq) = Running"

lemma turning_cur:
  assumes "turning rq"
  shows "rq_current rq = Some (cur_index rq)" "cur_index rq < length (rq_tasks rq)"
    "t_slice (rq_tasks rq ! cur_index rq) \<in> {1..10}"
proof -
  show c: "rq_current rq = Some (cur_index rq)"
    using assms by (auto simp: turning_def cur_index_def)
  then show l: "cur_index rq < length (rq_tasks rq)"
    using assms by (auto simp: turning_def rq_inv_def states_ok_def)
  then show "t_slice (rq_tasks rq ! cur_index rq) \<in> {1..10}"
    using assms rq_inv_nth by (auto simp: turning_def task_ok_def)
qed

lemma turning_stay:
  assumes "turning rq" "ticks_left (cur_index rq) rq \<noteq> 1"
  shows "tick_step tf rq = charge (cur_index rq) rq" "ticks_left (cur_index rq) (charge (cur_index rq) rq) = ticks_left (cur_index rq) rq - 1"
proof -
  note c = turning_cur [OF assms(1)]
  show "tick_step tf rq = charge (cur_index rq) rq"
    using tick_rq_stay [OF _ c(1), of tf] assms by (simp add: turning_def tick_step_def)
  have "\<not> rq_need_resched rq" "t_slice (rq_tasks rq ! cur_index rq) \<noteq> 1"
    using assms(2) ticks_left_eq [of "cur_index rq" rq] by auto
  moreover have "1 \<le> t_slice (rq_tasks rq ! cur_index rq)"
    using c(3) by simp
  ultimately show "ticks_left (cur_index rq) (charge (cur_index rq) rq) = ticks_left (cur_index rq) rq - 1"
    using c(2) by (simp add: ticks_left_def) (simp add: charge_def Let_def unat_sub)
qed

lemma turning_turn:
  assumes "turning rq" "ticks_left (cur_index rq) rq = 1"
  defines "j \<equiv> Suc (cur_index rq) mod length (rq_tasks rq)"
  shows "tick_step tf rq = switched tf (cur_index rq) j (charge (cur_index rq) rq)"
    "turning (switched tf (cur_index rq) j (charge (cur_index rq) rq))"
    "ticks_left j (switched tf (cur_index rq) j (charge (cur_index rq) rq)) = 5" "j < length (rq_tasks rq)" "j \<noteq> cur_index rq"
proof -
  note c = turning_cur [OF assms(1)]
  have t: "rq_inv rq" "1 < length (rq_tasks rq)"
    using assms(1) by (simp_all add: turning_def)
  note sw = tick_rq_switch [OF t(1) c(1) assms(2) t(2), folded j_def]
  show "tick_step tf rq = switched tf (cur_index rq) j (charge (cur_index rq) rq)"
    by (simp add: tick_step_def sw(1))
  show "turning (switched tf (cur_index rq) j (charge (cur_index rq) rq))"
    using sw(2) [of tf] t(2) by (simp add: turning_def) (simp add: switched_def)
  show j: "j < length (rq_tasks rq)" "j \<noteq> cur_index rq"
    by (fact sw)+
  have "t_slice (rq_tasks rq ! j) = DEFAULT_SLICE"
    using t(1) c(1) j by (auto simp: rq_inv_def states_ok_def)
  then show "ticks_left j (switched tf (cur_index rq) j (charge (cur_index rq) rq)) = 5"
    using j by (simp add: ticks_left_def switched_def charge_def Let_def DEFAULT_SLICE_def)
qed

interpretation rr: rotation tick_step turning cur_index "\<lambda>rq. map t_id (rq_tasks rq)" "\<lambda>rq. ticks_left (cur_index rq) rq" cur_running 5
proof
  fix rq tf assume t: "turning rq"
  note c = turning_cur [OF t]
  show "cur_index rq < length (map t_id (rq_tasks rq))"
    using c(2) by simp
  show "0 < ticks_left (cur_index rq) rq"
    using slice_cases(5) [OF c(3)] by (simp add: ticks_left_def)
  have ch: "turning (charge (cur_index rq) rq)" "cur_index (charge (cur_index rq) rq) = cur_index rq"
    using charge_inv [OF _ c(1)] t by (simp_all add: turning_def cur_index_def)
  { assume "ticks_left (cur_index rq) rq \<noteq> 1"
    from turning_stay [OF t this] ch
    show "cur_index (tick_step tf rq) = cur_index rq \<and> ticks_left (cur_index (tick_step tf rq)) (tick_step tf rq) = ticks_left (cur_index rq) rq - 1"
      by simp }
  { assume "ticks_left (cur_index rq) rq = 1"
    from turning_turn [OF t this]
    show "cur_index (tick_step tf rq) = Suc (cur_index rq) mod length (map t_id (rq_tasks rq)) \<and>
        ticks_left (cur_index (tick_step tf rq)) (tick_step tf rq) = 5 \<and> cur_running (tick_step tf rq)"
      by (simp add: cur_index_def cur_running_def) (simp add: switched_def) }
  show "turning (tick_step tf rq) \<and> map t_id (rq_tasks (tick_step tf rq)) = map t_id (rq_tasks rq)"
    using turning_stay(1) [OF t] turning_turn(1,2,5) [OF t] ch by (cases "ticks_left (cur_index rq) rq = 1") (auto simp: ids_switched)
qed

section \<open>Sequences of ticks\<close>

fun run_ticks :: "TrapFrame list \<Rightarrow> Sched \<Rightarrow> Sched res" where
  "run_ticks [] s = Ok s"
| "run_ticks (tf # tfs) s = rbind (tick tf s) (\<lambda>(_, s'). run_ticks tfs s')"

lemma tick_turning:
  assumes "turning (queue s)"
  obtains out where "tick tf s = Ok (out, s\<lparr>sd_rq := Some (tick_step tf (queue s))\<rparr>)"
proof -
  obtain o1 rq' where "tick_rq tf (queue s) = Ok (o1, rq')"
    by (rule tick_rq_inv [of "queue s" tf]) (use assms in \<open>simp add: turning_def\<close>)
  then show thesis
    by (intro that) (simp add: tick_def with_rq_locked_eq tick_step_def)
qed

lemma run_ticks_turning:
  assumes "turning (queue s)" "sd_rq s = Some (queue s)"
  shows "run_ticks tfs s = Ok (s\<lparr>sd_rq := Some (fold tick_step tfs (queue s))\<rparr>)"
  using assms
proof (induction tfs arbitrary: s)
  case (Cons tf tfs)
  let ?s = "s\<lparr>sd_rq := Some (tick_step tf (queue s))\<rparr>"
  have "turning (queue ?s)" "sd_rq ?s = Some (queue ?s)"
    using rr.step_inv [OF Cons.prems(1), of tf] by simp_all
  from Cons.IH [OF this] show ?case
    by (rule_tac tick_turning [OF Cons.prems(1), of tf]) simp
qed simp

lemma sched_inv_turning: "sched_inv s \<Longrightarrow> rq_current (queue s) = Some c \<Longrightarrow> turning (queue s) \<and> cur_index (queue s) = c"
  using sched_invD [of s] by (auto simp: turning_def cur_index_def)

lemma ticks_left_le:
  assumes "turning rq"
  shows "ticks_left (cur_index rq) rq \<le> 10"
  using slice_cases(5) [OF turning_cur(3) [OF assms]] by (simp add: ticks_left_def)

lemma ticks_reach:
  assumes inv: "sched_inv s" and c: "rq_current (queue s) = Some c" and i: "i < length (rq_tasks (queue s))"
  obtains k where "k \<le> 5 * length (rq_tasks (queue s)) + 5" "\<And>tfs. length tfs = k \<Longrightarrow>
    \<exists>s'. run_ticks tfs s = Ok s' \<and> rq_current (queue s') = Some i \<and> t_state (rq_tasks (queue s') ! i) = Running \<and>
      map t_id (rq_tasks (queue s')) = map t_id (rq_tasks (queue s))"
proof -
  have t: "turning (queue s)" "cur_index (queue s) = c" and q: "sd_rq s = Some (queue s)"
    using sched_inv_turning [OF inv c] sched_invD [OF inv] by simp_all
  obtain m where m: "m < length (rq_tasks (queue s))" "\<And>tfs. length tfs = ticks_left (cur_index (queue s)) (queue s) + 5 * m \<Longrightarrow>
    turning (fold tick_step tfs (queue s)) \<and> map t_id (rq_tasks (fold tick_step tfs (queue s))) = map t_id (rq_tasks (queue s)) \<and>
    cur_index (fold tick_step tfs (queue s)) = i \<and> cur_running (fold tick_step tfs (queue s))"
    using rr.reaches [OF t(1), of i] i by auto
  show thesis
  proof (rule that [of "ticks_left (cur_index (queue s)) (queue s) + 5 * m"])
    show "ticks_left (cur_index (queue s)) (queue s) + 5 * m \<le> 5 * length (rq_tasks (queue s)) + 5"
      using ticks_left_le [OF t(1)] m(1) by linarith
  next
    fix tfs :: "TrapFrame list" assume "length tfs = ticks_left (cur_index (queue s)) (queue s) + 5 * m"
    from m(2) [OF this] show "\<exists>s'. run_ticks tfs s = Ok s' \<and> rq_current (queue s') = Some i \<and>
        t_state (rq_tasks (queue s') ! i) = Running \<and> map t_id (rq_tasks (queue s')) = map t_id (rq_tasks (queue s))"
      using run_ticks_turning [OF t(1) q, of tfs] turning_cur(1) [of "fold tick_step tfs (queue s)"]
      by (auto simp: cur_running_def)
  qed
qed

section \<open>Saved contexts\<close>

definition current_id :: "Sched \<Rightarrow> u64 option" where
  "current_id s = map_option (\<lambda>c. t_id (rq_tasks (queue s) ! c)) (rq_current (queue s))"

definition saved :: "RunQueue \<Rightarrow> u64 \<Rightarrow> TrapFrame option" where
  "saved rq x = map_option t_trap (List.find (\<lambda>t. t_id t = x) (rq_tasks rq))"

lemma find_id:
  assumes "distinct (map t_id ts)" "i < length ts"
  shows "List.find (\<lambda>t. t_id t = t_id (ts ! i)) ts = Some (ts ! i)"
  using assms
proof (induction ts arbitrary: i)
  case (Cons t ts)
  show ?case
  proof (cases i)
    case (Suc j)
    then have "t_id (ts ! j) \<in> t_id ` set ts"
      using Cons.prems by simp
    then have "t_id t \<noteq> t_id (ts ! j)"
      using Cons.prems(1) by force
    then show ?thesis
      using Cons Suc by simp
  qed simp
qed simp

lemma saved_nth: "rq_inv rq \<Longrightarrow> i < length (rq_tasks rq) \<Longrightarrow> saved rq (t_id (rq_tasks rq ! i)) = Some (t_trap (rq_tasks rq ! i))"
  by (simp add: saved_def find_id rq_inv_def)

lemma find_update:
  assumes "t_id u = t_id (ts ! i)" "t_id (ts ! i) \<noteq> x \<or> t_trap u = t_trap (ts ! i)"
  shows "map_option t_trap (List.find (\<lambda>t. t_id t = x) (ts[i := u])) = map_option t_trap (List.find (\<lambda>t. t_id t = x) ts)"
  using assms
proof (induction ts arbitrary: i)
  case (Cons t ts)
  then show ?case
    by (cases i) auto
qed simp

end
