(* ===== verification/Sched_Props.thy ===== *)
theory Sched_Props
  imports Sched_Run
begin

unbundle bit_operations_syntax

text \<open>
  The properties of the scheduler over all states it reaches from \<open>init\<close>: no operation panics, the
  timer rotates through all tasks, a context resumes as it was interrupted, and what becomes of
  a task that exits.
\<close>

section \<open>Saved contexts under each step\<close>

lemma saved_charge: "saved (charge c rq) x = saved rq x"
  by (simp add: saved_def charge_def Let_def find_update)

lemma saved_switched:
  assumes "c \<noteq> j"
  shows "x \<noteq> t_id (rq_tasks rq ! c) \<Longrightarrow> saved (switched tf c j rq) x = saved rq x"
    "rq_inv rq \<Longrightarrow> c < length (rq_tasks rq) \<Longrightarrow> saved (switched tf c j rq) (t_id (rq_tasks rq ! c)) = Some tf"
proof -
  let ?u = "(rq_tasks rq ! c)\<lparr>t_state := Ready, t_slice := DEFAULT_SLICE, t_trap := tf\<rparr>"
  have step: "saved (switched tf c j rq) x = map_option t_trap (List.find (\<lambda>t. t_id t = x) ((rq_tasks rq)[c := ?u]))" for x
    using assms unfolding saved_def switched_def by (simp, subst find_update) simp_all
  show "x \<noteq> t_id (rq_tasks rq ! c) \<Longrightarrow> saved (switched tf c j rq) x = saved rq x"
    unfolding step by (simp add: saved_def find_update)
  assume inv: "rq_inv rq" and c: "c < length (rq_tasks rq)"
  have "distinct (map t_id ((rq_tasks rq)[c := ?u]))"
    using inv by (simp add: rq_inv_def ids_update)
  from find_id [OF this, of c] c show "saved (switched tf c j rq) (t_id (rq_tasks rq ! c)) = Some tf"
    unfolding step by simp
qed

lemma tick_cases:
  assumes "sched_inv s" "tick tf s = Ok (out, s')"
  obtains (start) "rq_current (queue s) = None" "queue s' = started (queue s)" "out = t_trap (rq_tasks (queue s) ! 0)"
  | (stay) c where "rq_current (queue s) = Some c" "queue s' = charge c (queue s)" "out = tf"
  | (switch) c j where "rq_current (queue s) = Some c" "c < length (rq_tasks (queue s))" "j < length (rq_tasks (queue s))" "j \<noteq> c"
      "queue s' = switched tf c j (charge c (queue s))" "out = t_trap (rq_tasks (queue s) ! j)" "rq_inv (charge c (queue s))"
proof -
  note q = sched_invD [OF assms(1)]
  obtain o1 where o1: "tick_rq tf (queue s) = Ok (o1, queue s')" "out = (case o1 of Some f \<Rightarrow> f | None \<Rightarrow> tf)"
    using assms(2) by (auto simp: tick_def with_rq_locked_eq)
  show thesis
  proof (cases "rq_current (queue s)")
    case None
    then show thesis
      using tick_rq_start(1) [of "queue s" tf] q o1 by (intro start) auto
  next
    case (Some c)
    have c: "c < length (rq_tasks (queue s))"
      using q Some by (auto simp: rq_inv_def states_ok_def)
    show thesis
    proof (cases "ticks_left c (queue s) = 1")
      case True
      have "rq_inv (queue s)" "1 < length (rq_tasks (queue s))"
        using q by auto
      note sw = tick_rq_switch [OF this(1) Some True this(2)]
      show thesis
        using sw o1 charge_inv [OF \<open>rq_inv (queue s)\<close> Some] by (intro switch [OF Some c sw(3,4)]) auto
    next
      case False
      then show thesis
        using tick_rq_stay [of "queue s" c tf] q Some o1 by (intro stay [OF Some]) auto
    qed
  qed
qed

lemma current_id_Some: "current_id s = Some x \<longleftrightarrow> (\<exists>c. rq_current (queue s) = Some c \<and> x = t_id (rq_tasks (queue s) ! c))"
  by (auto simp: current_id_def)

lemma charge_id: "t_id (rq_tasks (charge c rq) ! i) = t_id (rq_tasks rq ! i)"
  by (cases "i = c"; cases "c < length (rq_tasks rq)") (simp_all add: charge_def Let_def list_update_beyond)

lemma charge_trap: "t_trap (rq_tasks (charge c rq) ! i) = t_trap (rq_tasks rq ! i)"
  by (cases "i = c"; cases "c < length (rq_tasks rq)") (simp_all add: charge_def Let_def list_update_beyond)

lemma switched_simps [simp]: "rq_current (switched tf c j rq) = Some j" "c \<noteq> j \<Longrightarrow> t_id (rq_tasks (switched tf c j rq) ! j) = t_id (rq_tasks rq ! j)"
  by (simp add: switched_def)
    (cases "j < length (rq_tasks rq)", simp_all add: switched_def list_update_beyond)

lemma tick_saved:
  assumes "sched_inv s" "tick tf s = Ok (out, s')" "current_id s \<noteq> Some x"
  shows "saved (queue s') x = saved (queue s) x"
  using assms(1,2)
proof (cases rule: tick_cases)
  case start
  then show ?thesis
    by (simp add: saved_def started_def find_update)
next
  case (stay c)
  then show ?thesis
    by (simp add: saved_charge)
next
  case (switch c j)
  then show ?thesis
    using assms(3) saved_switched(1) [of c j x "charge c (queue s)" tf] by (auto simp: saved_charge charge_id current_id_def)
qed

lemma tick_out:
  assumes "sched_inv s" "tick tf s = Ok (out, s')"
  shows "current_id s = Some x \<Longrightarrow> current_id s' \<noteq> Some x \<Longrightarrow> saved (queue s') x = Some tf"
    "current_id s \<noteq> Some x \<Longrightarrow> current_id s' = Some x \<Longrightarrow> saved (queue s) x = Some out"
proof -
  note q = sched_invD [OF assms(1)]
  show "saved (queue s') x = Some tf" if x: "current_id s = Some x" "current_id s' \<noteq> Some x"
    using assms
  proof (cases rule: tick_cases)
    case (switch c j)
    then show ?thesis
      using x(1) saved_switched(2) [of c j "charge c (queue s)" tf] by (auto simp: charge_id current_id_def)
  qed (use x in \<open>auto simp: current_id_def charge_id\<close>)
  show "saved (queue s) x = Some out" if x: "current_id s \<noteq> Some x" "current_id s' = Some x"
    using assms
  proof (cases rule: tick_cases)
    case start
    then show ?thesis
      using x q saved_nth [of "queue s" 0] by (auto simp: current_id_def started_def rq_inv_def)
  next
    case (stay c)
    then show ?thesis
      using x by (simp add: current_id_def charge_id)
  next
    case (switch c j)
    then show ?thesis
      using x q saved_nth [of "queue s" j] by (auto simp: current_id_def charge_id)
  qed
qed

text \<open>Runs during which the task \<open>x\<close> is not the current one.\<close>

inductive away :: "bool \<Rightarrow> SpawnCtx \<Rightarrow> u64 \<Rightarrow> Sched \<Rightarrow> Sched \<Rightarrow> bool" for dbg ctx x where
  away_refl: "current_id s \<noteq> Some x \<Longrightarrow> away dbg ctx x s s"
| away_step: "away dbg ctx x s s' \<Longrightarrow> sched_step dbg ctx s' s'' \<Longrightarrow> current_id s'' \<noteq> Some x \<Longrightarrow> away dbg ctx x s s''"

lemma step_saved:
  assumes "sched_step dbg ctx s s'" "sched_inv s" "current_id s \<noteq> Some x" "saved (queue s) x = Some f"
  shows "saved (queue s') x = Some f"
  using assms(1)
proof (cases rule: sched_step.cases)
  case (step_tick tf tf')
  then show ?thesis
    using tick_saved [OF assms(2) _ assms(3)] assms(4) by simp
next
  case (step_spawn base entry arg tid)
  obtain frame where q: "queue s' = spawned ctx base frame (queue s)"
    using spawn_ok [OF assms(2) step_spawn(1,2), of dbg ctx entry arg] step_spawn(3) by auto
  have "x \<in> t_id ` set (rq_tasks (queue s))"
    using assms(4) by (auto simp: saved_def find_Some_iff)
  then have "x < rq_next_id (queue s)"
    using sched_invD [OF assms(2)] by (auto simp: rq_inv_def list_all_iff task_ok_def)
  then show ?thesis
    using assms(4) by (auto simp: q saved_def spawned_def new_task_def)
next
  case step_kill
  show ?thesis
  proof (cases "rq_current (queue s)")
    case None
    then show ?thesis
      using step_kill assms(4) by (simp add: kill_current_def kill_rq_def with_rq_locked_eq) auto
  next
    case (Some c)
    then have "queue s' = killed c (queue s)"
      using step_kill kill_rq_eq(1) [OF _ Some] sched_invD [OF assms(2)] by (auto simp: kill_current_def with_rq_locked_eq)
    then show ?thesis
      using assms(4) by (simp add: saved_def killed_def find_update)
  qed
next
  case step_reap
  then show ?thesis
    using reap_ok [OF assms(2)] assms(4) by simp
qed

lemma away_saved:
  assumes "away dbg ctx x s s'" "sched_inv s" "saved (queue s) x = Some f"
  shows "saved (queue s') x = Some f \<and> sched_inv s' \<and> current_id s' \<noteq> Some x"
  using assms
  by (induction rule: away.induct) (auto dest: step_saved sched_step_inv)

section \<open>Properties\<close>

text \<open>
  C9: In every state the scheduler reaches from \<open>init\<close> by timer ticks, spawns, exits and reaper
  passes, identifiers are distinct, exactly the current task is not ready, and no operation
  panics: a tick, an exit, a spawn with a stack buffer and an identifier left, and a reaper pass
  run by a living thread all return.
\<close>

theorem sched_never_panics:
  assumes "sched_reachable dbg ctx s"
  shows "distinct (map t_id (rq_tasks (queue s))) \<and> states_ok (rq_tasks (queue s)) (rq_current (queue s)) \<and>
    (\<exists>r. tick tf s = Ok r) \<and> (\<exists>r. kill_current s = Ok r) \<and>
    (stack_ok base \<and> unat (rq_next_id (queue s)) + 1 < 2 ^ 64 \<longrightarrow> (\<exists>r. spawn_kthread dbg ctx base entry arg s = Ok r)) \<and>
    (running_alive s \<longrightarrow> (\<exists>r. reap s = Ok r))"
proof -
  note inv = sched_reachable_inv [OF assms]
  have "distinct (map t_id (rq_tasks (queue s)))" "states_ok (rq_tasks (queue s)) (rq_current (queue s))"
    using sched_invD [OF inv] by (simp_all add: rq_inv_def)
  moreover have "\<exists>r. tick tf s = Ok r"
    by (rule tick_ok [OF inv, of tf]) blast
  moreover have "\<exists>r. kill_current s = Ok r"
    by (rule kill_ok [OF inv]) blast
  moreover have "\<exists>r. spawn_kthread dbg ctx base entry arg s = Ok r" if "stack_ok base" "unat (rq_next_id (queue s)) + 1 < 2 ^ 64"
    by (rule spawn_ok [OF inv that, of dbg ctx entry arg]) blast
  ultimately show ?thesis
    using reap_ok [OF inv] by blast
qed

text \<open>
  C10: The timer serves every task. Once some task runs, each task of the queue, whatever its
  position, is the running one after some number of ticks of at most five per task and five
  more, independently of the interrupted contexts.
\<close>

theorem every_task_runs:
  assumes "sched_reachable dbg ctx s" "rq_current (queue s) = Some c" "i < length (rq_tasks (queue s))"
  shows "\<exists>k \<le> 5 * length (rq_tasks (queue s)) + 5. \<forall>tfs. length tfs = k \<longrightarrow>
    (\<exists>s'. run_ticks tfs s = Ok s' \<and> rq_current (queue s') = Some i \<and> t_state (rq_tasks (queue s') ! i) = Running)"
  using ticks_reach [OF sched_reachable_inv [OF assms(1)] assms(2,3)] by metis

text \<open>
  C8: A context resumes as it was interrupted: when a tick takes the processor from a task, then
  whatever the scheduler does while that task is not running, the tick that gives it the
  processor again returns exactly the registers it was interrupted with.
\<close>

theorem resume_exact:
  assumes "sched_reachable dbg ctx s" "current_id s = Some x" "tick tf s = Ok (out1, s1)"
    and "away dbg ctx x s1 s2" "tick tf2 s2 = Ok (out2, s3)" "current_id s3 = Some x"
  shows "out2 = tf"
proof -
  note inv = sched_reachable_inv [OF assms(1)]
  have inv1: "sched_inv s1"
    using tick_ok [OF inv, of tf] assms(3) by auto
  have "current_id s1 \<noteq> Some x"
    using assms(4) by (induction rule: away.induct) auto
  then have "saved (queue s1) x = Some tf"
    by (rule tick_out(1) [OF inv assms(3,2)])
  then have "saved (queue s2) x = Some tf" "sched_inv s2" "current_id s2 \<noteq> Some x"
    using away_saved [OF assms(4) inv1] by blast+
  then show ?thesis
    using tick_out(2) [OF _ assms(5) _ assms(6)] by simp
qed

text \<open>
  C25: A task that exits is not gone. \<open>exit_current\<close> marks it dead and halts, but the tick that
  switches away marks it ready again, so within a bounded number of ticks the exited task is
  the running one once more.
\<close>

theorem exited_task_runs_again:
  assumes "sched_reachable dbg ctx s" "rq_current (queue s) = Some c" "kill_current s = Ok ((), s1)"
  shows "t_state (rq_tasks (queue s1) ! c) = Dead \<and>
    (\<exists>k. \<forall>tfs. length tfs = k \<longrightarrow> (\<exists>s2. run_ticks tfs s1 = Ok s2 \<and> rq_current (queue s2) = Some c \<and>
       t_state (rq_tasks (queue s2) ! c) = Running \<and> t_id (rq_tasks (queue s2) ! c) = t_id (rq_tasks (queue s) ! c)))"
proof -
  note inv = sched_reachable_inv [OF assms(1)]
  note q = sched_invD [OF inv]
  have q1: "queue s1 = killed c (queue s)"
    using assms(3) kill_rq_eq(1) [OF _ assms(2)] q by (auto simp: kill_current_def with_rq_locked_eq)
  have c: "c < length (rq_tasks (queue s))"
    using q assms(2) by (auto simp: rq_inv_def states_ok_def)
  have c1: "rq_current (queue s1) = Some c" "c < length (rq_tasks (queue s1))" "t_state (rq_tasks (queue s1) ! c) = Dead"
    "map t_id (rq_tasks (queue s1)) = map t_id (rq_tasks (queue s))"
    using q1 assms(2) c by (simp_all add: killed_def ids_update)
  have inv1: "sched_inv s1"
    using kill_ok [OF inv] assms(3) by auto
  obtain k where k: "\<And>tfs. length tfs = k \<Longrightarrow>
    \<exists>s'. run_ticks tfs s1 = Ok s' \<and> rq_current (queue s') = Some c \<and> t_state (rq_tasks (queue s') ! c) = Running \<and>
      map t_id (rq_tasks (queue s')) = map t_id (rq_tasks (queue s1))"
    using ticks_reach [OF inv1 c1(1,2)] by metis
  have "t_id (rq_tasks rq ! c) = t_id (rq_tasks (queue s) ! c)" if "map t_id (rq_tasks rq) = map t_id (rq_tasks (queue s1))" for rq
    using that c1(4) c by (metis length_map nth_map)
  then show ?thesis
    using k c1(3) by blast
qed

text \<open>
  C30: The reaper frees nothing. In every reachable state, a pass of the reaper run by a living
  thread finds no dead task and leaves the scheduler as it is.
\<close>

theorem reaper_frees_nothing:
  assumes "sched_reachable dbg ctx s" "running_alive s"
  shows "reap s = Ok ((), s)"
  by (rule reap_ok [OF sched_reachable_inv [OF assms(1)] assms(2)])

text \<open>
  If a dead task whose time is up did reach the reaper behind a living one, the reaper would
  remove the living task at the front of the queue and keep the dead one: the loop that looks
  for the identifier stops at the first task with another one.
\<close>

lemma reaper_removes_wrong_task:
  assumes "rq_tasks rq = t # ts" "t_state t \<noteq> Dead" "d \<in> set ts" "t_id d \<noteq> t_id t"
    and "filter (\<lambda>u. t_state u = Dead \<and> t_slice u = 0) ts = [d]"
  shows "\<exists>rq'. reap_rq rq = Ok rq' \<and> map t_id (rq_tasks rq') = map t_id ts"
proof -
  have "map t_id (fst (reap_scan us ds)) = map t_id us \<and>
      snd (reap_scan us ds) = rev (map t_id (filter (\<lambda>u. t_state u = Dead \<and> t_slice u = 0) us)) @ ds" for us ds
    by (induction us arbitrary: ds) (auto simp: Let_def split_beta)
  from this [of ts "[]"] obtain us where us: "reap_scan ts [] = (us, [t_id d])" "map t_id us = map t_id ts"
    using assms(5) by (cases "reap_scan ts []") auto
  have "reap_find (t_id d) (t # us) 0 = Ok 0"
    using assms(4) by (subst reap_find.simps) simp
  then show ?thesis
    using us assms(1,2) by (simp add: reap_rq_def remove_at_def)
qed

text \<open>
  C24: \<open>pick_next\<close> finds the next ready task: with a task running, it terminates and returns the
  first position after it in cyclic order whose task is ready, falling back to the front.
\<close>

theorem pick_next_cyclic:
  assumes "rq_current rq = Some c" "c < length (rq_tasks rq)"
  shows "pick_next rq = Ok (case List.find (\<lambda>i. i \<noteq> c \<and> t_state (rq_tasks rq ! i) = Ready)
      (map (\<lambda>k. (Suc c + k) mod length (rq_tasks rq)) [0..<length (rq_tasks rq)]) of
    Some i \<Rightarrow> Some i | None \<Rightarrow> if t_state (rq_tasks rq ! 0) = Ready then Some 0 else None)"
  using pick_next_current [OF assms] by (simp add: next_ready_def)

text \<open>
  C29: A new thread starts on its own stack: the frame of a spawned thread is 16-aligned, lies with
  its two words inside the 256 KiB buffer, holds the argument and the entry function, and the
  thread's first context points to it.
\<close>

theorem spawned_thread_frame:
  assumes "sched_reachable dbg ctx s" "stack_ok base" "unat (rq_next_id (queue s)) + 1 < 2 ^ 64"
  shows "\<exists>s' t frame. spawn_kthread dbg ctx base entry arg s = Ok (rq_next_id (queue s), s') \<and>
    rq_tasks (queue s') = t # rq_tasks (queue s) \<and> t_state t = Ready \<and> tf_rsp (t_trap t) = frame \<and>
    tf_rip (t_trap t) = sc_trampoline ctx \<and> 16 dvd unat frame \<and> unat base \<le> unat frame \<and>
    unat frame + 16 \<le> unat base + 0x40000 \<and> sd_mem s' frame = arg \<and> sd_mem s' (frame + 8) = entry"
proof -
  obtain frame s' where s': "thread_frame dbg base = Ok frame" "spawn_kthread dbg ctx base entry arg s = Ok (rq_next_id (queue s), s')"
    "queue s' = spawned ctx base frame (queue s)" "sd_mem s' = (sd_mem s)(frame := arg, frame + 8 := entry)"
    by (rule spawn_ok [OF sched_reachable_inv [OF assms(1)] assms(2,3), of dbg ctx entry arg])
  have "16 dvd unat frame" "unat base \<le> unat frame" "unat frame + 16 \<le> unat base + 0x40000"
    by (rule thread_frame_eq [OF assms(2), of dbg]; use s'(1) in simp)+
  moreover have "frame + 8 \<noteq> frame"
    by simp
  ultimately show ?thesis
    using s' by (intro exI [of _ s'] exI [of _ "new_task ctx base frame (rq_next_id (queue s))"] exI [of _ frame])
      (simp add: spawned_def new_task_def)
qed

text \<open>The abstract scheduler: the identifiers with the running one first, and the ticks it has left.\<close>

definition rr_abs :: "RunQueue \<Rightarrow> u64 list \<times> nat" where
  "rr_abs rq = (rotate (cur_index rq) (map t_id (rq_tasks rq)), ticks_left (cur_index rq) rq)"

fun rr_tick :: "u64 list \<times> nat \<Rightarrow> u64 list \<times> nat" where
  "rr_tick (q, left) = (if left = 1 then (rotate1 q, 5) else (q, left - 1))"

text \<open>
  C11: The tick implements a round-robin queue: abstracting the run queue to the circular list of
  identifiers with the running one first and the ticks it has left, a tick moves the running
  task to the back with a fresh slice of five when its last tick is used up, and counts down
  otherwise.
\<close>

theorem tick_refines_round_robin:
  assumes "sched_reachable dbg ctx s" "rq_current (queue s) = Some c"
  shows "\<exists>out s'. tick tf s = Ok (out, s') \<and> rr_abs (queue s') = rr_tick (rr_abs (queue s))"
proof -
  let ?rq = "queue s"
  have t: "turning ?rq"
    using sched_inv_turning [OF sched_reachable_inv [OF assms(1)] assms(2)] by simp
  obtain out where out: "tick tf s = Ok (out, s\<lparr>sd_rq := Some (tick_step tf ?rq)\<rparr>)"
    by (rule tick_turning [OF t])
  have ids: "map t_id (rq_tasks (tick_step tf ?rq)) = map t_id (rq_tasks ?rq)"
    using rr.step_inv [OF t] by simp
  have "rr_abs (tick_step tf ?rq) = rr_tick (rr_abs ?rq)"
  proof (cases "ticks_left (cur_index ?rq) ?rq = 1")
    case True
    have "rotate (Suc (cur_index ?rq) mod length (rq_tasks ?rq)) (map t_id (rq_tasks ?rq)) = rotate1 (rotate (cur_index ?rq) (map t_id (rq_tasks ?rq)))"
      using rotate_conv_mod [of "Suc (cur_index ?rq)" "map t_id (rq_tasks ?rq)"] by simp
    then show ?thesis
      using rr.turn [OF t True, of tf] True ids by (auto simp: rr_abs_def)
  next
    case False
    then show ?thesis
      using rr.stay [OF t False, of tf] False ids by (auto simp: rr_abs_def)
  qed
  then show ?thesis
    using out by (intro exI [of _ out] exI [of _ "s\<lparr>sd_rq := Some (tick_step tf ?rq)\<rparr>"]) simp
qed

section \<open>Witnesses\<close>

definition example_ctx :: SpawnCtx where
  "example_ctx = \<lparr>sc_trampoline = 0xABC0, sc_kernel_cs = 8\<rparr>"

definition example_rq :: RunQueue where
  "example_rq = \<lparr>rq_tasks = [new_task example_ctx 0x200000 0x23FFE0 1, new_task example_ctx 0x100000 0x13FFE0 0],
     rq_current = None, rq_next_id = 2, rq_need_resched = True\<rparr>"

definition example_sched :: Sched where
  "example_sched = \<lparr>sd_rq = Some example_rq,
     sd_mem = (\<lambda>_. 0)(0x13FFE0 := 0, 0x13FFE8 := 0x1000, 0x23FFE0 := 0x3000, 0x23FFE8 := 0x2000)\<rparr>"

lemma example_reachable: "sched_reachable True example_ctx example_sched"
proof (rule reach_init)
  show "sched_init True example_ctx 0x100000 0x1000 0x200000 0x2000 0x3000 \<lparr>sd_rq = None, sd_mem = (\<lambda>_. 0)\<rparr> = Ok example_sched"
    by (simp add: sched_init_def insert_idle_def spawn_kthread_def thread_frame_def with_rq_locked_def write_frame_def
        empty_rq_def u_add_def u_sub_def STACK_SIZE_def Let_def example_sched_def example_rq_def)
qed (simp_all add: stack_ok_def)

text \<open>The first tick starts the task at the front.\<close>

definition example_running :: Sched where
  "example_running = example_sched\<lparr>sd_rq := Some (started example_rq)\<rparr>"

lemma example_tick: "tick tf example_sched = Ok (t_trap (new_task example_ctx 0x200000 0x23FFE0 1), example_running)"
proof -
  have "rq_inv (queue example_sched)"
    using sched_invD [OF sched_reachable_inv [OF example_reachable]] by simp
  moreover have "queue example_sched = example_rq"
    by (simp add: example_sched_def queue_def)
  ultimately have "tick_rq tf example_rq = Ok (Some (t_trap (rq_tasks example_rq ! 0)), started example_rq)"
    by (intro tick_rq_start(1)) (simp_all add: example_rq_def)
  then show ?thesis
    by (simp add: tick_def with_rq_locked_eq example_running_def \<open>queue example_sched = example_rq\<close>)
      (simp add: example_rq_def)
qed

lemma running_reachable: "sched_reachable True example_ctx example_running"
  by (rule reach_step [OF example_reachable step_tick [OF example_tick]])

lemma running_queue: "queue example_running = \<lparr>rq_tasks = [(new_task example_ctx 0x200000 0x23FFE0 1)\<lparr>t_state := Running\<rparr>,
    new_task example_ctx 0x100000 0x13FFE0 0], rq_current = Some 0, rq_next_id = 2, rq_need_resched = False\<rparr>"
  by (simp add: example_running_def started_def example_rq_def)

theorem sched_never_panics_witness:
  "distinct (map t_id (rq_tasks (queue example_running))) \<and> (\<exists>r. tick TrapFrame_default example_running = Ok r) \<and>
    (\<exists>r. kill_current example_running = Ok r) \<and> (\<exists>r. spawn_kthread True example_ctx 0x300000 1 2 example_running = Ok r) \<and>
    (\<exists>r. reap example_running = Ok r)"
  using sched_never_panics [OF running_reachable, of TrapFrame_default "0x300000" 1 2]
  by (simp add: running_queue stack_ok_def running_alive_def)

theorem every_task_runs_witness:
  "\<exists>k \<le> 15. \<forall>tfs. length tfs = k \<longrightarrow>
    (\<exists>s'. run_ticks tfs example_running = Ok s' \<and> rq_current (queue s') = Some 1 \<and> t_state (rq_tasks (queue s') ! 1) = Running)"
  using every_task_runs [OF running_reachable, of 0 1] by (simp add: running_queue)

theorem exited_task_runs_again_witness:
  "\<exists>s1. kill_current example_running = Ok ((), s1) \<and> t_state (rq_tasks (queue s1) ! 0) = Dead \<and>
    (\<exists>k. \<forall>tfs. length tfs = k \<longrightarrow> (\<exists>s2. run_ticks tfs s1 = Ok s2 \<and> rq_current (queue s2) = Some 0 \<and>
       t_state (rq_tasks (queue s2) ! 0) = Running \<and> t_id (rq_tasks (queue s2) ! 0) = 1))"
proof -
  obtain s1 where "kill_current example_running = Ok ((), s1)"
    by (rule kill_ok [OF sched_reachable_inv [OF running_reachable]])
  then show ?thesis
    using exited_task_runs_again [OF running_reachable, of 0 s1] by (simp add: running_queue new_task_def)
qed

theorem reaper_frees_nothing_witness: "reap example_running = Ok ((), example_running)"
  by (rule reaper_frees_nothing [OF running_reachable]) (simp add: running_alive_def running_queue)

theorem pick_next_cyclic_witness: "pick_next (queue example_running) = Ok (Some 1)"
  using pick_next_cyclic [of "queue example_running" 0] by (simp add: running_queue new_task_def upt_rec)

theorem spawned_thread_frame_witness:
  "\<exists>s' t frame. spawn_kthread True example_ctx 0x300000 0x77 0x88 example_running = Ok (2, s') \<and>
    rq_tasks (queue s') = t # rq_tasks (queue example_running) \<and> tf_rsp (t_trap t) = frame \<and> 0x300000 \<le> unat frame \<and>
    unat frame + 16 \<le> 0x340000 \<and> sd_mem s' frame = 0x88 \<and> sd_mem s' (frame + 8) = 0x77"
  using spawned_thread_frame [OF running_reachable, of "0x300000" "0x77" "0x88"] by (simp add: running_queue stack_ok_def) blast

theorem tick_refines_round_robin_witness:
  "\<exists>out s'. tick TrapFrame_default example_running = Ok (out, s') \<and> rr_abs (queue s') = ([1, 0], 4)"
  using tick_refines_round_robin [OF running_reachable, of 0 TrapFrame_default]
  by (simp add: rr_abs_def running_queue cur_index_def ticks_left_def new_task_def DEFAULT_SLICE_def)

lemma away_last: "away dbg ctx x s s' \<Longrightarrow> current_id s' \<noteq> Some x"
  by (auto elim: away.cases)

text \<open>Ticking until the last tick of the running task.\<close>

lemma countdown:
  assumes "sched_inv s" "rq_current (queue s) = Some c" "current_id s \<noteq> Some x"
  shows "\<exists>s'. away dbg ctx x s s' \<and> sched_inv s' \<and> rq_current (queue s') = Some c \<and> ticks_left c (queue s') = 1 \<and>
    map t_id (rq_tasks (queue s')) = map t_id (rq_tasks (queue s))"
proof -
  have "\<exists>s'. away dbg ctx x s s' \<and> sched_inv s' \<and> rq_current (queue s') = Some c \<and> ticks_left c (queue s') = ticks_left c (queue s) - m \<and>
    map t_id (rq_tasks (queue s')) = map t_id (rq_tasks (queue s))" if "m < ticks_left c (queue s)" for m
    using that
  proof (induction m)
    case 0
    then show ?case
      using assms by (auto intro: away_refl)
  next
    case (Suc m)
    then obtain s' where s': "away dbg ctx x s s'" "sched_inv s'" "rq_current (queue s') = Some c"
      "ticks_left c (queue s') = ticks_left c (queue s) - m" "map t_id (rq_tasks (queue s')) = map t_id (rq_tasks (queue s))"
      by auto
    have t: "turning (queue s')" "cur_index (queue s') = c"
      using sched_inv_turning [OF s'(2,3)] by simp_all
    have "ticks_left (cur_index (queue s')) (queue s') \<noteq> 1"
      using s'(4) Suc.prems t(2) by simp
    note st = turning_stay [OF t(1) this, unfolded t(2)]
    obtain out where tk: "tick TrapFrame_default s' = Ok (out, s'\<lparr>sd_rq := Some (charge c (queue s'))\<rparr>)"
      by (rule tick_turning [OF t(1), of TrapFrame_default]) (simp add: st(1) that)
    let ?s = "s'\<lparr>sd_rq := Some (charge c (queue s'))\<rparr>"
    have "current_id ?s \<noteq> Some x"
      using away_last [OF s'(1)] by (simp add: current_id_def charge_id)
    then have "away dbg ctx x s ?s"
      by (rule away_step [OF s'(1) step_tick [OF tk]])
    moreover have "sched_inv ?s"
      using tick_ok [OF s'(2), of TrapFrame_default] tk by auto
    ultimately show ?case
      using s' st(2) Suc.prems by (intro exI [of _ ?s]) simp
  qed
  from this [of "ticks_left c (queue s) - 1"] show ?thesis
    using rr.left_pos sched_inv_turning [OF assms(1,2)] by fastforce
qed

lemma away_reachable: "away dbg ctx x s s' \<Longrightarrow> sched_reachable dbg ctx s \<Longrightarrow> sched_reachable dbg ctx s'"
  by (induction rule: away.induct) (auto intro: reach_step)

lemma turn_tick:
  assumes "sched_inv s" "rq_current (queue s) = Some c" "ticks_left c (queue s) = 1"
  obtains out s' where "tick tf s = Ok (out, s')" "sched_inv s'" "rq_current (queue s') = Some (Suc c mod length (rq_tasks (queue s)))"
    "map t_id (rq_tasks (queue s')) = map t_id (rq_tasks (queue s))"
proof -
  have t: "turning (queue s)" "cur_index (queue s) = c"
    using sched_inv_turning [OF assms(1,2)] by simp_all
  note tu = turning_turn(1) [OF t(1), unfolded t(2), OF assms(3)]
  obtain out where tk: "tick tf s = Ok (out, s\<lparr>sd_rq := Some (tick_step tf (queue s))\<rparr>)"
    by (rule tick_turning [OF t(1)])
  then have "sched_inv (s\<lparr>sd_rq := Some (tick_step tf (queue s))\<rparr>)"
    using tick_ok [OF assms(1), of tf] by auto
  then show thesis
    using tk rr.step_inv [OF t(1), of tf] by (intro that [OF tk]) (simp_all add: tu)
qed

theorem resume_exact_witness:
  "\<exists>s s1 s2 s3 out1. tick (TrapFrame_default\<lparr>tf_rax := 7\<rparr>) s = Ok (out1, s1) \<and> current_id s = Some 1 \<and> current_id s1 = Some 0 \<and>
     current_id s2 = Some 0 \<and> current_id s3 = Some 1 \<and> tick TrapFrame_default s2 = Ok (TrapFrame_default\<lparr>tf_rax := 7\<rparr>, s3)"
proof -
  let ?tf = "TrapFrame_default\<lparr>tf_rax := 7\<rparr>"
  have ids: "map t_id (rq_tasks (queue example_running)) = [1, 0]" "rq_current (queue example_running) = Some 0"
    by (simp_all add: running_queue new_task_def)
  have cid: "current_id u = Some ([1, 0] ! i)" if "map t_id (rq_tasks (queue u)) = [1, 0]" "rq_current (queue u) = Some i" "i < 2" for u i
    using that by (cases "rq_tasks (queue u)") (auto simp: current_id_def less_Suc_eq numeral_2_eq_2)
  obtain s where s: "away True example_ctx 99 example_running s" "sched_inv s" "rq_current (queue s) = Some 0" "ticks_left 0 (queue s) = 1"
    "map t_id (rq_tasks (queue s)) = [1, 0]"
    using countdown [where dbg = True and ctx = example_ctx and x = 99, OF sched_reachable_inv [OF running_reachable] ids(2)] cid [OF ids] ids(1) by auto
  have len: "length (rq_tasks (queue u)) = 2" if "map t_id (rq_tasks (queue u)) = [1, 0]" for u
    using arg_cong [OF that, of length] by simp
  obtain out1 s1 where s1: "tick ?tf s = Ok (out1, s1)" "sched_inv s1" "rq_current (queue s1) = Some 1" "map t_id (rq_tasks (queue s1)) = [1, 0]"
    by (rule turn_tick [OF s(2-4), of ?tf]) (simp add: s(5) len that)
  obtain s2 where s2: "away True example_ctx 1 s1 s2" "sched_inv s2" "rq_current (queue s2) = Some 1" "ticks_left 1 (queue s2) = 1"
    "map t_id (rq_tasks (queue s2)) = [1, 0]"
    using countdown [where dbg = True and ctx = example_ctx and x = 1, OF s1(2,3)] cid [OF s1(4,3)] s1(4) by auto
  obtain out2 s3 where s3: "tick TrapFrame_default s2 = Ok (out2, s3)" "rq_current (queue s3) = Some 0" "map t_id (rq_tasks (queue s3)) = [1, 0]"
    by (rule turn_tick [OF s2(2-4), of TrapFrame_default]) (simp add: s2(5) len that)
  have c: "current_id s = Some 1" "current_id s1 = Some 0" "current_id s2 = Some 0" "current_id s3 = Some 1"
    using cid [OF s(5,3)] cid [OF s1(4,3)] cid [OF s2(5,3)] cid [OF s3(3,2)] by simp_all
  have "out2 = ?tf"
    by (rule resume_exact [OF away_reachable [OF s(1) running_reachable] c(1) s1(1) s2(1) s3(1) c(4)])
  then show ?thesis
    using c s1(1) s3(1) by blast
qed

end
