(* ===== verification/Exec_Queue.thy ===== *)
theory Exec_Queue
  imports Sched_Props "HOL-Library.Monad_Syntax"
begin

text \<open>
  The work queue of \<^verbatim>\<open>sched/exec.rs\<close>: closures are copied into fixed slots, queued in a bounded
  deque, and turned into threads by the server.

  A closure is the code it was compiled to and the bytes it captured; \<open>sz\<close> gives the capture size
  that belongs to the code, \<open>size_of::<F>()\<close>. The deque is that of the heapless crate: its
  operations are parameters, \<open>deque_api\<close> their documented behaviour.
\<close>

section \<open>Slots\<close>

definition QUEUE_CAPACITY :: nat where
  "QUEUE_CAPACITY = 64"

definition SLOT_SIZE :: nat where
  "SLOT_SIZE = 128"

record Closure =
  cl_code :: u64
  cl_capture :: "u8 list"

record Slot =
  sl_call :: u64
  sl_drop_in_place :: u64
  sl_buf :: "u8 list"

definition into_slot :: "Closure \<Rightarrow> Slot option" where
  "into_slot f =
     (if SLOT_SIZE < length (cl_capture f) then None
      else Some \<lparr>sl_call = cl_code f, sl_drop_in_place = cl_code f,
             sl_buf = cl_capture f @ replicate (SLOT_SIZE - length (cl_capture f)) 0\<rparr>)"

text \<open>\<open>slot_call::<F>\<close> reads a closure of type \<open>F\<close> back from the buffer.\<close>

definition slot_call :: "(u64 \<Rightarrow> nat) \<Rightarrow> u64 \<Rightarrow> u8 list \<Rightarrow> Closure" where
  "slot_call sz code buf = \<lparr>cl_code = code, cl_capture = take (sz code) buf\<rparr>"

definition invoke_and_forget :: "(u64 \<Rightarrow> nat) \<Rightarrow> Slot \<Rightarrow> Closure" where
  "invoke_and_forget sz slot = slot_call sz (sl_call slot) (sl_buf slot)"

section \<open>The queue and its server\<close>

record 'a deque_ops =
  dq_push_back :: "'a list \<Rightarrow> 'a \<Rightarrow> 'a list option"
  dq_pop_front :: "'a list \<Rightarrow> ('a \<times> 'a list) option"

definition deque_api :: "nat \<Rightarrow> 'a deque_ops \<Rightarrow> bool" where
  "deque_api n dq \<longleftrightarrow>
     (\<forall>xs x. dq_push_back dq xs x = (if length xs < n then Some (xs @ [x]) else None)) \<and>
     dq_pop_front dq [] = None \<and> (\<forall>x xs. dq_pop_front dq (x # xs) = Some (x, xs))"

definition list_deque :: "nat \<Rightarrow> 'a deque_ops" where
  "list_deque n = \<lparr>dq_push_back = (\<lambda>xs x. if length xs < n then Some (xs @ [x]) else None),
     dq_pop_front = (\<lambda>xs. case xs of [] \<Rightarrow> None | x # ys \<Rightarrow> Some (x, ys))\<rparr>"

lemma list_deque_api: "deque_api n (list_deque n)"
  by (simp add: deque_api_def list_deque_def)

text \<open>\<open>submit\<close>: whether it succeeded, and the queue.\<close>

definition submit :: "Slot deque_ops \<Rightarrow> Closure \<Rightarrow> Slot list \<Rightarrow> bool \<times> Slot list" where
  "submit dq f q =
     (case into_slot f of
        None \<Rightarrow> (False, q)
      | Some slot \<Rightarrow> (case dq_push_back dq q slot of None \<Rightarrow> (False, q) | Some q' \<Rightarrow> (True, q')))"

text \<open>
  One round of \<open>server_main\<close>: every queued slot becomes a thread. \<open>allocs\<close> are the stack buffer and
  the box of the closure that the heap gives to each spawn; the result lists the identifiers of
  the threads and the closures they run.
\<close>

partial_function (option) server_drain ::
  "Slot deque_ops \<Rightarrow> (u64 \<Rightarrow> nat) \<Rightarrow> bool \<Rightarrow> SpawnCtx \<Rightarrow> u64 \<Rightarrow> (u64 \<times> u64) list \<Rightarrow> Slot list \<Rightarrow> Sched \<Rightarrow>
    ((u64 \<times> Closure) list \<times> Slot list \<times> Sched) res option" where
  "server_drain dq sz dbg ctx thread_main allocs q s =
     (case dq_pop_front dq q of
        None \<Rightarrow> Some (Ok ([], q, s))
      | Some (slot, q') \<Rightarrow>
          (case allocs of
             [] \<Rightarrow> Some (Panic Fatal)
           | (base, arg) # rest \<Rightarrow>
               (case spawn_kthread dbg ctx base thread_main arg s of
                  Panic p \<Rightarrow> Some (Panic p)
                | Ok (tid, s') \<Rightarrow>
                    do { r \<leftarrow> server_drain dq sz dbg ctx thread_main rest q' s';
                         Some (rbind r (\<lambda>(log, q2, s2). Ok ((tid, invoke_and_forget sz slot) # log, q2, s2))) })))"

declare server_drain.simps [code]

text \<open>Submitting a sequence of closures.\<close>

fun submit_all :: "Slot deque_ops \<Rightarrow> Closure list \<Rightarrow> Slot list \<Rightarrow> bool list \<times> Slot list" where
  "submit_all dq [] q = ([], q)"
| "submit_all dq (f # fs) q = (let (b, q1) = submit dq f q; (bs, q2) = submit_all dq fs q1 in (b # bs, q2))"

section \<open>Lemmas\<close>

definition fits :: "(u64 \<Rightarrow> nat) \<Rightarrow> Closure \<Rightarrow> bool" where
  "fits sz f \<longleftrightarrow> length (cl_capture f) = sz (cl_code f) \<and> length (cl_capture f) \<le> SLOT_SIZE"

lemma into_slot_call: "fits sz f \<Longrightarrow> \<exists>slot. into_slot f = Some slot \<and> invoke_and_forget sz slot = f"
  by (auto simp: into_slot_def invoke_and_forget_def slot_call_def fits_def not_less)

lemma submit_eq:
  assumes "deque_api QUEUE_CAPACITY dq"
  shows "submit dq f q = (if length (cl_capture f) \<le> SLOT_SIZE \<and> length q < QUEUE_CAPACITY
    then (True, q @ [the (into_slot f)]) else (False, q))"
  using assms by (auto simp: submit_def deque_api_def into_slot_def split: option.splits)

lemma submit_all_eq:
  assumes "deque_api QUEUE_CAPACITY dq" "list_all (fits sz) fs" "length q + length fs \<le> QUEUE_CAPACITY"
  shows "submit_all dq fs q = (replicate (length fs) True, q @ map (\<lambda>f. the (into_slot f)) fs)"
  using assms(2,3)
  by (induction fs arbitrary: q) (auto simp: submit_eq [OF assms(1)] fits_def)

text \<open>Draining a queue of slots that hold \<open>fs\<close>, from a scheduler state with the invariant.\<close>

lemma server_drain_eq:
  assumes dq: "deque_api n dq"
  shows "sched_inv s \<Longrightarrow> map (invoke_and_forget sz) q = fs \<Longrightarrow> length q \<le> length allocs \<Longrightarrow> list_all (\<lambda>(b, a). stack_ok b) allocs \<Longrightarrow>
    unat (rq_next_id (queue s)) + length q < 2 ^ 64 \<Longrightarrow>
    \<exists>s'. server_drain dq sz dbg ctx thread_main allocs q s =
        Some (Ok (zip (map (\<lambda>k. rq_next_id (queue s) + of_nat k) [0..<length q]) fs, [], s')) \<and> sched_inv s' \<and>
      length (rq_tasks (queue s')) = length (rq_tasks (queue s)) + length q"
proof (induction q arbitrary: s fs allocs)
  case Nil
  then show ?case
    using dq by (auto simp: server_drain.simps deque_api_def)
next
  case (Cons slot q)
  obtain base arg rest where al: "allocs = (base, arg) # rest" "stack_ok base" "length q \<le> length rest" "list_all (\<lambda>(b, a). stack_ok b) rest"
    using Cons.prems(3,4) by (cases allocs) auto
  have room: "unat (rq_next_id (queue s)) + 1 < 2 ^ 64"
    using Cons.prems(5) by simp
  obtain frame s1 where s1: "spawn_kthread dbg ctx base thread_main arg s = Ok (rq_next_id (queue s), s1)" "sched_inv s1"
    "queue s1 = spawned ctx base frame (queue s)"
    by (rule spawn_ok [OF Cons.prems(1) al(2) room, of dbg ctx thread_main arg])
  have nxt: "rq_next_id (queue s1) = rq_next_id (queue s) + 1" "unat (rq_next_id (queue s1)) = unat (rq_next_id (queue s)) + 1"
    using room by (simp_all add: s1(3) spawned_def unat_add_ok)
  obtain f gs where fs: "fs = f # gs" "invoke_and_forget sz slot = f" "map (invoke_and_forget sz) q = gs"
    using Cons.prems(2) by auto
  obtain s' where s': "server_drain dq sz dbg ctx thread_main rest q s1 =
      Some (Ok (zip (map (\<lambda>k. rq_next_id (queue s1) + of_nat k) [0..<length q]) gs, [], s'))" "sched_inv s'"
    "length (rq_tasks (queue s')) = length (rq_tasks (queue s1)) + length q"
    using Cons.IH [OF s1(2) fs(3) al(3,4)] Cons.prems(5) nxt(2) by auto
  have "map (\<lambda>k. rq_next_id (queue s) + of_nat k) [0..<length (slot # q)] =
      rq_next_id (queue s) # map (\<lambda>k. rq_next_id (queue s1) + of_nat k) [0..<length q]"
    by (simp add: nxt(1) upt_conv_Cons map_Suc_upt [symmetric] del: upt_Suc)
  then show ?case
    using dq s' s1 fs(1,2) by (intro exI [of _ s']) (simp add: server_drain.simps al(1) deque_api_def spawned_def)
qed

section \<open>Properties\<close>

text \<open>
  C23: Queued work is neither lost nor changed nor reordered: up to 64 closures that fit their
  slots are all accepted by an empty queue, and the next round of the server terminates,
  leaves the queue empty and spawns one thread per closure, in submission order and with the
  identifiers in sequence, each running exactly the closure that was submitted.
\<close>

theorem submitted_work_is_spawned:
  assumes "deque_api QUEUE_CAPACITY dq" "list_all (fits sz) fs" "length fs \<le> QUEUE_CAPACITY"
    and "sched_reachable dbg ctx s" "unat (rq_next_id (queue s)) + length fs < 2 ^ 64"
    and "length fs \<le> length allocs" "list_all (\<lambda>(b, a). stack_ok b) allocs"
  shows "\<exists>q s'. submit_all dq fs [] = (replicate (length fs) True, q) \<and>
    server_drain dq sz dbg ctx thread_main allocs q s =
      Some (Ok (zip (map (\<lambda>k. rq_next_id (queue s) + of_nat k) [0..<length fs]) fs, [], s')) \<and>
    length (rq_tasks (queue s')) = length (rq_tasks (queue s)) + length fs"
proof -
  let ?q = "map (\<lambda>f. the (into_slot f)) fs"
  have "map (invoke_and_forget sz) ?q = fs"
  proof -
    have "invoke_and_forget sz (the (into_slot f)) = f" if "f \<in> set fs" for f
      using into_slot_call [of sz f] assms(2) that by (auto simp: list_all_iff)
    then show ?thesis
      by (simp add: map_idI)
  qed
  then show ?thesis
    using server_drain_eq [OF assms(1) sched_reachable_inv [OF assms(4)], of sz ?q fs allocs dbg ctx thread_main] assms(5-7)
      submit_all_eq [OF assms(1,2), of "[]"] assms(3) by simp blast
qed

text \<open>
  C31: \<open>submit\<close> reports an error exactly when the capture is larger than a slot or the queue is
  full, and then leaves the queue as it was; a queue within its capacity stays within it.
\<close>

theorem submit_outcome:
  assumes "deque_api QUEUE_CAPACITY dq" "length q \<le> QUEUE_CAPACITY"
  shows "(fst (submit dq f q) \<longleftrightarrow> length (cl_capture f) \<le> 128 \<and> length q < 64) \<and>
    (fst (submit dq f q) \<or> snd (submit dq f q) = q) \<and> length (snd (submit dq f q)) \<le> 64"
  using assms(2) unfolding submit_eq [OF assms(1)] by (auto simp: SLOT_SIZE_def QUEUE_CAPACITY_def)

definition example_work :: "Closure list" where
  "example_work = [\<lparr>cl_code = 0x10, cl_capture = [1, 2, 3]\<rparr>, \<lparr>cl_code = 0x20, cl_capture = []\<rparr>]"

definition example_sizes :: "u64 \<Rightarrow> nat" where
  "example_sizes code = (if code = 0x10 then 3 else 0)"

theorem submitted_work_is_spawned_witness:
  "\<exists>q s'. submit_all (list_deque QUEUE_CAPACITY) example_work [] = ([True, True], q) \<and>
    server_drain (list_deque QUEUE_CAPACITY) example_sizes True example_ctx 0x2000 [(0x300000, 0x50), (0x400000, 0x60)] q example_running =
      Some (Ok ([(2, \<lparr>cl_code = 0x10, cl_capture = [1, 2, 3]\<rparr>), (3, \<lparr>cl_code = 0x20, cl_capture = []\<rparr>)], [], s')) \<and>
    length (rq_tasks (queue s')) = 4"
  using submitted_work_is_spawned [OF list_deque_api, of example_sizes example_work True example_ctx example_running
      "[(0x300000, 0x50), (0x400000, 0x60)]" "0x2000"] running_reachable
  by (simp add: example_work_def example_sizes_def fits_def SLOT_SIZE_def QUEUE_CAPACITY_def stack_ok_def running_queue upt_rec)
    (simp add: eval_nat_numeral)

theorem submit_outcome_witness:
  "(fst (submit (list_deque QUEUE_CAPACITY) \<lparr>cl_code = 1, cl_capture = replicate 129 0\<rparr> []) \<longleftrightarrow> False) \<and>
   length (snd (submit (list_deque QUEUE_CAPACITY) \<lparr>cl_code = 1, cl_capture = [7]\<rparr> [])) \<le> 64"
  using submit_outcome [OF list_deque_api, of "[]" "\<lparr>cl_code = 1, cl_capture = replicate 129 0\<rparr>"]
    submit_outcome [OF list_deque_api, of "[]" "\<lparr>cl_code = 1, cl_capture = [7]\<rparr>"] by simp

end
