(* ===== verification/Native.thy ===== *)
theory Native
  imports Smp_Props Simd Devices Tables Exec_Queue
begin

unbundle bit_operations_syntax

text \<open>
  The architecture's start-up (\<^verbatim>\<open>arch/x86_64/mod.rs\<close>), which brings the units of a processor up in order,
  the handlers of the timer and of unregistered vectors, the first code of the other processors
  (\<open>ap_entry\<close> in \<^verbatim>\<open>arch/x86_64/smp.rs\<close>), and the clearing of the kernel's zero-initialised section.
\<close>

section \<open>Operations\<close>

text \<open>\<open>zero_bss\<close> of \<^verbatim>\<open>util.rs\<close>; the two addresses come from the linker script.\<close>

definition zero_bss :: "bool \<Rightarrow> u64 \<Rightarrow> u64 \<Rightarrow> (u64 \<Rightarrow> u8) \<Rightarrow> (u64 \<Rightarrow> u8) res" where
  "zero_bss dbg bss_start bss_end m =
     rbind (u_sub dbg bss_end bss_start) (\<lambda>n. Ok (poke bss_start (replicate (unat n) 0) m))"

text \<open>What the code under \<^verbatim>\<open>src\<close> does not determine, and the units of the boot processor.\<close>

record native_env =
  ne_dbg :: bool
  ne_cpuid :: cpuid
  ne_heap :: "nat \<Rightarrow> u64"
  ne_stubs :: Stubs
  ne_sel0 :: Selectors
  ne_sel :: Selectors

record machine =
  mc_fpu :: fpu
  mc_ioapic :: ioapic
  mc_lapic :: lapic
  mc_tables :: "(cpu_tables \<times> tables) option"

text \<open>
  \<open>init\<close>. The number of the processor is read twice while the tables are built; the two reads give the same
  (\<open>lapic_id_again\<close> below), and the tables take it once.
\<close>

definition native_init :: "native_env \<Rightarrow> u64 \<Rightarrow> machine \<Rightarrow> machine res" where
  "native_init N hhdm mc =
     (let dbg = ne_dbg N;
          fp = simd_init (ne_cpuid N) (mc_fpu mc);
          ecx = leaf1_ecx (ne_cpuid N) (fp_cr4 fp)
      in rbind (mask_all dbg (mc_ioapic mc)) (\<lambda>io.
         rbind (lapic_id dbg ecx (early_init ecx (mc_lapic mc))) (\<lambda>(me, l1).
         rbind (lapic_id dbg ecx l1) (\<lambda>(me', l2).
         rbind (boot_tables dbg (ne_heap N) (ne_stubs N) (ne_sel0 N) (ne_sel N) me) (\<lambda>tabs.
         rbind (apic_paging dbg hhdm l2) (\<lambda>l3.
         rbind (open_all_irqs dbg l3) (\<lambda>l4.
         rbind (start_timer_hz dbg 1000 l4) (\<lambda>l5.
           Ok (mc\<lparr>mc_fpu := fp, mc_ioapic := io, mc_lapic := l5, mc_tables := Some tabs\<rparr>)))))))))"

definition isr_default_rust :: "bool \<Rightarrow> TrapFrame \<Rightarrow> lapic \<Rightarrow> (TrapFrame \<times> lapic) res" where
  "isr_default_rust dbg tf l = rbind (eoi dbg l) (\<lambda>l'. Ok (tf, l'))"

definition isr_timer_rust :: "bool \<Rightarrow> TrapFrame \<Rightarrow> Sched \<Rightarrow> lapic \<Rightarrow> (TrapFrame \<times> Sched \<times> lapic) res" where
  "isr_timer_rust dbg tf s l =
     rbind (tick tf s) (\<lambda>(tf', s'). rbind (eoi dbg l) (\<lambda>l'. Ok (tf', s', l')))"

text \<open>
  \<open>ap_entry\<close> up to the end of the section without interrupts. The other processor has its own registers in
  the controller; mode and direct map are globals it shares. The result has the root table it loads, its
  number, the memory with the ready flag set, and its tables, which the work queue builds for it.
\<close>

definition ApBoot_read :: "u64 \<Rightarrow> (u64 \<Rightarrow> u8) \<Rightarrow> ApBoot" where
  "ApBoot_read p m =
     \<lparr>ab_ready_flag = from_le (peek p 4 m), ab_pad = from_le (peek (p + 4) 4 m), ab_cr3 = from_le (peek (p + 8) 8 m),
      ab_gdt_ptr = from_le (peek (p + 16) 8 m), ab_idt_ptr = from_le (peek (p + 24) 8 m), ab_stack_top = from_le (peek (p + 32) 8 m),
      ab_entry64 = from_le (peek (p + 40) 8 m), ab_hhdm = from_le (peek (p + 48) 8 m)\<rparr>"

record ap_state =
  ap_cr3 :: u64
  ap_id :: CpuId
  ap_lapic :: lapic
  ap_mem :: "u64 \<Rightarrow> u8"
  ap_tabs :: "cpu_tables \<times> tables"

definition ap_entry :: "native_env \<Rightarrow> u32 \<Rightarrow> u64 \<Rightarrow> tables \<Rightarrow> lapic \<Rightarrow> (u64 \<Rightarrow> u8) \<Rightarrow> ap_state res" where
  "ap_entry N ecx apboot tb l m =
     (let boot = ApBoot_read apboot m;
          m1 = poke apboot (le_bytes 4 (1 :: u32)) m
      in rbind (apic_ap_init (ne_dbg N) ecx (ab_hhdm boot) l) (\<lambda>l1.
         rbind (lapic_id (ne_dbg N) ecx l1) (\<lambda>(_, l2).
         rbind (lapic_id (ne_dbg N) ecx l2) (\<lambda>(me, l3).
         rbind (ap_tables (ne_dbg N) (ne_heap N) (ne_stubs N) (ne_sel N) me tb) (\<lambda>tabs.
           Ok \<lparr>ap_cr3 = ab_cr3 boot, ap_id = Some me, ap_lapic = l3, ap_mem = m1, ap_tabs = tabs\<rparr>)))))"

section \<open>The number of a processor\<close>

lemma enabled_base_again: "enabled_base ecx (enabled_base ecx b) = enabled_base ecx b"
  by (rule bit_word_eqI) (auto simp: enabled_base_def bit_simps)

text \<open>\<open>lapic_id\<close> in two parts: the controller after it was switched on, and what is read from it.\<close>

definition lapic_woken :: "u32 \<Rightarrow> lapic \<Rightarrow> lapic" where
  "lapic_woken ecx l =
     (let b = rdmsr MSR_IA32_APIC_BASE l; n = enabled_base ecx b
      in if n \<noteq> b then
           (let l' = wrmsr MSR_IA32_APIC_BASE n l in if n AND X2APIC_EN \<noteq> 0 then store_mode Mode.X2Apic l' else l')
         else l)"

definition lapic_number :: "bool \<Rightarrow> lapic \<Rightarrow> Mode \<Rightarrow> u32 res" where
  "lapic_number dbg l m =
     (case m of
        Mode.X2Apic \<Rightarrow> Ok (ucast (rdmsr MSR_X2APIC_APICID l))
      | XApic b \<Rightarrow> rbind (mmio_read dbg LAPIC_ID_OFF l) (\<lambda>v. Ok (drop_bit 24 v))
      | _ \<Rightarrow> rbind (u_add dbg (la_hhdm l) (apic_phys l)) (\<lambda>p. Ok (drop_bit 24 (vol_read p LAPIC_ID_OFF l))))"

lemma woken_base: "rdmsr MSR_IA32_APIC_BASE (lapic_woken ecx l) = enabled_base ecx (rdmsr MSR_IA32_APIC_BASE l)"
  by (simp add: lapic_woken_def Let_def rdmsr_def wrmsr_def store_mode_def)

lemma woken_again: "lapic_woken ecx (lapic_woken ecx l) = lapic_woken ecx l"
  by (subst (1) lapic_woken_def) (simp add: woken_base enabled_base_again)

lemma lapic_id_eq:
  "lapic_id dbg ecx l =
     rbind (load_mode dbg (lapic_woken ecx l)) (\<lambda>m. rbind (lapic_number dbg (lapic_woken ecx l) m) (\<lambda>v. Ok (v, lapic_woken ecx l)))"
proof -
  let ?w = "lapic_woken ecx l"
  have "apic_phys ?w = enabled_base ecx (rdmsr MSR_IA32_APIC_BASE l) AND APIC_PHYS_MASK"
    by (simp add: apic_phys_def woken_base)
  then show ?thesis
    unfolding lapic_id_def Let_def lapic_woken_def [unfolded Let_def, symmetric] lapic_number_def
    by (intro arg_cong [where f = "rbind _"] ext) (simp add: rbind_assoc split: Mode.split)
qed

lemma lapic_id_again:
  assumes "lapic_id dbg ecx l = Ok (v, l')"
  shows "lapic_id dbg ecx l' = Ok (v, l')"
proof -
  have "l' = lapic_woken ecx l"
    using assms by (auto simp: lapic_id_eq)
  then show ?thesis
    using assms by (simp only: lapic_id_eq woken_again)
qed

section \<open>A controller that is ready\<close>

definition lapic_ready :: "lapic \<Rightarrow> bool" where
  "lapic_ready l \<longleftrightarrow> (la_mode l = 1 \<or> la_mode l = 3) \<and> unat (la_hhdm l) + unat (apic_phys l) < 2 ^ 64"

text \<open>A register by its number or by its place, and the write that acknowledges an interrupt.\<close>

definition lapic_reg :: "u32 \<Rightarrow> u64 \<Rightarrow> lapic \<Rightarrow> u64" where
  "lapic_reg msr off l = (if la_mode l = 1 then la_msr l msr else ucast (la_mmio l (la_hhdm l + apic_phys l + 4 * off)))"

definition eoi_write :: "lapic \<Rightarrow> reg_write" where
  "eoi_write l = (if la_mode l = 1 then WrMsr MSR_X2APIC_EOI 0 else WrMmio (la_hhdm l + apic_phys l + 4 * LAPIC_EOI_OFF) 0)"

lemmas lapic_ops = by_mode_def load_mode_def mmio_write_def mmio_def u_add_def vol_write_def wrmsr_def rdmsr_def apic_phys_def

lemma eoi_ready:
  assumes "lapic_ready l"
  shows "\<exists>l'. eoi dbg l = Ok l' \<and> lapic_ready l' \<and> la_log l' = la_log l @ [eoi_write l] \<and> eoi_write l' = eoi_write l"
  using assms by (auto simp: lapic_ready_def eoi_def lapic_ops eoi_write_def MSR_X2APIC_EOI_def MSR_IA32_APIC_BASE_def)

lemma early_facts:
  "rdmsr MSR_IA32_APIC_BASE (early_init ecx l) = enabled_base ecx (rdmsr MSR_IA32_APIC_BASE l)"
  "la_mode (early_init ecx l) = (if has_x2apic ecx then 1 else 2)" "la_hhdm (early_init ecx l) = la_hhdm l"
  using x2_bit [OF refl, of ecx "rdmsr MSR_IA32_APIC_BASE l"]
  by (simp_all add: early_init_def Let_def store_mode_def rdmsr_def wrmsr_def)

lemma early_number:
  assumes "la_hhdm l = 0"
  shows "\<exists>me. lapic_id dbg ecx (early_init ecx l) = Ok (me, early_init ecx l)"
proof -
  let ?e = "early_init ecx l"
  have w: "lapic_woken ecx ?e = ?e"
    by (simp add: lapic_woken_def early_facts(1) enabled_base_again)
  have "u_add dbg (la_hhdm ?e) (apic_phys ?e) = Ok (apic_phys ?e)"
    unfolding early_facts(3) assms using u_add_ok [of 0 "apic_phys ?e" dbg] by simp
  moreover have "la_mode ?e = 1 \<or> la_mode ?e = 2"
    by (simp add: early_facts(2))
  ultimately show ?thesis
    unfolding lapic_id_eq w by (auto simp: load_mode_def lapic_number_def)
qed

lemma paging_ready:
  assumes "la_mode l = 1 \<or> la_mode l = 2" "unat hhdm + unat (apic_phys l) < 2 ^ 64"
  shows "\<exists>l'. apic_paging dbg hhdm l = Ok l' \<and> lapic_ready l'"
  using assms by (auto simp: apic_paging_def load_mode_def Let_def store_mode_def lapic_ready_def u_add_def apic_phys_def rdmsr_def)

lemma open_ready:
  assumes "lapic_ready l"
  shows "\<exists>l'. open_all_irqs dbg l = Ok l' \<and> lapic_ready l' \<and> lapic_reg MSR_X2APIC_TPR LAPIC_TPR_OFF l' = 0"
  using assms
  by (auto simp: lapic_ready_def open_all_irqs_def lapic_ops lapic_reg_def MSR_X2APIC_TPR_def MSR_IA32_APIC_BASE_def)

lemma timer_ready:
  assumes "lapic_ready l"
  shows "\<exists>l'. start_timer_hz dbg hz l = Ok l' \<and> lapic_ready l' \<and>
    lapic_reg MSR_X2APIC_TPR LAPIC_TPR_OFF l' = lapic_reg MSR_X2APIC_TPR LAPIC_TPR_OFF l \<and>
    lapic_reg MSR_X2APIC_LVT_TIMER LAPIC_LVT_TMR l' = 0x20040 \<and> lapic_reg MSR_X2APIC_INIT_COUNT LAPIC_INITCNT l' = ucast (timer_count hz)"
  using assms
  by (auto simp: lapic_ready_def start_timer_hz_def lapic_ops lapic_reg_def MSR_X2APIC_TPR_def MSR_X2APIC_LVT_TIMER_def MSR_X2APIC_INIT_COUNT_def
      MSR_IA32_APIC_BASE_def LAPIC_TPR_OFF_def LAPIC_LVT_TMR_def LAPIC_INITCNT_def LAPIC_DCR_def TIMER_VECTOR_def)

section \<open>Timer interrupts\<close>

fun timer_interrupts :: "bool \<Rightarrow> TrapFrame list \<Rightarrow> Sched \<Rightarrow> lapic \<Rightarrow> (Sched \<times> lapic) res" where
  "timer_interrupts dbg [] s l = Ok (s, l)"
| "timer_interrupts dbg (tf # tfs) s l = rbind (isr_timer_rust dbg tf s l) (\<lambda>(_, s', l'). timer_interrupts dbg tfs s' l')"

lemma interrupts_tick:
  assumes "lapic_ready l" "sched_inv s"
  shows "\<exists>s' l'. timer_interrupts dbg tfs s l = Ok (s', l') \<and> run_ticks tfs s = Ok s' \<and> lapic_ready l' \<and>
    la_log l' = la_log l @ replicate (length tfs) (eoi_write l)"
  using assms
proof (induction tfs arbitrary: s l)
  case (Cons tf tfs)
  obtain tf1 s1 where s1: "tick tf s = Ok (tf1, s1)" "sched_inv s1"
    by (rule tick_ok [OF Cons.prems(2), of tf]) blast
  obtain l1 where l1: "eoi dbg l = Ok l1" "lapic_ready l1" "la_log l1 = la_log l @ [eoi_write l]" "eoi_write l1 = eoi_write l"
    using eoi_ready [OF Cons.prems(1)] by blast
  show ?case
    using Cons.IH [OF l1(2) s1(2)] s1(1) l1 by (auto simp: isr_timer_rust_def)
qed simp

section \<open>After start-up\<close>

lemma native_ready:
  assumes "la_hhdm (mc_lapic mc) = 0"
    and "unat hhdm + unat (enabled_base (leaf1_ecx (ne_cpuid N) (fp_cr4 (simd_init (ne_cpuid N) (mc_fpu mc))))
           (rdmsr MSR_IA32_APIC_BASE (mc_lapic mc)) AND APIC_PHYS_MASK) < 2 ^ 64"
  shows "\<exists>mc' ct tb. native_init N hhdm mc = Ok mc' \<and>
    (\<forall>j \<le> unat (drop_bit 16 (io_regs (mc_ioapic mc) 1) AND 0xFF). bit (io_regs (mc_ioapic mc') (redir_lo j)) 16) \<and>
    mc_tables mc' = Some (ct, tb) \<and> gate_target (ct_idt ct ! unat TIMER_VECTOR) = timer_stub (ne_stubs N) \<and>
    lapic_ready (mc_lapic mc') \<and> lapic_reg MSR_X2APIC_TPR LAPIC_TPR_OFF (mc_lapic mc') = 0 \<and>
    lapic_reg MSR_X2APIC_LVT_TIMER LAPIC_LVT_TMR (mc_lapic mc') = 0x20040 \<and>
    lapic_reg MSR_X2APIC_INIT_COUNT LAPIC_INITCNT (mc_lapic mc') = 10000"
proof -
  let ?fp = "simd_init (ne_cpuid N) (mc_fpu mc)" and ?dbg = "ne_dbg N"
  let ?ecx = "leaf1_ecx (ne_cpuid N) (fp_cr4 ?fp)"
  let ?e = "early_init ?ecx (mc_lapic mc)"
  obtain io where io: "mask_all ?dbg (mc_ioapic mc) = Ok io"
    "\<forall>j \<le> unat (drop_bit 16 (io_regs (mc_ioapic mc) 1) AND 0xFF). bit (io_regs io (redir_lo j)) 16"
    using mask_all_masks by blast
  obtain me where me: "lapic_id ?dbg ?ecx ?e = Ok (me, ?e)"
    using early_number [OF assms(1)] by blast
  obtain tb where tb: "boot_tables ?dbg (ne_heap N) (ne_stubs N) (ne_sel0 N) (ne_sel N) me =
     Ok (\<lparr>ct_sel = ne_sel N, ct_tss = boot_tss (ne_heap N) 8, ct_idt = map (boot_gate (ne_stubs N) (ne_sel N)) [0..<256]\<rparr>, tb)"
    using boot_tables_eq by blast
  have "la_mode ?e = 1 \<or> la_mode ?e = 2" "unat hhdm + unat (apic_phys ?e) < 2 ^ 64"
    using assms(2) by (simp_all add: early_facts(1,2) apic_phys_def)
  then obtain l3 where l3: "apic_paging ?dbg hhdm ?e = Ok l3" "lapic_ready l3"
    using paging_ready by blast
  obtain l4 where l4: "open_all_irqs ?dbg l3 = Ok l4" "lapic_ready l4" "lapic_reg MSR_X2APIC_TPR LAPIC_TPR_OFF l4 = 0"
    using open_ready [OF l3(2)] by blast
  obtain l5 where l5: "start_timer_hz ?dbg 1000 l4 = Ok l5" "lapic_ready l5" "lapic_reg MSR_X2APIC_TPR LAPIC_TPR_OFF l5 = 0"
    "lapic_reg MSR_X2APIC_LVT_TIMER LAPIC_LVT_TMR l5 = 0x20040" "lapic_reg MSR_X2APIC_INIT_COUNT LAPIC_INITCNT l5 = 10000"
    using timer_ready [OF l4(2), of ?dbg 1000] l4(3) by (auto simp: timer_count_def)
  have "native_init N hhdm mc = Ok (mc\<lparr>mc_fpu := ?fp, mc_ioapic := io, mc_lapic := l5, mc_tables :=
     Some (\<lparr>ct_sel = ne_sel N, ct_tss = boot_tss (ne_heap N) 8, ct_idt = map (boot_gate (ne_stubs N) (ne_sel N)) [0..<256]\<rparr>, tb)\<rparr>)"
    unfolding native_init_def Let_def io(1) rbind.simps me prod.case tb l3(1) l4(1) l5(1) by (rule refl)
  then show ?thesis
    using io(2) l5(2-) by (simp add: TIMER_VECTOR_def boot_gate_def gate_target_gate)
qed

section \<open>Another processor answers\<close>

lemma ApBoot_roundtrip:
  assumes "unat p + 56 \<le> 2 ^ 64" "peek p 56 m = ApBoot_bytes b"
  shows "ApBoot_read p m = b"
proof -
  have part: "peek (p + of_nat k) n m = take n (drop k (ApBoot_bytes b))" if "k + n \<le> 56" for k n
    unfolding assms(2) [symmetric] using that
    by (simp add: peek_def drop_map take_map add.assoc flip: of_nat_add) (simp add: list_eq_iff_nth_eq)
  show ?thesis
    using part [of 0 4] part [of 4 4] part [of 8 8] part [of 16 8] part [of 24 8] part [of 32 8] part [of 40 8] part [of 48 8]
    by (simp add: ApBoot_read_def ApBoot_bytes_def from_le_64 from_le_32)
qed

lemma ap_lapic_ready:
  assumes "unat hhdm + unat (enabled_base ecx (rdmsr MSR_IA32_APIC_BASE l) AND APIC_PHYS_MASK) < 2 ^ 64"
  shows "\<exists>l'. apic_ap_init dbg ecx hhdm l = Ok l' \<and> lapic_ready l' \<and> la_hhdm l' = hhdm \<and> lapic_woken ecx l' = l'"
proof -
  let ?b = "enabled_base ecx (rdmsr MSR_IA32_APIC_BASE l)"
  have "\<exists>l'. apic_ap_init dbg ecx hhdm l = Ok l' \<and> lapic_ready l' \<and> la_hhdm l' = hhdm \<and> rdmsr MSR_IA32_APIC_BASE l' = ?b"
    using assms by (simp add: apic_ap_init_def Let_def store_mode_def u_add_def lapic_ready_def apic_phys_def rdmsr_def wrmsr_def)
  then show ?thesis
    by (auto simp: lapic_woken_def enabled_base_again)
qed

lemma ready_number:
  assumes "lapic_ready l" "lapic_woken ecx l = l"
  shows "\<exists>me. lapic_id dbg ecx l = Ok (me, l)"
  using assms by (auto simp: lapic_id_eq lapic_ready_def load_mode_def lapic_number_def mmio_read_def mmio_def u_add_def)

lemma ap_tables_eq:
  assumes "tb_isrs tb = Some (registry heap S cpus True)"
  shows "\<exists>tb'. ap_tables dbg heap S sel me tb =
     Ok (\<lparr>ct_sel = sel, ct_tss = boot_tss heap (tb_allocs tb), ct_idt = map (boot_gate S sel) [0..<256]\<rparr>, tb') \<and>
     tb_isrs tb' = Some (registry heap S ((Some me, tb_allocs tb) # cpus) True)"
proof -
  let ?tb1 = "tb\<lparr>tb_isrs := Some (registry heap S ((Some me, tb_allocs tb) # cpus) True), tb_allocs := tb_allocs tb + 8\<rparr>"
  have "generate_inner dbg (Some me) ?tb1 = Ok (boot_tss heap (tb_allocs tb), ?tb1)"
    using generate_registry [of ?tb1 heap S "Some me" "tb_allocs tb" cpus True dbg] by simp
  moreover have "build_idt S sel ?tb1 = Ok (map (boot_gate S sel) [0..<256])"
    by (rule build_registry) simp
  ultimately show ?thesis
    by (simp add: ap_tables_def registrate_registry [OF assms])
qed

text \<open>
  A processor that finds the memory \<open>boot_all_aps\<close> prepared loads the kernel's root table, has its interrupt
  controller reachable through the direct map, gets the same gates as the first processor, and sets the flag
  that ends the wait of the first processor.
\<close>

lemma ap_entry_answers:
  assumes "ready_memory E hhdm ab_va ab_pa tramp_virt stk m" "unat ab_va + 56 \<le> 2 ^ 64"
    and "tb_isrs tb = Some (registry (ne_heap N) (ne_stubs N) cpus True)"
    and "unat hhdm + unat (enabled_base ecx (rdmsr MSR_IA32_APIC_BASE l) AND APIC_PHYS_MASK) < 2 ^ 64"
  shows "\<exists>a. ap_entry N ecx ab_va tb l m = Ok a \<and> ap_cr3 a = se_cr3 E \<and> lapic_ready (ap_lapic a) \<and> la_hhdm (ap_lapic a) = hhdm \<and>
    ct_idt (fst (ap_tabs a)) = map (boot_gate (ne_stubs N) (ne_sel N)) [0..<256] \<and>
    wait_ready (\<lambda>i m'. ap_mem a) ab_va 0 WAIT_SPINS m = (True, ap_mem a)"
proof -
  have boot: "ApBoot_read ab_va m = boot_block E hhdm stk"
    using assms(1,2) by (intro ApBoot_roundtrip) (simp_all add: ready_memory_def)
  obtain l1 where l1: "apic_ap_init (ne_dbg N) ecx hhdm l = Ok l1" "lapic_ready l1" "la_hhdm l1 = hhdm" "lapic_woken ecx l1 = l1"
    using ap_lapic_ready [OF assms(4)] by blast
  obtain me where me: "lapic_id (ne_dbg N) ecx l1 = Ok (me, l1)"
    using ready_number [OF l1(2,4)] by blast
  obtain ct tb' where tabs: "ap_tables (ne_dbg N) (ne_heap N) (ne_stubs N) (ne_sel N) me tb = Ok (ct, tb')"
    "ct_idt ct = map (boot_gate (ne_stubs N) (ne_sel N)) [0..<256]"
    using ap_tables_eq [OF assms(3), of "ne_dbg N" "ne_sel N" me] by auto
  let ?m1 = "poke ab_va (le_bytes 4 (1 :: u32)) m"
  have "peek ab_va 4 ?m1 = le_bytes 4 (1 :: u32)"
    using peek_poke [of ab_va "le_bytes 4 (1 :: u32)" m] assms(2) by simp
  then have w: "wait_ready (\<lambda>i m'. ?m1) ab_va 0 WAIT_SPINS m = (True, ?m1)"
    by (simp add: WAIT_SPINS_def numeral_eq_Suc from_le_32 Let_def)
  have "ap_entry N ecx ab_va tb l m =
    Ok \<lparr>ap_cr3 = se_cr3 E, ap_id = Some me, ap_lapic = l1, ap_mem = ?m1, ap_tabs = (ct, tb')\<rparr>"
    by (simp add: ap_entry_def boot boot_block_def l1(1) me tabs(1))
  then show ?thesis
    using l1(2,3) tabs(2) w by simp
qed

end
