(* ===== verification/Serial.thy ===== *)
theory Serial
  imports Prelude
begin

unbundle bit_operations_syntax

text \<open>
  The two serial lines (\<^verbatim>\<open>arch/x86_64/serial.rs\<close>): one for messages, one for the debugger. The port driver is the
  crate \<^verbatim>\<open>uart_16550\<close>, whose operations are the fields of \<open>uart_ops\<close>. Below it, the debug stub's own
  polling transport (\<^verbatim>\<open>debug/rsp/transport.rs\<close>) on the registers of the second line.

  A formatted message is the list of the pieces that the formatting machinery passes to \<open>write_str\<close>.
\<close>

section \<open>Ports\<close>

record 'p uart_ops =
  u_open :: "u16 \<Rightarrow> 'p"
  u_send :: "u8 \<Rightarrow> 'p \<Rightarrow> 'p"
  u_try_send_raw :: "u8 \<Rightarrow> 'p \<Rightarrow> bool \<times> 'p"
  u_try_receive :: "'p \<Rightarrow> u8 option \<times> 'p"

record 'p serial =
  COM1 :: "'p option"
  COM2 :: "'p option"

definition init_com1 :: "'p uart_ops \<Rightarrow> 'p serial \<Rightarrow> 'p serial" where
  "init_com1 U st = st\<lparr>COM1 := Some (u_open U 0x3F8)\<rparr>"

definition init_com2 :: "'p uart_ops \<Rightarrow> 'p serial \<Rightarrow> 'p serial" where
  "init_com2 U st = st\<lparr>COM2 := Some (u_open U 0x2F8)\<rparr>"

definition com1_ready :: "'p serial \<Rightarrow> bool" where
  "com1_ready st \<longleftrightarrow> COM1 st \<noteq> None"

definition com2_ready :: "'p serial \<Rightarrow> bool" where
  "com2_ready st \<longleftrightarrow> COM2 st \<noteq> None"

section \<open>Messages\<close>

primrec send_str :: "'p uart_ops \<Rightarrow> u8 list \<Rightarrow> 'p \<Rightarrow> 'p" where
  "send_str U [] p = p"
| "send_str U (b # bs) p = send_str U bs (u_send U b (if b = 0x0A then u_send U 0x0D p else p))"

text \<open>\<open>True\<close> for \<open>Ok\<close>, \<open>False\<close> for \<open>Err\<close>.\<close>

definition Com1Writer_write_str :: "'p uart_ops \<Rightarrow> u8 list \<Rightarrow> 'p serial \<Rightarrow> bool \<times> 'p serial" where
  "Com1Writer_write_str U s st =
     (case COM1 st of Some port \<Rightarrow> (True, st\<lparr>COM1 := Some (send_str U s port)\<rparr>) | None \<Rightarrow> (False, st))"

definition Com2Writer_write_str :: "'p uart_ops \<Rightarrow> u8 list \<Rightarrow> 'p serial \<Rightarrow> bool \<times> 'p serial" where
  "Com2Writer_write_str U s st =
     (case COM2 st of Some port \<Rightarrow> (True, st\<lparr>COM2 := Some (send_str U s port)\<rparr>) | None \<Rightarrow> (False, st))"

text \<open>\<open>write_fmt\<close> stops at the first piece that fails.\<close>

primrec write_fmt :: "(u8 list \<Rightarrow> 'p serial \<Rightarrow> bool \<times> 'p serial) \<Rightarrow> u8 list list \<Rightarrow> 'p serial \<Rightarrow> bool \<times> 'p serial" where
  "write_fmt w [] st = (True, st)"
| "write_fmt w (s # ss) st = (let (ok, st1) = w s st in if ok then write_fmt w ss st1 else (False, st1))"

definition kprint :: "'p uart_ops \<Rightarrow> u8 list list \<Rightarrow> 'p serial \<Rightarrow> 'p serial" where
  "kprint U args st = (if \<not> com1_ready st then st else snd (write_fmt (Com1Writer_write_str U) args st))"

definition kprint2 :: "'p uart_ops \<Rightarrow> u8 list list \<Rightarrow> 'p serial \<Rightarrow> 'p serial" where
  "kprint2 U args st = (if \<not> com2_ready st then st else snd (write_fmt (Com2Writer_write_str U) args st))"

definition kprintln :: "'p uart_ops \<Rightarrow> u8 list list \<Rightarrow> 'p serial \<Rightarrow> 'p serial" where
  "kprintln U args st = kprint U [[0x0A]] (kprint U args st)"

definition dprintln :: "'p uart_ops \<Rightarrow> u8 list list \<Rightarrow> 'p serial \<Rightarrow> 'p serial" where
  "dprintln U args st = kprint2 U [[0x0A]] (kprint2 U args st)"

section \<open>Bytes\<close>

definition com1_putc :: "'p uart_ops \<Rightarrow> u8 \<Rightarrow> 'p serial \<Rightarrow> 'p serial" where
  "com1_putc U b st = (case COM1 st of Some p \<Rightarrow> st\<lparr>COM1 := Some (snd (u_try_send_raw U b p))\<rparr> | None \<Rightarrow> st)"

definition com1_write :: "'p uart_ops \<Rightarrow> u8 list \<Rightarrow> 'p serial \<Rightarrow> 'p serial" where
  "com1_write U bs st =
     (case COM1 st of Some p \<Rightarrow> st\<lparr>COM1 := Some (fold (\<lambda>b q. snd (u_try_send_raw U b q)) bs p)\<rparr> | None \<Rightarrow> st)"

definition com1_getc_nb :: "'p uart_ops \<Rightarrow> 'p serial \<Rightarrow> u8 option \<times> 'p serial" where
  "com1_getc_nb U st =
     (case COM1 st of
        Some p \<Rightarrow> let (r, q) = u_try_receive U p in (r, st\<lparr>COM1 := Some q\<rparr>)
      | None \<Rightarrow> (None, st))"

text \<open>The blocking read polls until a byte is there; it does not return when none ever is.\<close>

partial_function (option) com1_getc_block :: "'p uart_ops \<Rightarrow> 'p serial \<Rightarrow> (u8 \<times> 'p serial) option" where
  "com1_getc_block U st =
     (let (r, st1) = com1_getc_nb U st in case r of Some b \<Rightarrow> Some (b, st1) | None \<Rightarrow> com1_getc_block U st1)"

definition com2_putc :: "'p uart_ops \<Rightarrow> u8 \<Rightarrow> 'p serial \<Rightarrow> 'p serial" where
  "com2_putc U b st = (case COM2 st of Some p \<Rightarrow> st\<lparr>COM2 := Some (snd (u_try_send_raw U b p))\<rparr> | None \<Rightarrow> st)"

definition com2_write :: "'p uart_ops \<Rightarrow> u8 list \<Rightarrow> 'p serial \<Rightarrow> 'p serial" where
  "com2_write U bs st =
     (case COM2 st of Some p \<Rightarrow> st\<lparr>COM2 := Some (fold (\<lambda>b q. snd (u_try_send_raw U b q)) bs p)\<rparr> | None \<Rightarrow> st)"

definition com2_getc_nb :: "'p uart_ops \<Rightarrow> 'p serial \<Rightarrow> u8 option \<times> 'p serial" where
  "com2_getc_nb U st =
     (case COM2 st of
        Some p \<Rightarrow> let (r, q) = u_try_receive U p in (r, st\<lparr>COM2 := Some q\<rparr>)
      | None \<Rightarrow> (None, st))"

partial_function (option) com2_getc_block :: "'p uart_ops \<Rightarrow> 'p serial \<Rightarrow> (u8 \<times> 'p serial) option" where
  "com2_getc_block U st =
     (let (r, st1) = com2_getc_nb U st in case r of Some b \<Rightarrow> Some (b, st1) | None \<Rightarrow> com2_getc_block U st1)"

definition BANNER_OPEN :: "u8 list" where
  "BANNER_OPEN = 0x0A # map of_char ''---[ ''"

definition BANNER_CLOSE :: "u8 list" where
  "BANNER_CLOSE = map of_char '' ]---'' @ [0x0A]"

definition banner_com1 :: "'p uart_ops \<Rightarrow> u8 list \<Rightarrow> 'p serial \<Rightarrow> 'p serial" where
  "banner_com1 U s st = com1_write U BANNER_CLOSE (com1_write U s (com1_write U BANNER_OPEN st))"

definition banner_com2 :: "'p uart_ops \<Rightarrow> u8 list \<Rightarrow> 'p serial \<Rightarrow> 'p serial" where
  "banner_com2 U s st = com2_write U BANNER_CLOSE (com2_write U s (com2_write U BANNER_OPEN st))"

section \<open>What reaches the lines\<close>

primrec crlf :: "u8 list \<Rightarrow> u8 list" where
  "crlf [] = []"
| "crlf (b # bs) = (if b = 0x0A then [0x0D, 0x0A] else [b]) @ crlf bs"

lemma crlf_append: "crlf (xs @ ys) = crlf xs @ crlf ys"
  by (induction xs) simp_all

lemma send_str_crlf: "send_str U s p = fold (u_send U) (crlf s) p"
  by (induction s arbitrary: p) simp_all

lemma write_fmt_com1:
  "COM1 st = Some p \<Longrightarrow> write_fmt (Com1Writer_write_str U) args st = (True, st\<lparr>COM1 := Some (fold (u_send U) (crlf (concat args)) p)\<rparr>)"
  by (induction args arbitrary: st p) (simp_all add: Com1Writer_write_str_def send_str_crlf crlf_append)

lemma write_fmt_com2:
  "COM2 st = Some p \<Longrightarrow> write_fmt (Com2Writer_write_str U) args st = (True, st\<lparr>COM2 := Some (fold (u_send U) (crlf (concat args)) p)\<rparr>)"
  by (induction args arbitrary: st p) (simp_all add: Com2Writer_write_str_def send_str_crlf crlf_append)

text \<open>A message line reaches its own port whole, with every line feed preceded by a carriage return, and no other.\<close>

lemma kprintln_sends:
  "kprintln U args st = st\<lparr>COM1 := map_option (fold (u_send U) (crlf (concat args @ [0x0A]))) (COM1 st)\<rparr>"
  by (cases "COM1 st") (simp_all add: kprintln_def kprint_def com1_ready_def write_fmt_com1 crlf_append Com1Writer_write_str_def)

lemma dprintln_sends:
  "dprintln U args st = st\<lparr>COM2 := map_option (fold (u_send U) (crlf (concat args @ [0x0A]))) (COM2 st)\<rparr>"
  by (cases "COM2 st") (simp_all add: dprintln_def kprint2_def com2_ready_def write_fmt_com2 crlf_append Com2Writer_write_str_def)

section \<open>The debugger's transport\<close>

text \<open>
  The registers of the second line: for how many more polls the transmitter reports to be busy, what
  was sent, and the bytes that will arrive, each after some polls of its own. How long the transmitter is
  busy after a byte is a parameter.
\<close>

record line2 =
  l2_tx_busy :: nat
  l2_sent :: "u8 list"
  l2_coming :: "(nat \<times> u8) list"

function Com2Transport_putc :: "nat \<Rightarrow> u8 \<Rightarrow> line2 \<Rightarrow> line2" where
  "Com2Transport_putc lat b l =
     (if 0 < l2_tx_busy l then Com2Transport_putc lat b (l\<lparr>l2_tx_busy := l2_tx_busy l - 1\<rparr>)
      else l\<lparr>l2_tx_busy := lat, l2_sent := l2_sent l @ [b]\<rparr>)"
  by pat_completeness auto
termination
  by (relation "measure (\<lambda>(lat, b, l). l2_tx_busy l)") auto

declare Com2Transport_putc.simps [simp del]

partial_function (option) Com2Transport_getc_block :: "line2 \<Rightarrow> (u8 \<times> line2) option" where
  "Com2Transport_getc_block l =
     (case l2_coming l of
        (0, b) # rest \<Rightarrow> Some (b, l\<lparr>l2_coming := rest\<rparr>)
      | (Suc n, b) # rest \<Rightarrow> Com2Transport_getc_block (l\<lparr>l2_coming := (n, b) # rest\<rparr>)
      | [] \<Rightarrow> Com2Transport_getc_block l)"

declare Com2Transport_getc_block.simps [simp del]

lemma putc_sends: "Com2Transport_putc lat b l = l\<lparr>l2_tx_busy := lat, l2_sent := l2_sent l @ [b]\<rparr>"
proof (induction "l2_tx_busy l" arbitrary: l)
  case 0
  then show ?case
    by (subst Com2Transport_putc.simps) simp
next
  case (Suc n)
  then show ?case
    using Suc.hyps(1) [of "l\<lparr>l2_tx_busy := n\<rparr>"] by (subst Com2Transport_putc.simps) (simp flip: Suc.hyps(2))
qed

text \<open>Whatever the polls, a read returns the next byte of the input, in order and unchanged, which is how the stub sees the line.\<close>

lemma getc_reads: "l2_coming l = (n, b) # rest \<Longrightarrow> Com2Transport_getc_block l = Some (b, l\<lparr>l2_coming := rest\<rparr>)"
proof (induction n arbitrary: l)
  case 0
  then show ?case
    by (subst Com2Transport_getc_block.simps) simp
next
  case (Suc n)
  then show ?case
    using Suc.IH [of "l\<lparr>l2_coming := (n, b) # rest\<rparr>"] by (subst Com2Transport_getc_block.simps) simp
qed

section \<open>The loader's line\<close>

text \<open>
  The loader (\<^verbatim>\<open>jotunboot/src/main.rs\<close>) programs the first line itself and polls before each byte: the port writes
  of \<open>serial_init\<close>, and \<open>serial_line\<close> on a line as above.
\<close>

definition serial_init :: "(u16 \<times> u8) list \<Rightarrow> (u16 \<times> u8) list" where
  "serial_init out =
     out @ [(0x3F8 + 1, 0), (0x3F8 + 3, 0x80), (0x3F8 + 0, 0x01), (0x3F8 + 1, 0x00), (0x3F8 + 3, 0x03), (0x3F8 + 2, 0xC7), (0x3F8 + 4, 0x0B)]"

function serial_putc :: "nat \<Rightarrow> u8 \<Rightarrow> line2 \<Rightarrow> line2" where
  "serial_putc lat c l =
     (if l2_tx_busy l = 0 then l\<lparr>l2_tx_busy := lat, l2_sent := l2_sent l @ [c]\<rparr>
      else serial_putc lat c (l\<lparr>l2_tx_busy := l2_tx_busy l - 1\<rparr>))"
  by pat_completeness auto
termination
  by (relation "measure (\<lambda>(lat, c, l). l2_tx_busy l)") auto

declare serial_putc.simps [simp del]

definition serial_line :: "nat \<Rightarrow> u8 list \<Rightarrow> line2 \<Rightarrow> line2" where
  "serial_line lat s l = serial_putc lat 0x0A (serial_putc lat 0x0D (fold (serial_putc lat) s l))"

lemma serial_putc_sends: "serial_putc lat c l = l\<lparr>l2_tx_busy := lat, l2_sent := l2_sent l @ [c]\<rparr>"
proof (induction "l2_tx_busy l" arbitrary: l)
  case 0
  then show ?case
    by (subst serial_putc.simps) simp
next
  case (Suc n)
  then show ?case
    using Suc.hyps(1) [of "l\<lparr>l2_tx_busy := n\<rparr>"] by (subst serial_putc.simps) (simp flip: Suc.hyps(2))
qed

lemma serial_line_sends: "l2_sent (serial_line lat s l) = l2_sent l @ s @ [0x0D, 0x0A]"
proof -
  have "l2_sent (fold (serial_putc lat) s l) = l2_sent l @ s"
    by (induction s arbitrary: l) (simp_all add: serial_putc_sends)
  then show ?thesis
    by (simp add: serial_line_def serial_putc_sends)
qed

end
