(* ===== verification/Kernel_Start.thy ===== *)
theory Kernel_Start
  imports Native Serial
begin

unbundle bit_operations_syntax

text \<open>
  The kernel's entry point, \<open>_start\<close> in \<^verbatim>\<open>main.rs\<close>, up to the call of \<open>debug::setup\<close>: it composes the start-up
  of the components in the order of the code.

  The addresses of linker symbols and of the thread functions, and those of the thread stacks and
  closures on the heap, are fields of \<open>start_env\<close>.
\<close>

section \<open>The entry point\<close>

record ('pt, 'h, 'p) start_env =
  se_kenv :: "('pt, 'h) kenv"
  se_uart :: "'p uart_ops"
  se_native :: native_env
  se_bss_start :: u64
  se_bss_end :: u64
  se_k_start :: u64
  se_k_end :: u64
  se_kernel_cs :: SpawnCtx
  se_idle_stack :: u64
  se_idle_main :: u64
  se_reaper_stack :: u64
  se_reaper_main :: u64
  se_reaper :: u64
  se_main_stack :: u64
  se_main_main :: u64
  se_main :: u64

record ('pt, 'h, 'p) kernel =
  kn_mem :: "('pt, 'h) MemState"
  kn_serial :: "'p serial"
  kn_machine :: machine
  kn_sched :: Sched

definition LOADED :: "u8 list" where
  "LOADED = map of_char ''[JOTUNHEIM] Loaded the kernel.''"

definition kernel_start :: "('pt, 'h, 'p) start_env \<Rightarrow> BootInfo \<Rightarrow> ('pt, 'h, 'p) kernel \<Rightarrow> ('pt, 'h, 'p) kernel res" where
  "kernel_start Z boot kn =
     (let K = se_kenv Z; U = se_uart Z; dbg = ke_dbg K; ctx = se_kernel_cs Z in
      rbind (zero_bss dbg (se_bss_start Z) (se_bss_end Z) (km_mem (kn_mem kn))) (\<lambda>m.
      let ser = kprintln U [LOADED] (init_com2 U (init_com1 U (kn_serial kn))) in
      rbind (boot_frames K (se_k_start Z) (se_k_end Z) boot ((kn_mem kn)\<lparr>km_mem := m\<rparr>)) (\<lambda>st1.
      rbind (init_heap K st1) (\<lambda>st2.
      rbind (enforce_apic_mmio_flags K st2) (\<lambda>st3.
      rbind (native_init (se_native Z) (hhdm_base boot) (kn_machine kn)) (\<lambda>mc.
      rbind (sched_init dbg ctx (se_idle_stack Z) (se_idle_main Z) (se_reaper_stack Z) (se_reaper_main Z) (se_reaper Z) (kn_sched kn)) (\<lambda>s1.
      rbind (spawn_kthread dbg ctx (se_main_stack Z) (se_main_main Z) (se_main Z) s1) (\<lambda>(tid, s2).
        Ok (kn\<lparr>kn_mem := st3, kn_serial := ser, kn_machine := mc, kn_sched := s2\<rparr>)))))))))"

section \<open>Memory\<close>

text \<open>Changing the flags of a mapping does not change what it maps.\<close>

definition flags_api :: "'pt x86_ops \<Rightarrow> bool" where
  "flags_api X \<longleftrightarrow> (\<forall>page flags pt pt'. x_update_flags X page flags pt = Some pt' \<longrightarrow> x_translate X pt' = x_translate X pt)"

lemma boot_frames_pt:
  assumes "boot_frames K k_start k_end boot st = Ok st'"
  shows "km_pt st' = km_pt st" "km_mem st' = km_mem st"
  using assms by (auto simp: boot_frames_def mem_init_def Let_def split: if_splits)

lemma boot_frames_seeded:
  assumes "kenv_ok K" "boot_fits k_start k_end boot" "boot_layout_ok boot"
  shows "\<exists>st'. boot_frames K k_start k_end boot st = Ok st' \<and> frames_ok K st' \<and> translation K st' = translation K st \<and> km_mem st' = km_mem st \<and>
    kpool st' = (early_heap_pages boot \<union> usable_pages (memory_map boot)) - boot_reserved_pages k_start k_end boot"
proof -
  obtain st' where st': "boot_frames K k_start k_end boot st = Ok st'"
    "guard_inv (ke_usable_vec K) (x_phys_frame (ke_x86 K)) (km_resv st') (km_frames st')"
    "kpool st' = (early_heap_pages boot \<union> usable_pages (memory_map boot)) - boot_reserved_pages k_start k_end boot"
    using boot_frames_ok [OF assms, of st] unfolding kpool_def by blast
  moreover have "frame_alloc (km_frames st') \<noteq> None"
    by (rule boot_frames_bump [OF st'(1) assms(3)]) simp
  ultimately show ?thesis
    using boot_frames_pt [OF st'(1)] by (simp add: frames_ok_def seeded_inv_def translation_def)
qed

lemma enforce_flags_keeps:
  assumes "mapper_api (ke_x86 K)" "flags_api (ke_x86 K)" "canonical va"
  shows "\<exists>pt. enforce_mmio_flags K va st = Ok (st\<lparr>km_pt := pt\<rparr>) \<and> x_translate (ke_x86 K) pt = x_translate (ke_x86 K) (km_pt st)"
proof -
  have "x_virt_page (ke_x86 K) va = Ok (va AND NOT 0xFFF)"
    using assms(1,3) unfolding mapper_api_def by blast
  then show ?thesis
    using assms(2) unfolding enforce_mmio_flags_def flags_api_def
    by (cases "x_update_flags (ke_x86 K) (va AND NOT 0xFFF) {PRESENT, WRITABLE, NO_EXECUTE, WRITE_THROUGH, NO_CACHE} (km_pt st)")
      (rule exI [of _ "km_pt st"], simp, rule_tac x = a in exI, simp)
qed

lemma enforce_apic_keeps:
  assumes "mapper_api (ke_x86 K)" "flags_api (ke_x86 K)"
  shows "\<exists>pt. enforce_apic_mmio_flags K st = Ok (st\<lparr>km_pt := pt\<rparr>) \<and> x_translate (ke_x86 K) pt = x_translate (ke_x86 K) (km_pt st)"
proof -
  have c: "canonical 0xFEC00000" "canonical 0xFEE00000"
    by (simp_all add: canonical_def)
  obtain pt where pt: "enforce_mmio_flags K 0xFEC00000 st = Ok (st\<lparr>km_pt := pt\<rparr>)" "x_translate (ke_x86 K) pt = x_translate (ke_x86 K) (km_pt st)"
    using enforce_flags_keeps [OF assms c(1)] by blast
  then show ?thesis
    using enforce_flags_keeps [OF assms c(2), of "st\<lparr>km_pt := pt\<rparr>"] by (auto simp: enforce_apic_mmio_flags_def)
qed

text \<open>The part of the start-up that concerns memory.\<close>

lemma memory_started:
  assumes "kenv_ok K" "mapper_api (ke_x86 K)" "flags_api (ke_x86 K)" "boot_fits k_start k_end boot" "boot_layout_ok boot"
    and "\<forall>i<0x2000. translation K st (KHEAP_START + page_off i) = None"
    and "0x8000 \<le> card ((early_heap_pages boot \<union> usable_pages (memory_map boot)) - boot_reserved_pages k_start k_end boot)"
  shows "\<exists>fs st1 st2 st3. boot_frames K k_start k_end boot st = Ok st1 \<and> init_heap K st1 = Ok st2 \<and> enforce_apic_mmio_flags K st2 = Ok st3 \<and>
    frames_ok K st3 \<and> km_heap_ready st3 \<and> length fs = 0x2000 \<and> distinct fs \<and>
    unat ` set fs \<subseteq> (early_heap_pages boot \<union> usable_pages (memory_map boot)) - boot_reserved_pages k_start k_end boot \<and>
    kpool st3 \<inter> unat ` set fs = {} \<and> translation K st3 = window_map KHEAP_START fs (translation K st)"
proof -
  obtain st1 where st1: "boot_frames K k_start k_end boot st = Ok st1" "frames_ok K st1" "translation K st1 = translation K st"
    "kpool st1 = (early_heap_pages boot \<union> usable_pages (memory_map boot)) - boot_reserved_pages k_start k_end boot"
    using boot_frames_seeded [OF assms(1,4,5)] by blast
  obtain fs h where h: "init_heap K st1 = Ok (h\<lparr>km_heap := h_init (ke_heap K) KHEAP_START KHEAP_SIZE, km_mapped_end := KHEAP_START, km_heap_ready := True\<rparr>)"
    "frames_ok K h" "length fs = 0x2000" "distinct fs" "unat ` set fs \<subseteq> kpool st1" "kpool h \<subseteq> kpool st1 - unat ` set fs"
    "translation K h = window_map KHEAP_START fs (translation K st1)"
    using init_heap_maps [OF assms(2) st1(2)] assms(6,7) st1(3,4) by auto
  let ?st2 = "h\<lparr>km_heap := h_init (ke_heap K) KHEAP_START KHEAP_SIZE, km_mapped_end := KHEAP_START, km_heap_ready := True\<rparr>"
  obtain pt where "enforce_apic_mmio_flags K ?st2 = Ok (?st2\<lparr>km_pt := pt\<rparr>)" "x_translate (ke_x86 K) pt = x_translate (ke_x86 K) (km_pt h)"
    using enforce_apic_keeps [OF assms(2,3), of ?st2] by auto
  then show ?thesis
    using st1 h by (intro exI [of _ fs] exI [of _ st1] exI [of _ ?st2] exI [of _ "?st2\<lparr>km_pt := pt\<rparr>"])
      (auto simp: frames_ok_def kpool_def translation_def)
qed

section \<open>Tasks\<close>

lemma sched_started:
  assumes "sd_rq s = None" "stack_ok base0" "stack_ok base1" "stack_ok base2"
  shows "\<exists>s1 tid s2. sched_init dbg ctx base0 idle_main base1 thread_main reaper s = Ok s1 \<and>
    spawn_kthread dbg ctx base2 entry arg s1 = Ok (tid, s2) \<and> sched_reachable dbg ctx s2 \<and>
    map t_id (rq_tasks (queue s2)) = [2, 1, 0] \<and> map t_state (rq_tasks (queue s2)) = [Ready, Ready, Ready]"
proof -
  obtain f0 where f0: "thread_frame dbg base0 = Ok f0"
    by (rule thread_frame_eq [OF assms(2)])
  obtain f1 where f1: "thread_frame dbg base1 = Ok f1"
    by (rule thread_frame_eq [OF assms(3)])
  let ?rq = "\<lparr>rq_tasks = [new_task ctx base1 f1 1, new_task ctx base0 f0 0], rq_current = None, rq_next_id = 2, rq_need_resched = True\<rparr>"
  have "\<exists>s1. sched_init dbg ctx base0 idle_main base1 thread_main reaper s = Ok s1 \<and> queue s1 = ?rq"
    using assms(1) by (simp add: sched_init_def insert_idle_def spawn_kthread_def f0 f1 with_rq_locked_eq write_frame_def queue_def empty_rq_def
        u_add_def Let_def)
  then obtain s1 where s1: "sched_init dbg ctx base0 idle_main base1 thread_main reaper s = Ok s1" "queue s1 = ?rq"
    by blast
  have r: "sched_reachable dbg ctx s1"
    by (rule reach_init [OF assms(1-3) s1(1)])
  have room: "unat (rq_next_id (queue s1)) + 1 < 2 ^ 64"
    by (simp add: s1(2))
  obtain f2 s2 where s2: "spawn_kthread dbg ctx base2 entry arg s1 = Ok (rq_next_id (queue s1), s2)" "queue s2 = spawned ctx base2 f2 (queue s1)"
    by (rule spawn_ok [OF sched_reachable_inv [OF r] assms(4) room, of dbg ctx entry arg]) blast
  have "sched_reachable dbg ctx s2"
    by (rule reach_step [OF r step_spawn [OF assms(4) room s2(1)]])
  then show ?thesis
    using s1(1) s2 by (simp add: s1(2) spawned_def new_task_def)
qed

section \<open>All of it\<close>

text \<open>What the start-up relies on: the machine as the loader leaves it, and room for the heap and the stacks.\<close>

definition start_ok :: "('pt, 'h, 'p) start_env \<Rightarrow> BootInfo \<Rightarrow> ('pt, 'h, 'p) kernel \<Rightarrow> bool" where
  "start_ok Z boot kn \<longleftrightarrow>
     boot_fits (se_k_start Z) (se_k_end Z) boot \<and> boot_layout_ok boot \<and> se_bss_start Z \<le> se_bss_end Z \<and>
     (\<forall>i<0x2000. translation (se_kenv Z) (kn_mem kn) (KHEAP_START + page_off i) = None) \<and>
     0x8000 \<le> card ((early_heap_pages boot \<union> usable_pages (memory_map boot)) - boot_reserved_pages (se_k_start Z) (se_k_end Z) boot) \<and>
     la_hhdm (mc_lapic (kn_machine kn)) = 0 \<and> unat (hhdm_base boot) + unat APIC_PHYS_MASK < 2 ^ 64 \<and>
     sd_rq (kn_sched kn) = None \<and> stack_ok (se_idle_stack Z) \<and> stack_ok (se_reaper_stack Z) \<and> stack_ok (se_main_stack Z)"

lemma phys_room: "unat hhdm + unat APIC_PHYS_MASK < 2 ^ 64 \<Longrightarrow> unat hhdm + unat (b AND APIC_PHYS_MASK) < 2 ^ 64"
  using word_and_le1 [of b APIC_PHYS_MASK] by (simp add: word_le_nat_alt)

end
