(* ===== verification/Spec2Isabelle.thy ===== *)
theory Spec2Isabelle
  imports Boot_Chain Rsp_Types Kernel_Start
begin

text \<open>
  Verification of Jotunheim, an x86-64 kernel (\<^verbatim>\<open>src/jotunheimkernel\<close>) with its UEFI boot loader
  (\<^verbatim>\<open>src/jotunboot\<close>).

  \<^bold>\<open>The program.\<close> The loader reads the kernel's ELF file, copies its segments, builds page tables and a boot record
  and jumps to the kernel. The kernel's \<open>_start\<close> reserves and seeds physical memory, sets up the heap, brings up the
  processor's units, queues the first tasks and enables the timer. From then on the timer interrupt drives the
  scheduler; the main thread starts the work queue and the other processors; a breakpoint or a fault enters the
  debugger stub, which talks the GDB remote protocol over the second serial line.

  \<^bold>\<open>Conventions.\<close> A Rust function is a HOL function on explicit state. A panic is the value \<open>Panic p\<close> of type \<open>'a res\<close>
  (\<open>Prelude\<close>), whose \<open>p\<close> tells overflow, an index out of range, an \<open>unwrap\<close> of nothing, an explicit stop, and a write
  through a raw pointer past its buffer apart. Integers keep their width; \<open>dbg\<close> is \<^verbatim>\<open>cfg!(debug_assertions)\<close>, so that \<open>u_add dbg\<close> panics or wraps
  as the two build profiles do. Structures are records with the fields of the source, statics are fields of the
  state record of their component. Locks are not modelled as such: an operation that holds its lock with interrupts off is one step.
  Names are those of the source; a suffix or prefix is added where a name occurs twice or belongs to HOL.

  \<^bold>\<open>Theories and code.\<close>

  \<^item> \<open>Prelude\<close>, \<open>Bytes\<close>: results, machine arithmetic, page alignment, little-endian bytes, the bounded vector.
  \<^item> \<open>Bootinfo\<close>: the boot record, \<^verbatim>\<open>bootinfo.rs\<close>.
  \<^item> \<open>Boot_Loader\<close>, \<open>Boot_Paging\<close>: the operations of \<^verbatim>\<open>jotunboot/src/main.rs\<close>, from the parsed file to the jump.
    \<open>Page_Walk\<close> is the hardware's view of the tables as a tree with an invariant, \<open>Boot_Map\<close> the effect of one mapping, \<open>Boot_Space\<close>,
    \<open>Boot_Hhdm\<close>, \<open>Boot_Direct\<close> that of the loops (locales \<open>page_loop\<close> and \<open>block_loop\<close>, interpreted for each loop of the
    code), \<open>Boot_Build\<close> and \<open>Boot_Exec\<close> the resulting address space, \<open>Boot_Image\<close> and \<open>Boot_Handoff\<close> the whole run.
  \<^item> \<open>Reserved\<close>, \<open>Frame_Alloc\<close>, \<open>Kernel_Mem\<close>, \<open>Kernel_Windows\<close>: \<^verbatim>\<open>mem/reserved.rs\<close>, \<^verbatim>\<open>mem/simple_alloc.rs\<close>, \<^verbatim>\<open>mem/mod.rs\<close>, \<^verbatim>\<open>mmio_map.rs\<close>. The
    locale \<open>frame_source\<close> is the contract of a frame allocator; bump, fallback and guard are interpretations.
    \<open>Boot_Chain\<close> joins loader and frame allocator.
  \<^item> \<open>Trap_Frame\<close>, \<open>Scheduler\<close>, \<open>Sched_Inv\<close>, \<open>Sched_Run\<close>, \<open>Sched_Props\<close>: \<^verbatim>\<open>context.rs\<close> and \<^verbatim>\<open>sched/mod.rs\<close>, with a step relation, reachability, and the locale \<open>rotation\<close>
    for round-robin. \<open>Exec_Queue\<close>: \<^verbatim>\<open>sched/exec.rs\<close>.
  \<^item> \<open>Rsp_Packet\<close>, \<open>Rsp_Frames\<close>, \<open>Rsp_Regs\<close>, \<open>Debug_Mem\<close>, \<open>Breakpoint\<close>, \<open>Breakpoint_Spec\<close>, \<open>Rsp_Server\<close>: \<^verbatim>\<open>debug/\<close> and the handlers that enter it;
    the locale \<open>patch_store\<close> is the contract of the breakpoint table. \<open>Rsp_Props\<close>, \<open>Rsp_Break\<close>, \<open>Rsp_Mem\<close>, \<open>Rsp_Types\<close> are about whole sessions.
  \<^item> \<open>Madt\<close>, \<open>Madt_Props\<close>: \<^verbatim>\<open>acpi/\<close>. \<open>Tables\<close>: \<^verbatim>\<open>arch/x86_64/tables\<close>. \<open>Apic\<close>, \<open>Apic_Props\<close>: \<^verbatim>\<open>apic.rs\<close>. \<open>Devices\<close>: \<^verbatim>\<open>ioapic.rs\<close>, \<^verbatim>\<open>tsc.rs\<close>.
    \<open>Serial\<close>: \<^verbatim>\<open>serial.rs\<close>, \<^verbatim>\<open>debug/rsp/transport.rs\<close> and the loader's line. \<open>Simd\<close>: \<^verbatim>\<open>simd/\<close> and the loader's \<^verbatim>\<open>simd.rs\<close>.
    \<open>Smp\<close>, \<open>Smp_Props\<close>: \<^verbatim>\<open>smp.rs\<close>.
  \<^item> \<open>Native\<close>, \<open>Kernel_Start\<close>: \<^verbatim>\<open>arch/x86_64/mod.rs\<close>, the timer handler, \<open>ap_entry\<close>, and \<open>_start\<close> of \<^verbatim>\<open>main.rs\<close>.

  \<^bold>\<open>What is shown.\<close>

  \<^item> Start-up: the loader reaches the kernel with every segment byte, the direct map and the boot record in place
    (\<open>loader_hands_over\<close>) in exactly the address space it means to build (\<open>build_address_space\<close>); \<open>_start\<close> reaches the
    point where it enables interrupts (\<open>kernel_starts\<close> below).
  \<^item> Memory: reserved pages are exactly those of the boot record; frames are handed out at most once, unreserved,
    and as long as one is free; windows and heap are backed by frames of their own. The live page tables are, however,
    in the pool (\<open>live_root_table_in_pool\<close>), and the early heap is not (\<open>early_heap_withheld\<close>).
  \<^item> Scheduling: no reachable state panics, every task runs within a bound, contexts resume unchanged, the tick
    refines round-robin; a task that exits runs again (\<open>exited_task_runs_again\<close>).
  \<^item> Debugging: packets, registers and memory read back as written; a session changes only what the policy allows;
    breakpoints never lose program bytes; the stub is type safe. What goes wrong is stated as well: stale
    breakpoints, a read that leaves its buffer, a refused write that happens.
  \<^item> Processors: discovery is exact for well-formed tables, exactly the enabled processors are started, each with
    its own stack, and each answers (\<open>ap_entry_answers\<close>); the gates lead where they should, the stacks they switch to do not
    (\<open>interrupt_stacks_shifted\<close>); XSAVE is never enabled (\<open>xsave_never_enabled\<close>).

  \<^bold>\<open>Parameters.\<close> Firmware calls, the \<^verbatim>\<open>x86_64\<close> crate's mapper, the heap, vector and deque crates, the port driver, CPUID, the
  assembled trampoline, stub addresses and linker symbols are arguments of the definitions. What is assumed of
  them is a named predicate (\<open>mapper_api\<close>, \<open>flags_api\<close>, \<open>heap_api\<close>, \<open>hvec_api\<close>, \<open>deque_api\<close>, \<open>phys_frame_api\<close>, \<open>firmware_ok\<close>), and every theorem that
  uses one has a witness on a concrete instance.

  \<^bold>\<open>Loops and bounds.\<close> No fuel is used for loops that end: they are recursive functions with a termination proof. A counter that would wrap in a release
  build, where the loop of the code never ends, is \<open>Panic CounterWrapped\<close>. Hardware waits end after a number of polls
  that is a parameter (\<open>lat\<close> in \<open>Apic\<close>, the poll counts in \<open>Serial\<close>); the wait for another processor has the
  bound of the code, 4000. Blocking reads are partial functions with value \<open>None\<close> when nothing ever arrives; a
  debugger session that runs out of input is \<open>Ok None\<close>.

  \<^bold>\<open>Not modelled.\<close> The assembly files (interrupt entry, thread entry, processor trampoline): only their addresses and
  bytes occur. Loading of descriptor, segment and control registers other than as state read by later code. The loader's
  file access and log messages, the text of the kernel's messages other than the first, panic handlers and halt loops. Interleaving of
  several processors on one lock. The bytes of saved vector state: \<open>Simd\<close> records which instructions run. The build scripts.
\<close>

unbundle bit_operations_syntax

section \<open>The kernel starts\<close>


section \<open>Applied\<close>

definition start_boot :: BootInfo where
  "start_boot = example_boot\<lparr>memory_map := [\<lparr>phys_start = 0x100000, virt_start = 0, mr_len = 0x10000000, mr_typ = 1, mr_attr = 0\<rparr>],
     early_heap_paddr := 0x10100000\<rparr>"

definition start_native :: native_env where
  "start_native = \<lparr>ne_dbg = True, ne_cpuid = avx_cpu, ne_heap = (\<lambda>n. 0xFFFFC00000000000 + 0x20000 * of_nat n),
     ne_stubs = \<lparr>default_stub = 0x1000, timer_stub = 0x1010, spurious_stub = 0x1020, db_stub = 0x1030, bp_stub = 0x1040, gp_stub = 0x1050,
       pf_stub = 0x1060, df_stub = 0x1070, ud_stub = 0x1080\<rparr>,
     ne_sel0 = \<lparr>sel_code = 8, sel_data = 16, sel_tss = 24\<rparr>, ne_sel = \<lparr>sel_code = 8, sel_data = 16, sel_tss = 24\<rparr>\<rparr>"

definition start_env0 :: "(u64 \<Rightarrow> u64 option, unit, u8 list) start_env" where
  "start_env0 = \<lparr>se_kenv = table_kenv, se_uart = \<lparr>u_open = (\<lambda>p. []), u_send = (\<lambda>b p. p @ [b]), u_try_send_raw = (\<lambda>b p. (True, p @ [b])),
       u_try_receive = (\<lambda>p. (None, p))\<rparr>,
     se_native = start_native, se_bss_start = 0x1000, se_bss_end = 0x1004, se_k_start = 0, se_k_end = 0x5000,
     se_kernel_cs = example_ctx, se_idle_stack = 0x100000, se_idle_main = 0x1000, se_reaper_stack = 0x200000, se_reaper_main = 0x2000,
     se_reaper = 0x3000, se_main_stack = 0x300000, se_main_main = 0x4000, se_main = 0x5000\<rparr>"

definition kernel0 :: "(u64 \<Rightarrow> u64 option, unit, u8 list) kernel" where
  "kernel0 = \<lparr>kn_mem = table_mem, kn_serial = \<lparr>COM1 = None, COM2 = None\<rparr>,
     kn_machine = \<lparr>mc_fpu = fpu0, mc_ioapic = \<lparr>io_sel = 0, io_regs = (\<lambda>r. 0)\<rparr>, mc_lapic = lapic0\<lparr>la_hhdm := 0, la_mode := 0\<rparr>, mc_tables = None\<rparr>,
     kn_sched = \<lparr>sd_rq = None, sd_mem = (\<lambda>a. 0)\<rparr>\<rparr>"

lemma start_pool: "0x8000 \<le> card ((early_heap_pages start_boot \<union> usable_pages (memory_map start_boot)) - boot_reserved_pages 0 0x5000 start_boot)"
  (is "_ \<le> card ?P")
proof -
  have "(\<lambda>i. 0x300000 + 4096 * i) ` {..<0x8000} \<subseteq> ?P"
    by (auto simp: start_boot_def example_boot_def usable_pages_def boot_reserved_pages_def covers_def firmware_pages_def firmware_region_def)
  moreover have "finite ?P"
    by (rule finite_subset [of _ "{..<0x20000000}"])
      (auto simp: start_boot_def example_boot_def usable_pages_def early_heap_pages_def)
  ultimately have "card ((\<lambda>i. 0x300000 + 4096 * i) ` {..<0x8000 :: nat}) \<le> card ?P"
    by (rule card_mono [rotated])
  then show ?thesis
    by (simp add: card_image inj_on_def)
qed

lemma start_ok0: "start_ok start_env0 start_boot kernel0"
proof -
  have "boot_fits 0 0x5000 start_boot" "boot_layout_ok start_boot"
    by (simp_all add: boot_fits_def boot_layout_ok_def start_boot_def example_boot_def MAX_RESV_def mmap_ok_def region_fits_def region_apart_def
        MAX_USABLE_def)
  then show ?thesis
    using start_pool table_frames(3) unfolding start_ok_def
    by (simp add: start_env0_def kernel0_def stack_ok_def start_boot_def example_boot_def APIC_PHYS_MASK_def)
qed


end
